(* ===== verification/Prelude.thy ===== *)
theory Prelude
  imports Main "HOL-Library.AList"
begin

text \<open>
  Shared vocabulary of the development: the Python exceptions that the code can raise, results
  that are either such an exception or a value, the sequencing of two raising computations, and
  facts on lists and association lists that several components use. A Python \<open>dict\<close> is an
  association list in insertion order without repeated keys: \<open>map_of\<close> is \<open>d.get\<close>,
  \<open>AList.update\<close> is item assignment (in place for an old key, at the end for a new one) and
  \<open>AList.delete\<close> is \<open>d.pop(key, None)\<close>.
\<close>

section \<open>Text as code points\<close>

text \<open>A Python \<open>str\<close> is a sequence of Unicode code points; literals are written in ASCII.\<close>

type_synonym pystr = "int list"
type_synonym bytes = "int list"
type_synonym 'v dict = "(pystr \<times> 'v) list"

definition lit :: "string \<Rightarrow> pystr" where
  "lit s = map of_char s"

lemma lit_eq_iff [simp]: "lit a = lit b \<longleftrightarrow> a = b"
  unfolding lit_def by (rule inj_map_eq_map) (auto intro!: injI)

lemma lit_Nil_iff [simp]: "lit a = [] \<longleftrightarrow> a = []" "[] = lit a \<longleftrightarrow> a = []"
  by (auto simp: lit_def)

lemma lit_Nil [simp]: "lit [] = []"
  by (simp add: lit_def)

lemma length_lit [simp]: "length (lit s) = length s"
  by (simp add: lit_def)

section \<open>Exceptions and results\<close>

text \<open>
  The exception classes the modelled code raises or lets through (\<open>DatabaseError\<close> stands for those of
  psycopg and its pool). Messages of exceptions are
  not modelled, except the key of a \<open>KeyError\<close>.
\<close>

datatype py_exc =
    ValueError
  | JSONDecodeError
  | UnicodeDecodeError
  | UnicodeEncodeError
  | OverflowError
  | TypeError
  | AttributeError
  | KeyError pystr
  | FileNotFoundError
  | OSError
  | DatabaseError
  | RuntimeError

text \<open>\<open>except ValueError\<close> also catches the subclasses of \<open>ValueError\<close>.\<close>

fun is_ValueError :: "py_exc \<Rightarrow> bool" where
  "is_ValueError ValueError = True"
| "is_ValueError JSONDecodeError = True"
| "is_ValueError UnicodeDecodeError = True"
| "is_ValueError UnicodeEncodeError = True"
| "is_ValueError _ = False"

type_synonym 'a res = "py_exc + 'a"

definition bind_res :: "'e + 'a \<Rightarrow> ('a \<Rightarrow> 'e + 'b) \<Rightarrow> 'e + 'b" where
  "bind_res m f = (case m of Inl e \<Rightarrow> Inl e | Inr a \<Rightarrow> f a)"

named_theorems res_simps \<open>case analysis of raising computations\<close>

lemma bind_res_Inl [simp]: "bind_res (Inl e) f = Inl e"
  by (simp add: bind_res_def)

lemma bind_res_Inr [simp]: "bind_res (Inr a) f = f a"
  by (simp add: bind_res_def)

lemma bind_res_eq_Inr [res_simps]:
  "bind_res m f = Inr b \<longleftrightarrow> (\<exists>a. m = Inr a \<and> f a = Inr b)"
  by (cases m) auto

lemma bind_res_eq_Inl [res_simps]:
  "bind_res m f = Inl e \<longleftrightarrow> m = Inl e \<or> (\<exists>a. m = Inr a \<and> f a = Inl e)"
  by (cases m) auto

lemma bind_res_cong [fundef_cong]:
  "m = m' \<Longrightarrow> (\<And>a. m' = Inr a \<Longrightarrow> f a = f' a) \<Longrightarrow> bind_res m f = bind_res m' f'"
  by (cases m') auto

lemma bind_res_assoc: "bind_res (bind_res m f) g = bind_res m (\<lambda>a. bind_res (f a) g)"
  by (cases m) auto

text \<open>\<open>try: ... except ValueError: return default\<close>.\<close>

definition on_ValueError :: "'a res \<Rightarrow> 'a \<Rightarrow> 'a res" where
  "on_ValueError m d = (case m of Inl e \<Rightarrow> if is_ValueError e then Inr d else Inl e | Inr a \<Rightarrow> Inr a)"

lemma on_ValueError_simps [simp]:
  "on_ValueError (Inr a) d = Inr a"
  "on_ValueError (Inl e) d = (if is_ValueError e then Inr d else Inl e)"
  by (simp_all add: on_ValueError_def)

text \<open>A list comprehension whose element expression can raise.\<close>

fun map_res :: "('a \<Rightarrow> 'e + 'b) \<Rightarrow> 'a list \<Rightarrow> 'e + 'b list" where
  "map_res f [] = Inr []"
| "map_res f (x # xs) = bind_res (f x) (\<lambda>y. bind_res (map_res f xs) (\<lambda>ys. Inr (y # ys)))"

lemma map_res_cong [fundef_cong]:
  "xs = ys \<Longrightarrow> (\<And>x. x \<in> set ys \<Longrightarrow> f x = g x) \<Longrightarrow> map_res f xs = map_res g ys"
  by (induction xs arbitrary: ys) (auto cong: bind_res_cong)

lemma map_res_Inr_length: "map_res f xs = Inr ys \<Longrightarrow> length ys = length xs"
  by (induction xs arbitrary: ys) (auto simp: res_simps)

section \<open>Dictionaries\<close>

text \<open>A dict value never holds a key twice.\<close>

definition wf_dict :: "'v dict \<Rightarrow> bool" where
  "wf_dict d \<longleftrightarrow> distinct (map fst d)"

abbreviation dict_get :: "'v dict \<Rightarrow> pystr \<Rightarrow> 'v option" where
  "dict_get d k \<equiv> map_of d k"

abbreviation dict_set :: "pystr \<Rightarrow> 'v \<Rightarrow> 'v dict \<Rightarrow> 'v dict" where
  "dict_set k v d \<equiv> AList.update k v d"

abbreviation dict_pop :: "pystr \<Rightarrow> 'v dict \<Rightarrow> 'v dict" where
  "dict_pop k d \<equiv> AList.delete k d"

definition has_key :: "pystr \<Rightarrow> 'v dict \<Rightarrow> bool" where
  "has_key k d \<longleftrightarrow> dict_get d k \<noteq> None"

lemma dict_get_set [simp]: "dict_get (dict_set k v d) k' = (if k' = k then Some v else dict_get d k')"
  by (simp add: update_conv')

lemma dict_get_pop [simp]: "dict_get (dict_pop k d) k' = (if k' = k then None else dict_get d k')"
  by (simp add: delete_conv')

lemma wf_dict_Nil [simp]: "wf_dict []"
  by (simp add: wf_dict_def)

lemma wf_dict_set [intro]: "wf_dict d \<Longrightarrow> wf_dict (dict_set k v d)"
  by (simp add: wf_dict_def distinct_update)

lemma wf_dict_pop [intro]: "wf_dict d \<Longrightarrow> wf_dict (dict_pop k d)"
  by (simp add: wf_dict_def distinct_delete)

lemma dict_set_new: "dict_get d k = None \<Longrightarrow> dict_set k v d = d @ [(k, v)]"
  by (induction d) (auto split: if_splits)

lemma dict_pop_absent: "dict_get d k = None \<Longrightarrow> dict_pop k d = d"
  by (induction d) (auto simp: AList.delete_eq split: if_splits)

section \<open>Lists\<close>

lemma takeWhile_append_stop:
  "list_all P xs \<Longrightarrow> (ys = [] \<or> \<not> P (hd ys)) \<Longrightarrow> takeWhile P (xs @ ys) = xs"
  by (induction xs) (cases ys; auto)+

lemma dropWhile_append_stop:
  "list_all P xs \<Longrightarrow> (ys = [] \<or> \<not> P (hd ys)) \<Longrightarrow> dropWhile P (xs @ ys) = ys"
  by (induction xs) (cases ys; auto)+

lemma dropWhile_id: "xs = [] \<or> \<not> P (hd xs) \<Longrightarrow> dropWhile P xs = xs"
  by (cases xs) auto

end
