(* ===== verification/Py_Text.thy ===== *)
theory Py_Text
  imports Prelude
begin

text \<open>
  The \<open>str\<close> methods the program uses, over code points: \<open>strip\<close>, \<open>split\<close>, \<open>lower\<close>,
  \<open>join\<close>, \<open>startswith\<close>, and the white space and decimal digits of Unicode 15 (the database of
  Python 3.12). The case and printability data of the characters outside ASCII belong to the
  interpreter's generated database, which is not part of the program, as is the wording of the
  decoder's error messages: they are the record \<open>interp\<close>, an argument of the definitions that
  need it.
\<close>

record interp =
  uc_lower :: "pystr \<Rightarrow> pystr"
  uc_printable :: "int \<Rightarrow> bool"
  json_error_message :: "pystr \<Rightarrow> pystr"

text \<open>An instance for evaluation: no case folding and no printable characters outside ASCII.\<close>

definition ascii_interp :: interp where
  "ascii_interp = \<lparr>uc_lower = (\<lambda>s. s), uc_printable = (\<lambda>c. False), json_error_message = (\<lambda>s. [])\<rparr>"

section \<open>Character classes\<close>

definition is_space :: "int \<Rightarrow> bool" where
  "is_space c \<longleftrightarrow> 9 \<le> c \<and> c \<le> 13 \<or> 28 \<le> c \<and> c \<le> 32 \<or> c = 133 \<or> c = 160 \<or> c = 5760
     \<or> 8192 \<le> c \<and> c \<le> 8202 \<or> c = 8232 \<or> c = 8233 \<or> c = 8239 \<or> c = 8287 \<or> c = 12288"

definition is_digit :: "int \<Rightarrow> bool" where
  "is_digit c \<longleftrightarrow> 48 \<le> c \<and> c \<le> 57"

text \<open>The code points of the zeros of the decimal digit ranges (category Nd).\<close>

definition decimal_zeros :: "int list" where
  "decimal_zeros =
     [48, 1632, 1776, 1984, 2406, 2534, 2662, 2790, 2918, 3046, 3174, 3302, 3430, 3558, 3664,
      3792, 3872, 4160, 4240, 6112, 6160, 6470, 6608, 6784, 6800, 6992, 7088, 7232, 7248, 42528,
      43216, 43264, 43472, 43504, 43600, 44016, 65296, 66720, 68912, 69734, 69872, 69942, 70096,
      70384, 70736, 70864, 71248, 71360, 71472, 71904, 72016, 72784, 73040, 73120, 73552, 92768,
      92864, 93008, 120782, 120792, 120802, 120812, 120822, 123200, 123632, 124144, 125264,
      130032]"

definition decimal_value :: "int \<Rightarrow> int option" where
  "decimal_value c =
     map_option (\<lambda>z. c - z) (List.find (\<lambda>z. z \<le> c \<and> c \<le> z + 9) decimal_zeros)"

definition is_decimal :: "int \<Rightarrow> bool" where
  "is_decimal c \<longleftrightarrow> decimal_value c \<noteq> None"

definition ascii_lower :: "int \<Rightarrow> int" where
  "ascii_lower c = (if 65 \<le> c \<and> c \<le> 90 then c + 32 else c)"

definition is_ascii :: "pystr \<Rightarrow> bool" where
  "is_ascii s \<longleftrightarrow> list_all (\<lambda>c. 0 \<le> c \<and> c < 128) s"

lemma is_space_not_digit: "is_digit c \<Longrightarrow> \<not> is_space c"
  by (auto simp: is_space_def is_digit_def)

lemma decimal_value_ascii [simp]: "is_digit c \<Longrightarrow> decimal_value c = Some (c - 48)"
  by (simp add: decimal_value_def decimal_zeros_def is_digit_def)

lemma is_decimal_digit: "is_digit c \<Longrightarrow> is_decimal c"
  by (simp add: is_decimal_def)

lemma decimal_value_Some:
  assumes "decimal_value c = Some d"
  obtains z where "z \<in> set decimal_zeros" "c = z + d" "0 \<le> d" "d \<le> 9"
  using assms by (auto simp: decimal_value_def find_Some_iff)

lemma is_decimal_not_space: "is_decimal c \<Longrightarrow> \<not> is_space c"
  by (auto simp: is_decimal_def is_space_def decimal_zeros_def elim!: decimal_value_Some)

section \<open>Methods of str\<close>

definition lstrip :: "pystr \<Rightarrow> pystr" where
  "lstrip s = dropWhile is_space s"

definition rstrip :: "pystr \<Rightarrow> pystr" where
  "rstrip s = rev (dropWhile is_space (rev s))"

definition strip :: "pystr \<Rightarrow> pystr" where
  "strip s = rstrip (lstrip s)"

definition py_lower :: "interp \<Rightarrow> pystr \<Rightarrow> pystr" where
  "py_lower uc s = (if is_ascii s then map ascii_lower s else uc_lower uc s)"

definition startswith :: "pystr \<Rightarrow> pystr \<Rightarrow> bool" where
  "startswith p s \<longleftrightarrow> take (length p) s = p"

text \<open>\<open>s.split(c, 1)\<close> for an \<open>s\<close> that holds \<open>c\<close>: the text before and after the first \<open>c\<close>.\<close>

definition split_first :: "int \<Rightarrow> pystr \<Rightarrow> pystr \<times> pystr" where
  "split_first c s = (takeWhile (\<lambda>x. x \<noteq> c) s, tl (dropWhile (\<lambda>x. x \<noteq> c) s))"

text \<open>\<open>s.split(c)\<close>: never empty, \<open>[s]\<close> when \<open>c\<close> does not occur.\<close>

fun split_on :: "int \<Rightarrow> pystr \<Rightarrow> pystr list" where
  "split_on c [] = [[]]"
| "split_on c (x # xs) =
     (if x = c then [] # split_on c xs
      else (case split_on c xs of [] \<Rightarrow> [[x]] | t # ts \<Rightarrow> (x # t) # ts))"

fun join_with :: "pystr \<Rightarrow> pystr list \<Rightarrow> pystr" where
  "join_with sep [] = []"
| "join_with sep [s] = s"
| "join_with sep (s # t # ts) = s @ sep @ join_with sep (t # ts)"

section \<open>Facts about strip\<close>

text \<open>A text that \<open>strip\<close> leaves alone: no white space at either end.\<close>

definition stripped :: "pystr \<Rightarrow> bool" where
  "stripped s \<longleftrightarrow> (s = [] \<or> \<not> is_space (hd s) \<and> \<not> is_space (last s))"

lemma hd_dropWhile_not: "dropWhile P s \<noteq> [] \<Longrightarrow> \<not> P (hd (dropWhile P s))"
  by (rule hd_dropWhile)

lemma rstrip_stop: "rstrip s \<noteq> [] \<Longrightarrow> \<not> is_space (last (rstrip s))"
  using hd_dropWhile_not [of is_space "rev s"] by (simp add: rstrip_def last_rev)

lemma rstrip_prefix: "\<exists>ws. s = rstrip s @ ws \<and> list_all is_space ws"
proof
  have "rev s = takeWhile is_space (rev s) @ dropWhile is_space (rev s)" by simp
  then have "s = rev (dropWhile is_space (rev s)) @ rev (takeWhile is_space (rev s))"
    by (metis rev_append rev_rev_ident)
  then show "s = rstrip s @ rev (takeWhile is_space (rev s))
      \<and> list_all is_space (rev (takeWhile is_space (rev s)))"
    by (auto simp: rstrip_def list_all_iff dest: set_takeWhileD)
qed

lemma stripped_strip [simp, intro]: "stripped (strip s)"
proof (cases "strip s = []")
  case False
  obtain ws where ws: "lstrip s = strip s @ ws"
    using rstrip_prefix [of "lstrip s"] by (auto simp: strip_def)
  with False have "hd (strip s) = hd (lstrip s)" and "lstrip s \<noteq> []" by auto
  then have "\<not> is_space (hd (strip s))"
    using hd_dropWhile_not [of is_space s] by (simp add: lstrip_def)
  moreover have "\<not> is_space (last (strip s))"
    using False rstrip_stop [of "lstrip s"] by (simp add: strip_def)
  ultimately show ?thesis by (simp add: stripped_def)
qed (simp add: stripped_def)

lemma strip_id [simp]: "stripped s \<Longrightarrow> strip s = s"
  by (auto simp: stripped_def strip_def lstrip_def rstrip_def dropWhile_id hd_rev)

lemma strip_idem [simp]: "strip (strip s) = strip s"
  by simp

lemma strip_Nil [simp]: "strip [] = []"
  by (simp add: strip_def lstrip_def rstrip_def)

lemma strip_surround:
  assumes "stripped s" and "list_all is_space u" and "list_all is_space v"
  shows "strip (u @ s @ v) = s"
proof (cases "s = []")
  case True
  with assms have "lstrip (u @ s @ v) = []"
    by (auto simp: lstrip_def list_all_iff)
  with True show ?thesis by (simp add: strip_def rstrip_def)
next
  case False
  with assms have "lstrip (u @ s @ v) = s @ v"
    unfolding lstrip_def by (intro dropWhile_append_stop) (auto simp: stripped_def)
  moreover have "rstrip (s @ v) = s"
  proof -
    have "dropWhile is_space (rev v @ rev s) = rev s"
      using assms False by (intro dropWhile_append_stop)
        (auto simp: stripped_def hd_rev list_all_iff)
    then show ?thesis by (simp add: rstrip_def)
  qed
  ultimately show ?thesis by (simp add: strip_def)
qed

lemma set_strip: "set (strip s) \<subseteq> set s"
  by (auto simp: strip_def lstrip_def rstrip_def dest!: set_dropWhileD)

section \<open>Facts about split and join\<close>

lemma split_first_append:
  assumes "c \<notin> set t"
  shows "split_first c (t @ c # p) = (t, p)"
proof -
  from assms have all: "list_all (\<lambda>x. x \<noteq> c) t"
    by (auto simp: list_all_iff)
  have "takeWhile (\<lambda>x. x \<noteq> c) (t @ c # p) = t"
    by (rule takeWhile_append_stop [OF all]) simp
  moreover have "dropWhile (\<lambda>x. x \<noteq> c) (t @ c # p) = c # p"
    by (rule dropWhile_append_stop [OF all]) simp
  ultimately show ?thesis by (simp add: split_first_def)
qed

lemma split_on_not_Nil [simp]: "split_on c s \<noteq> []"
  by (induction s) (auto split: list.splits)

lemma split_on_no_sep: "c \<notin> set s \<Longrightarrow> split_on c s = [s]"
  by (induction s) auto

lemma split_on_append_sep: "c \<notin> set t \<Longrightarrow> split_on c (t @ c # s) = t # split_on c s"
  by (induction t) auto

lemma split_on_join:
  "ts \<noteq> [] \<Longrightarrow> list_all (\<lambda>t. c \<notin> set t) ts \<Longrightarrow> split_on c (join_with [c] ts) = ts"
proof (induction ts)
  case (Cons t ts)
  then show ?case
    by (cases ts) (auto simp: split_on_no_sep split_on_append_sep)
qed simp

lemma split_on_no_sep_elem: "t \<in> set (split_on c s) \<Longrightarrow> c \<notin> set t"
  by (induction s arbitrary: t) (auto split: list.splits if_splits)

lemma join_split_on: "join_with [c] (split_on c s) = s"
proof (induction s)
  case (Cons x s)
  then show ?case
    by (cases "split_on c s"; cases "tl (split_on c s)") (auto split: list.splits)
qed simp

end
