(* ===== verification/Py_Number.thy ===== *)
theory Py_Number
  imports Py_Text
begin

text \<open>
  Python's numbers as the program uses them: \<open>int\<close> (unbounded), \<open>float\<close> (IEEE binary64 with
  round-to-nearest-even), their reading from text by \<open>int(s)\<close>, \<open>int(s, 16)\<close> and \<open>float(s)\<close>, the
  conversions \<open>float(i)\<close> and \<open>int(f)\<close> with the exceptions they raise, and the texts \<open>str(i)\<close> and
  \<open>repr(f)\<close>. CPython refuses to convert between decimal text and integers of more than 4300
  digits, which is modelled.
\<close>

section \<open>Decimal texts of integers\<close>

function int_digits :: "int \<Rightarrow> pystr" where
  "int_digits x = (if x < 10 then [48 + x] else int_digits (x div 10) @ [48 + x mod 10])"
  by pat_completeness auto
termination by (relation "measure nat") auto

declare int_digits.simps [simp del]

definition digits_value :: "int \<Rightarrow> int list \<Rightarrow> int" where
  "digits_value b ds = foldl (\<lambda>a d. a * b + d) 0 ds"

definition int_repr :: "int \<Rightarrow> pystr" where
  "int_repr i = (if i < 0 then 45 # int_digits (- i) else int_digits i)"

definition max_str_digits :: nat where
  "max_str_digits = 4300"

text \<open>\<open>str(i)\<close>, also what \<open>json.dumps\<close> writes for an integer.\<close>

definition py_str_int :: "int \<Rightarrow> pystr res" where
  "py_str_int i =
     (if max_str_digits < length (int_digits \<bar>i\<bar>) then Inl ValueError else Inr (int_repr i))"

section \<open>Reading integers\<close>

text \<open>
  The conversion of Unicode text to ASCII that \<open>int\<close> and \<open>float\<close> apply first: decimal digits of
  any script become ASCII digits, other white space a blank, and the rest a question mark.
\<close>

definition to_ascii :: "int \<Rightarrow> int" where
  "to_ascii c =
     (if c < 127 then c
      else if is_space c then 32
      else (case decimal_value c of Some d \<Rightarrow> 48 + d | None \<Rightarrow> 63))"

definition c_space :: "int \<Rightarrow> bool" where
  "c_space c \<longleftrightarrow> 9 \<le> c \<and> c \<le> 13 \<or> c = 32"

definition c_strip :: "pystr \<Rightarrow> pystr" where
  "c_strip s = rev (dropWhile c_space (rev (dropWhile c_space s)))"

definition split_sign :: "pystr \<Rightarrow> bool \<times> pystr" where
  "split_sign s =
     (case s of [] \<Rightarrow> (False, [])
      | c # t \<Rightarrow> if c = 45 then (True, t) else if c = 43 then (False, t) else (False, s))"

text \<open>Digits with single underscores between them; the result drops the underscores.\<close>

fun group_digits :: "(int \<Rightarrow> bool) \<Rightarrow> pystr \<Rightarrow> pystr option" where
  "group_digits p [] = None"
| "group_digits p [c] = (if p c then Some [c] else None)"
| "group_digits p (c # d # s) =
     (if p c
      then map_option ((#) c) (if d = 95 then group_digits p s else group_digits p (d # s))
      else None)"

definition signed :: "bool \<Rightarrow> int \<Rightarrow> int" where
  "signed neg n = (if neg then - n else n)"

text \<open>\<open>int(s)\<close>.\<close>

definition py_int :: "pystr \<Rightarrow> int res" where
  "py_int s =
     (let (neg, u) = split_sign (c_strip (map to_ascii s))
      in (case group_digits is_digit u of
            None \<Rightarrow> Inl ValueError
          | Some ds \<Rightarrow>
              if max_str_digits < length ds then Inl ValueError
              else Inr (signed neg (digits_value 10 (map (\<lambda>c. c - 48) ds)))))"

definition hex_value :: "int \<Rightarrow> int" where
  "hex_value c = (if is_digit c then c - 48 else ascii_lower c - 87)"

definition is_hex :: "int \<Rightarrow> bool" where
  "is_hex c \<longleftrightarrow> is_digit c \<or> 97 \<le> ascii_lower c \<and> ascii_lower c \<le> 102"

text \<open>\<open>int(s, 16)\<close>: an optional \<open>0x\<close> prefix, after which one underscore may stand.\<close>

definition hex_body :: "pystr \<Rightarrow> pystr" where
  "hex_body u =
     (if map ascii_lower (take 2 u) = [48, 120]
      then (case drop 2 u of [] \<Rightarrow> [] | c # w \<Rightarrow> if c = 95 then w else c # w)
      else u)"

definition py_int16 :: "pystr \<Rightarrow> int res" where
  "py_int16 s =
     (let (neg, u) = split_sign (c_strip (map to_ascii s))
      in (case group_digits is_hex (hex_body u) of
            None \<Rightarrow> Inl ValueError
          | Some ds \<Rightarrow> Inr (signed neg (digits_value 16 (map hex_value ds)))))"

section \<open>Binary floating point\<close>

text \<open>
  \<open>Fin neg m e\<close> is \<open>\<plusminus> m * 2 ^ e\<close>; the canonical form of a double has \<open>0 \<le> m < 2 ^ 53\<close>,
  \<open>-1074 \<le> e \<le> 971\<close>, and \<open>2 ^ 52 \<le> m\<close> unless \<open>e = -1074\<close> (subnormal numbers and zero).
\<close>

datatype pyfloat = FNan | FInf bool | Fin bool int int

fun canonical :: "pyfloat \<Rightarrow> bool" where
  "canonical (Fin neg m e) \<longleftrightarrow>
     0 \<le> m \<and> m < 2 ^ 53 \<and> - 1074 \<le> e \<and> e \<le> 971 \<and> (2 ^ 52 \<le> m \<or> e = - 1074)"
| "canonical _ = True"

function ilog :: "int \<Rightarrow> int \<Rightarrow> int" where
  "ilog b x = (if 2 \<le> b \<and> b \<le> x then 1 + ilog b (x div b) else 0)"
  by pat_completeness auto
termination
  by (relation "measure (\<lambda>(b, x). nat x)") (auto simp: int_div_less_self)

declare ilog.simps [simp del]

text \<open>\<open>p / q\<close> scaled by \<open>b ^ k\<close>, as a quotient of integers.\<close>

definition scale :: "int \<Rightarrow> int \<Rightarrow> int \<times> int \<Rightarrow> int \<times> int" where
  "scale b k pq =
     (if 0 \<le> k then (fst pq * b ^ nat k, snd pq) else (fst pq, snd pq * b ^ nat (- k)))"

text \<open>The greatest \<open>k\<close> with \<open>b ^ k \<le> p / q\<close>, for positive \<open>p\<close> and \<open>q\<close>.\<close>

definition ilog_ratio :: "int \<Rightarrow> int \<Rightarrow> int \<Rightarrow> int" where
  "ilog_ratio b p q =
     (let d = ilog b p - ilog b q; (p', q') = scale b (- d) (p, q)
      in if q' \<le> p' then d else d - 1)"

definition half_even :: "int \<Rightarrow> int \<Rightarrow> int" where
  "half_even p q =
     (let d = p div q; r = p mod q
      in if 2 * r < q then d else if q < 2 * r then d + 1 else if even d then d else d + 1)"

text \<open>The double nearest to \<open>p / q\<close>, infinity from half a unit above the greatest double on.\<close>

definition round_ratio :: "bool \<Rightarrow> int \<Rightarrow> int \<Rightarrow> pyfloat" where
  "round_ratio neg p q =
     (if p = 0 then Fin neg 0 (- 1074)
      else
        let e = max (- 1074) (ilog_ratio 2 p q - 52);
            (p', q') = scale 2 (- e) (p, q);
            m = half_even p' q';
            (m', e') = (if m = 2 ^ 53 then (2 ^ 52, e + 1) else (m, e))
        in if 971 < e' then FInf neg else Fin neg m' e')"

definition float_of_decimal :: "bool \<Rightarrow> int \<Rightarrow> int \<Rightarrow> pyfloat" where
  "float_of_decimal neg d k = (let (p, q) = scale 10 k (d, 1) in round_ratio neg p q)"

text \<open>\<open>float(i)\<close> and \<open>int(f)\<close>.\<close>

definition py_float_of_int :: "int \<Rightarrow> pyfloat res" where
  "py_float_of_int i =
     (case round_ratio (i < 0) \<bar>i\<bar> 1 of FInf _ \<Rightarrow> Inl OverflowError | f \<Rightarrow> Inr f)"

fun py_int_of_float :: "pyfloat \<Rightarrow> int res" where
  "py_int_of_float FNan = Inl ValueError"
| "py_int_of_float (FInf _) = Inl OverflowError"
| "py_int_of_float (Fin neg m e) =
     (let (p, q) = scale 2 e (m, 1) in Inr (signed neg (p div q)))"

section \<open>Reading floats\<close>

text \<open>
  The grammar of \<open>float(s)\<close> on ASCII text: \<open>[sign] digits [. digits] [e [sign] digits]\<close> with a
  digit before or after the point, or \<open>inf\<close>, \<open>infinity\<close>, \<open>nan\<close> in any case. A value too large
  becomes an infinity, as in CPython.
\<close>

definition split_span :: "(int \<Rightarrow> bool) \<Rightarrow> pystr \<Rightarrow> pystr \<times> pystr" where
  "split_span p s = (takeWhile p s, dropWhile p s)"

lemma split_span_append: "split_span p s = (a, b) \<Longrightarrow> s = a @ b"
  by (auto simp: split_span_def)

lemma split_span_all: "split_span p s = (a, b) \<Longrightarrow> list_all p a"
  by (auto simp: split_span_def list_all_iff dest: set_takeWhileD)

lemma split_span_prefix:
  "list_all p xs \<Longrightarrow> (ys = [] \<or> \<not> p (hd ys)) \<Longrightarrow> split_span p (xs @ ys) = (xs, ys)"
  by (simp add: split_span_def takeWhile_append_stop dropWhile_append_stop)

definition decimal_int :: "pystr \<Rightarrow> int" where
  "decimal_int ds = digits_value 10 (map (\<lambda>c. c - 48) ds)"

definition parse_exponent :: "pystr \<Rightarrow> int option" where
  "parse_exponent s =
     (case s of
        [] \<Rightarrow> Some 0
      | c # t \<Rightarrow>
          if c = 101 \<or> c = 69
          then (let (neg, u) = split_sign t
                in if u \<noteq> [] \<and> list_all is_digit u then Some (signed neg (decimal_int u)) else None)
          else None)"

definition parse_fraction :: "pystr \<Rightarrow> pystr \<times> pystr" where
  "parse_fraction s =
     (case s of [] \<Rightarrow> ([], []) | c # t \<Rightarrow> if c = 46 then split_span is_digit t else ([], s))"

definition parse_decimal :: "bool \<Rightarrow> pystr \<Rightarrow> pyfloat option" where
  "parse_decimal neg u =
     (let (ip, r) = split_span is_digit u; (fp, x) = parse_fraction r
      in if ip = [] \<and> fp = [] then None
         else map_option
           (\<lambda>k. float_of_decimal neg (decimal_int (ip @ fp)) (k - int (length fp)))
           (parse_exponent x))"

definition float_of_ascii :: "pystr \<Rightarrow> pyfloat option" where
  "float_of_ascii s =
     (let (neg, u) = split_sign s; l = map ascii_lower u
      in if l = lit ''inf'' \<or> l = lit ''infinity'' then Some (FInf neg)
         else if l = lit ''nan'' then Some FNan
         else parse_decimal neg u)"

text \<open>Underscores stand between digits only (\<open>prev\<close> is the character before).\<close>

fun underscores_ok :: "int \<Rightarrow> pystr \<Rightarrow> bool" where
  "underscores_ok prev [] = (prev \<noteq> 95)"
| "underscores_ok prev (c # s) =
     ((if c = 95 then is_digit prev else prev = 95 \<longrightarrow> is_digit c) \<and> underscores_ok c s)"

text \<open>\<open>float(s)\<close>.\<close>

definition py_float :: "pystr \<Rightarrow> pyfloat res" where
  "py_float s =
     (let t = c_strip (map to_ascii s)
      in if underscores_ok 0 t
         then (case float_of_ascii (filter (\<lambda>c. c \<noteq> 95) t) of
                 None \<Rightarrow> Inl ValueError | Some f \<Rightarrow> Inr f)
         else Inl ValueError)"

section \<open>The shortest text of a float\<close>

text \<open>
  \<open>repr(f)\<close> writes the least number of significant digits that read back as \<open>f\<close>;
  \<open>round_digits n p q\<close> is \<open>p / q\<close> rounded to \<open>n\<close> significant digits: the digits as an integer and
  the position of the decimal point, so that the value is \<open>0.ddd * 10 ^ point\<close>.
\<close>

definition round_digits :: "int \<Rightarrow> int \<Rightarrow> int \<Rightarrow> int \<times> int" where
  "round_digits n p q =
     (let k = ilog_ratio 10 p q + 1;
          (p', q') = scale 10 (n - k) (p, q);
          d = half_even p' q'
      in if d = 10 ^ nat n then (10 ^ nat (n - 1), k + 1) else (d, k))"

definition reads_back :: "bool \<Rightarrow> int \<Rightarrow> int \<Rightarrow> int \<Rightarrow> bool" where
  "reads_back neg m e n =
     (let (p, q) = scale 2 e (m, 1); (d, k) = round_digits n p q
      in float_of_decimal neg d (k - n) = Fin neg m e)"

definition shortest :: "bool \<Rightarrow> int \<Rightarrow> int \<Rightarrow> int" where
  "shortest neg m e =
     (case List.find (reads_back neg m e) [1..16] of None \<Rightarrow> 17 | Some n \<Rightarrow> n)"

definition exponent_text :: "int \<Rightarrow> pystr" where
  "exponent_text x =
     (if x < 0 then [101, 45] else [101, 43])
     @ (if \<bar>x\<bar> < 10 then 48 # int_digits \<bar>x\<bar> else int_digits \<bar>x\<bar>)"

definition zeros :: "int \<Rightarrow> pystr" where
  "zeros n = replicate (nat n) 48"

text \<open>Layout of the digits \<open>ds\<close> with the decimal point at \<open>k\<close>.\<close>

definition layout_digits :: "pystr \<Rightarrow> int \<Rightarrow> pystr" where
  "layout_digits ds k =
     (if k \<le> - 4 \<or> 16 < k
      then take 1 ds @ (if length ds = 1 then [] else 46 # drop 1 ds) @ exponent_text (k - 1)
      else if k \<le> 0 then [48, 46] @ zeros (- k) @ ds
      else if k < int (length ds) then take (nat k) ds @ 46 # drop (nat k) ds
      else ds @ zeros (k - int (length ds)) @ [46, 48])"

fun float_repr :: "pyfloat \<Rightarrow> pystr" where
  "float_repr FNan = lit ''nan''"
| "float_repr (FInf neg) = (if neg then lit ''-inf'' else lit ''inf'')"
| "float_repr (Fin neg m e) =
     (if neg then [45] else [])
     @ (if m = 0 then lit ''0.0''
        else (let (p, q) = scale 2 e (m, 1); (d, k) = round_digits (shortest neg m e) p q
              in layout_digits (int_digits d) k))"

end
