(* ===== verification/Json_Value.thy ===== *)
theory Json_Value
  imports Py_Number
begin

text \<open>
  The Python values that a JSON text denotes (\<open>None\<close>, \<open>bool\<close>, \<open>int\<close>, \<open>float\<close>, \<open>str\<close>, \<open>list\<close>,
  \<open>dict\<close> with \<open>str\<close> keys), the texts \<open>str(v)\<close> and \<open>repr(v)\<close> of such values, and the Python
  operations on a value of unknown type that the handlers use: \<open>isinstance\<close>, \<open>.get\<close>, \<open>in\<close>.
\<close>

datatype json =
    JNull
  | JBool bool
  | JInt int
  | JFloat pyfloat
  | JStr pystr
  | JArr "json list"
  | JObj "(pystr \<times> json) list"

section \<open>repr and str\<close>

definition hex_digit :: "int \<Rightarrow> int" where
  "hex_digit d = (if d < 10 then 48 + d else 87 + d)"

fun hex_pad :: "nat \<Rightarrow> int \<Rightarrow> pystr" where
  "hex_pad 0 c = []"
| "hex_pad (Suc n) c = hex_pad n (c div 16) @ [hex_digit (c mod 16)]"

text \<open>The escape \<open>repr\<close> uses for a character \<open>c\<close> of a string quoted by \<open>q\<close>.\<close>

definition repr_char :: "interp \<Rightarrow> int \<Rightarrow> int \<Rightarrow> pystr" where
  "repr_char uc q c =
     (if c = q \<or> c = 92 then [92, c]
      else if c = 9 then lit [CHR 92, CHR ''t'']
      else if c = 10 then lit [CHR 92, CHR ''n'']
      else if c = 13 then lit [CHR 92, CHR ''r'']
      else if c < 32 \<or> c = 127 then [92, 120] @ hex_pad 2 c
      else if c < 127 \<or> uc_printable uc c then [c]
      else if c < 256 then [92, 120] @ hex_pad 2 c
      else if c < 65536 then [92, 117] @ hex_pad 4 c
      else [92, 85] @ hex_pad 8 c)"

definition str_repr :: "interp \<Rightarrow> pystr \<Rightarrow> pystr" where
  "str_repr uc s =
     (let q = (if 39 \<in> set s \<and> 34 \<notin> set s then 34 else 39)
      in [q] @ concat (map (repr_char uc q) s) @ [q])"

fun py_repr :: "interp \<Rightarrow> json \<Rightarrow> pystr res" where
  "py_repr uc JNull = Inr (lit ''None'')"
| "py_repr uc (JBool b) = Inr (if b then lit ''True'' else lit ''False'')"
| "py_repr uc (JInt i) = py_str_int i"
| "py_repr uc (JFloat f) = Inr (float_repr f)"
| "py_repr uc (JStr s) = Inr (str_repr uc s)"
| "py_repr uc (JArr vs) =
     bind_res (map_res (py_repr uc) vs) (\<lambda>ts. Inr ([91] @ join_with (lit '', '') ts @ [93]))"
| "py_repr uc (JObj kvs) =
     bind_res
       (map_res (\<lambda>kv. bind_res (py_repr uc (snd kv))
          (\<lambda>t. Inr (str_repr uc (fst kv) @ lit '': '' @ t))) kvs)
       (\<lambda>ts. Inr ([123] @ join_with (lit '', '') ts @ [125]))"

definition py_str :: "interp \<Rightarrow> json \<Rightarrow> pystr res" where
  "py_str uc v = (case v of JStr s \<Rightarrow> Inr s | _ \<Rightarrow> py_repr uc v)"

lemma py_str_simps [simp]:
  "py_str uc (JStr s) = Inr s"
  "py_str uc JNull = Inr (lit ''None'')"
  "py_str uc (JBool b) = Inr (if b then lit ''True'' else lit ''False'')"
  "py_str uc (JInt i) = py_str_int i"
  "py_str uc (JFloat f) = Inr (float_repr f)"
  by (simp_all add: py_str_def)

section \<open>Operations on values of unknown type\<close>

fun is_dict :: "json \<Rightarrow> bool" where
  "is_dict (JObj d) = True"
| "is_dict _ = False"

fun is_list :: "json \<Rightarrow> bool" where
  "is_list (JArr xs) = True"
| "is_list _ = False"

text \<open>\<open>v.get(key)\<close>: an \<open>AttributeError\<close> on a value that is not a dict.\<close>

fun get_attr :: "json \<Rightarrow> pystr \<Rightarrow> json option res" where
  "get_attr (JObj d) k = Inr (dict_get d k)"
| "get_attr _ k = Inl AttributeError"

text \<open>\<open>d.get(key)\<close> with the default \<open>None\<close>: an absent key and a \<open>null\<close> look the same.\<close>

definition get_or_null :: "json dict \<Rightarrow> pystr \<Rightarrow> json" where
  "get_or_null d k = (case dict_get d k of None \<Rightarrow> JNull | Some v \<Rightarrow> v)"

text \<open>\<open>d.get(key, default)\<close>.\<close>

definition get_default :: "json dict \<Rightarrow> pystr \<Rightarrow> json \<Rightarrow> json" where
  "get_default d k v = (case dict_get d k of None \<Rightarrow> v | Some w \<Rightarrow> w)"

lemma get_or_null_set [simp]:
  "get_or_null (dict_set k v d) k' = (if k' = k then v else get_or_null d k')"
  by (simp add: get_or_null_def)

section \<open>Well-formed values\<close>

text \<open>The values of the Python types: code points in range, no repeated keys, canonical floats.\<close>

definition valid_str :: "pystr \<Rightarrow> bool" where
  "valid_str s \<longleftrightarrow> list_all (\<lambda>c. 0 \<le> c \<and> c < 1114112) s"

lemma valid_str_Nil [simp]: "valid_str []"
  by (simp add: valid_str_def)

lemma valid_str_append [simp]: "valid_str (a @ b) \<longleftrightarrow> valid_str a \<and> valid_str b"
  by (simp add: valid_str_def)

lemma valid_str_lit [simp]: "valid_str (lit s)"
proof -
  have "0 \<le> (of_char c :: int) \<and> (of_char c :: int) < 1114112" for c :: char
    using pos_mod_bound [of 256 "of_char c :: int"] pos_mod_sign [of 256 "of_char c :: int"] by simp
  then show ?thesis by (simp add: valid_str_def lit_def list_all_iff)
qed

lemma valid_str_subset: "set a \<subseteq> set b \<Longrightarrow> valid_str b \<Longrightarrow> valid_str a"
  by (auto simp: valid_str_def list_all_iff)

fun wf_json :: "json \<Rightarrow> bool" where
  "wf_json (JFloat f) = canonical f"
| "wf_json (JStr s) = valid_str s"
| "wf_json (JArr vs) = list_all wf_json vs"
| "wf_json (JObj kvs) =
     (wf_dict kvs \<and> list_all (\<lambda>kv. valid_str (fst kv) \<and> wf_json (snd kv)) kvs)"
| "wf_json _ = True"

lemma wf_json_dict_get:
  "wf_json (JObj d) \<Longrightarrow> dict_get d k = Some v \<Longrightarrow> wf_json v"
  by (fastforce simp: list_all_iff dest: map_of_SomeD)

end
