(* ===== verification/Json_Codec.thy ===== *)
theory Json_Codec
  imports Json_Value
begin

text \<open>
  Python's \<open>json.loads\<close> and \<open>json.dumps\<close> on \<open>str\<close>. The reader follows the scanner of the
  standard library: strict strings (no raw control characters), surrogate pairs joined from
  \<open>\\u\<close> escapes, \<open>NaN\<close> and the infinities accepted, the last of repeated keys kept, an
  integer of more than 4300 digits refused with a plain \<open>ValueError\<close>. The limit of the
  interpreter's stack on nesting (\<open>RecursionError\<close>) is not modelled.
\<close>

section \<open>Scanning tokens\<close>

definition is_ws :: "int \<Rightarrow> bool" where
  "is_ws c \<longleftrightarrow> c = 32 \<or> c = 9 \<or> c = 10 \<or> c = 13"

definition skip_ws :: "pystr \<Rightarrow> pystr" where
  "skip_ws s = dropWhile is_ws s"

text \<open>Four hexadecimal digits and the rest.\<close>

definition scan_hex4 :: "pystr \<Rightarrow> (int \<times> pystr) option" where
  "scan_hex4 s =
     (if 4 \<le> length s \<and> list_all is_hex (take 4 s)
      then Some (digits_value 16 (map hex_value (take 4 s)), drop 4 s) else None)"

definition high_surrogate :: "int \<Rightarrow> bool" where
  "high_surrogate c \<longleftrightarrow> 55296 \<le> c \<and> c \<le> 56319"

definition low_surrogate :: "int \<Rightarrow> bool" where
  "low_surrogate c \<longleftrightarrow> 56320 \<le> c \<and> c \<le> 57343"

definition join_surrogates :: "int \<Rightarrow> int \<Rightarrow> int" where
  "join_surrogates h l = 65536 + (h - 55296) * 1024 + (l - 56320)"

text \<open>The character after a backslash other than \<open>u\<close>.\<close>

definition simple_escape :: "int \<Rightarrow> int option" where
  "simple_escape c =
     map_of [(34, 34), (92, 92), (47, 47), (98, 8), (102, 12), (110, 10), (114, 13), (116, 9)] c"

text \<open>A \<open>\\u\<close> escape, given the text after the \<open>u\<close>; a high surrogate takes a low one along.\<close>

definition scan_unicode_escape :: "pystr \<Rightarrow> (int \<times> pystr) option" where
  "scan_unicode_escape s =
     (case scan_hex4 s of
        None \<Rightarrow> None
      | Some (c, r) \<Rightarrow>
          if high_surrogate c \<and> take 2 r = [92, 117]
          then (case scan_hex4 (drop 2 r) of
                  None \<Rightarrow> None
                | Some (c2, r2) \<Rightarrow>
                    if low_surrogate c2 then Some (join_surrogates c c2, r2) else Some (c, r))
          else Some (c, r))"

lemma scan_hex4_length: "scan_hex4 s = Some (c, r) \<Longrightarrow> length r < length s"
  by (auto simp: scan_hex4_def split: if_splits)

lemma scan_unicode_escape_length:
  "scan_unicode_escape s = Some (c, r) \<Longrightarrow> length r < length s"
  by (auto simp: scan_unicode_escape_def split: option.splits if_splits dest!: scan_hex4_length)

text \<open>The body of a string literal after its opening quote: the string and the rest.\<close>

function scan_string :: "pystr \<Rightarrow> (pystr \<times> pystr) res" where
  "scan_string s =
     (case s of
        [] \<Rightarrow> Inl JSONDecodeError
      | c # t \<Rightarrow>
          if c = 34 then Inr ([], t)
          else if c = 92 then
            (case t of
               [] \<Rightarrow> Inl JSONDecodeError
             | d # u \<Rightarrow>
                 if d = 117 then
                   (case scan_unicode_escape u of
                      None \<Rightarrow> Inl JSONDecodeError
                    | Some (x, r) \<Rightarrow> bind_res (scan_string r) (\<lambda>(xs, r'). Inr (x # xs, r')))
                 else
                   (case simple_escape d of
                      None \<Rightarrow> Inl JSONDecodeError
                    | Some x \<Rightarrow> bind_res (scan_string u) (\<lambda>(xs, r'). Inr (x # xs, r'))))
          else if c < 32 then Inl JSONDecodeError
          else bind_res (scan_string t) (\<lambda>(xs, r'). Inr (c # xs, r')))"
  by pat_completeness auto
termination
  by (relation "measure length") (auto dest!: scan_unicode_escape_length)

declare scan_string.simps [simp del]

section \<open>Numbers\<close>

text \<open>
  The digits of an integer part (\<open>0\<close>, or digits that do not start with \<open>0\<close>), the fraction and the
  exponent; a point or an \<open>e\<close> that is not followed by digits is not part of the number.
\<close>

definition scan_int_part :: "pystr \<Rightarrow> (pystr \<times> pystr) option" where
  "scan_int_part s =
     (case s of
        [] \<Rightarrow> None
      | c # t \<Rightarrow> if c = 48 then Some ([48], t) else if is_digit c then Some (split_span is_digit s) else None)"

definition scan_frac :: "pystr \<Rightarrow> pystr \<times> pystr" where
  "scan_frac s =
     (case s of
        [] \<Rightarrow> ([], s)
      | c # t \<Rightarrow> if c = 46 \<and> takeWhile is_digit t \<noteq> [] then split_span is_digit t else ([], s))"

definition scan_exp :: "pystr \<Rightarrow> int option \<times> pystr" where
  "scan_exp s =
     (case s of
        [] \<Rightarrow> (None, s)
      | c # t \<Rightarrow>
          if c = 101 \<or> c = 69
          then (let (neg, u) = split_sign t; (ds, r) = split_span is_digit u
                in if ds \<noteq> [] then (Some (signed neg (decimal_int ds)), r) else (None, s))
          else (None, s))"

definition scan_number :: "pystr \<Rightarrow> (json \<times> pystr) res" where
  "scan_number s =
     (let neg = (s \<noteq> [] \<and> hd s = 45); u = (if neg then tl s else s)
      in (case scan_int_part u of
            None \<Rightarrow> Inl JSONDecodeError
          | Some (ip, r) \<Rightarrow>
              let (fp, r1) = scan_frac r; (ex, r2) = scan_exp r1
              in if fp = [] \<and> ex = None
                 then (if max_str_digits < length ip then Inl ValueError
                       else Inr (JInt (signed neg (decimal_int ip)), r2))
                 else Inr (JFloat (float_of_decimal neg (decimal_int (ip @ fp))
                   ((case ex of None \<Rightarrow> 0 | Some k \<Rightarrow> k) - int (length fp))), r2)))"

section \<open>Values\<close>

definition literals :: "(pystr \<times> json) list" where
  "literals =
     [(lit ''null'', JNull), (lit ''true'', JBool True), (lit ''false'', JBool False),
      (lit ''NaN'', JFloat FNan), (lit ''Infinity'', JFloat (FInf False)),
      (lit ''-Infinity'', JFloat (FInf True))]"

definition scan_atom :: "pystr \<Rightarrow> (json \<times> pystr) res" where
  "scan_atom s =
     (case List.find (\<lambda>l. startswith (fst l) s) literals of
        Some (w, v) \<Rightarrow> Inr (v, drop (length w) s)
      | None \<Rightarrow> scan_number s)"

text \<open>
  The recursive scanner. The first argument is fuel: every two calls consume a character, so
  \<open>2 * length s + 1\<close> is enough (\<open>parse_enough_fuel\<close> below); running out is a \<open>RuntimeError\<close>
  that no input reaches. \<open>parse_members\<close> starts at a member, \<open>parse_elems\<close> at an element.
\<close>

fun parse_value :: "nat \<Rightarrow> pystr \<Rightarrow> (json \<times> pystr) res"
  and parse_members :: "nat \<Rightarrow> pystr \<Rightarrow> json dict \<Rightarrow> (json dict \<times> pystr) res"
  and parse_elems :: "nat \<Rightarrow> pystr \<Rightarrow> (json list \<times> pystr) res"
where
  "parse_value 0 s = Inl RuntimeError"
| "parse_value (Suc n) s =
     (case s of
        [] \<Rightarrow> Inl JSONDecodeError
      | c # t \<Rightarrow>
          if c = 34 then bind_res (scan_string t) (\<lambda>(x, r). Inr (JStr x, r))
          else if c = 123 then
            (case skip_ws t of
               [] \<Rightarrow> Inl JSONDecodeError
             | d # r \<Rightarrow>
                 if d = 125 then Inr (JObj [], r)
                 else bind_res (parse_members n (d # r) []) (\<lambda>(kvs, r'). Inr (JObj kvs, r')))
          else if c = 91 then
            (case skip_ws t of
               [] \<Rightarrow> Inl JSONDecodeError
             | d # r \<Rightarrow>
                 if d = 93 then Inr (JArr [], r)
                 else bind_res (parse_elems n (d # r)) (\<lambda>(vs, r'). Inr (JArr vs, r')))
          else scan_atom s)"
| "parse_members 0 s acc = Inl RuntimeError"
| "parse_members (Suc n) s acc =
     (if s = [] \<or> hd s \<noteq> 34 then Inl JSONDecodeError
      else bind_res (scan_string (tl s)) (\<lambda>(k, r).
        (case skip_ws r of
           [] \<Rightarrow> Inl JSONDecodeError
         | c # r1 \<Rightarrow>
             if c \<noteq> 58 then Inl JSONDecodeError
             else bind_res (parse_value n (skip_ws r1)) (\<lambda>(v, r2).
               (case skip_ws r2 of
                  [] \<Rightarrow> Inl JSONDecodeError
                | d # r3 \<Rightarrow>
                    if d = 125 then Inr (dict_set k v acc, r3)
                    else if d = 44 then parse_members n (skip_ws r3) (dict_set k v acc)
                    else Inl JSONDecodeError)))))"
| "parse_elems 0 s = Inl RuntimeError"
| "parse_elems (Suc n) s =
     bind_res (parse_value n s) (\<lambda>(v, r).
       (case skip_ws r of
          [] \<Rightarrow> Inl JSONDecodeError
        | d # r1 \<Rightarrow>
            if d = 93 then Inr ([v], r1)
            else if d = 44 then
              bind_res (parse_elems n (skip_ws r1)) (\<lambda>(vs, r2). Inr (v # vs, r2))
            else Inl JSONDecodeError))"

text \<open>\<open>json.loads(s)\<close> for a \<open>str\<close>: no byte order mark, nothing but white space after the value.\<close>

definition json_loads :: "pystr \<Rightarrow> json res" where
  "json_loads s =
     (if s \<noteq> [] \<and> hd s = 65279 then Inl JSONDecodeError
      else bind_res (parse_value (Suc (2 * length s)) (skip_ws s))
        (\<lambda>(v, r). if skip_ws r = [] then Inr v else Inl JSONDecodeError))"

section \<open>Writing\<close>

definition short_escape :: "int \<Rightarrow> int option" where
  "short_escape c =
     map_of [(34, 34), (92, 92), (8, 98), (12, 102), (10, 110), (13, 114), (9, 116)] c"

definition unicode_escape :: "int \<Rightarrow> pystr" where
  "unicode_escape c =
     (if c < 65536 then [92, 117] @ hex_pad 4 c
      else let v = c - 65536
           in [92, 117] @ hex_pad 4 (55296 + v div 1024) @ [92, 117] @ hex_pad 4 (56320 + v mod 1024))"

text \<open>\<open>asc\<close> is the option \<open>ensure_ascii\<close>.\<close>

definition escape_char :: "bool \<Rightarrow> int \<Rightarrow> pystr" where
  "escape_char asc c =
     (case short_escape c of
        Some d \<Rightarrow> [92, d]
      | None \<Rightarrow> if c < 32 \<or> asc \<and> 126 < c then unicode_escape c else [c])"

definition string_text :: "bool \<Rightarrow> pystr \<Rightarrow> pystr" where
  "string_text asc s = [34] @ concat (map (escape_char asc) s) @ [34]"

definition float_text :: "pyfloat \<Rightarrow> pystr" where
  "float_text f =
     (case f of
        FNan \<Rightarrow> lit ''NaN''
      | FInf neg \<Rightarrow> if neg then lit ''-Infinity'' else lit ''Infinity''
      | Fin _ _ _ \<Rightarrow> float_repr f)"

fun json_text :: "bool \<Rightarrow> pystr \<Rightarrow> pystr \<Rightarrow> json \<Rightarrow> pystr res" where
  "json_text asc isep ksep JNull = Inr (lit ''null'')"
| "json_text asc isep ksep (JBool b) = Inr (if b then lit ''true'' else lit ''false'')"
| "json_text asc isep ksep (JInt i) = py_str_int i"
| "json_text asc isep ksep (JFloat f) = Inr (float_text f)"
| "json_text asc isep ksep (JStr s) = Inr (string_text asc s)"
| "json_text asc isep ksep (JArr vs) =
     bind_res (map_res (json_text asc isep ksep) vs)
       (\<lambda>ts. Inr ([91] @ join_with isep ts @ [93]))"
| "json_text asc isep ksep (JObj kvs) =
     bind_res
       (map_res (\<lambda>kv. bind_res (json_text asc isep ksep (snd kv))
          (\<lambda>t. Inr (string_text asc (fst kv) @ ksep @ t))) kvs)
       (\<lambda>ts. Inr ([123] @ join_with isep ts @ [125]))"

text \<open>\<open>json.dumps(v, ensure_ascii=False, separators=(",", ":"))\<close> and \<open>json.dumps(v)\<close>.\<close>

definition json_dumps :: "json \<Rightarrow> pystr res" where
  "json_dumps v = json_text False [44] [58] v"

definition json_dumps_default :: "json \<Rightarrow> pystr res" where
  "json_dumps_default v = json_text True (lit '', '') (lit '': '') v"

end
