(* ===== verification/Stream_Events.thy ===== *)
theory Stream_Events
  imports Json_Codec
begin

text \<open>
  The data that the two stream parsers produce (\<open>stream_handler/ls1000_parser.py\<close>): the dataclasses
  \<open>NormalizedEvent\<close> and \<open>ParseError\<close>, and \<open>dataclasses.asdict\<close> of an event, the payload of an
  envelope. A Python \<open>bool\<close> is an \<open>int\<close>, and the parsers hand a JSON \<open>true\<close> through where an integer
  is expected, so integer fields are of type \<open>pyint\<close>. The dataclasses do not check their field
  types.
\<close>

datatype pyint = IntVal int | BoolVal bool

record normalized_event =
  ev_origin :: pystr
  ev_tag_id :: pystr
  ev_ts_utc_ms :: pyint
  ev_x :: "pyfloat option"
  ev_y :: "pyfloat option"
  ev_z :: "pyfloat option"
  ev_layer :: "pyint option"
  ev_area :: "pystr option"
  ev_status :: "pystr option"
  ev_source_type :: pystr
  ev_raw_message :: pystr
  ev_lng :: "pyfloat option"
  ev_lat :: "pyfloat option"
  ev_parse_warnings :: "pystr list"

record parse_error =
  pe_code :: pystr
  pe_message :: pystr
  pe_raw_message :: pystr
  pe_source_type :: pystr

fun json_of_pyint :: "pyint \<Rightarrow> json" where
  "json_of_pyint (IntVal i) = JInt i"
| "json_of_pyint (BoolVal b) = JBool b"

fun json_opt :: "('a \<Rightarrow> json) \<Rightarrow> 'a option \<Rightarrow> json" where
  "json_opt f None = JNull"
| "json_opt f (Some a) = f a"

text \<open>\<open>asdict(event)\<close>, in the order of the fields.\<close>

definition asdict :: "normalized_event \<Rightarrow> json dict" where
  "asdict ev =
     [(lit ''origin'', JStr (ev_origin ev)),
      (lit ''tag_id'', JStr (ev_tag_id ev)),
      (lit ''ts_utc_ms'', json_of_pyint (ev_ts_utc_ms ev)),
      (lit ''x'', json_opt JFloat (ev_x ev)),
      (lit ''y'', json_opt JFloat (ev_y ev)),
      (lit ''z'', json_opt JFloat (ev_z ev)),
      (lit ''layer'', json_opt json_of_pyint (ev_layer ev)),
      (lit ''area'', json_opt JStr (ev_area ev)),
      (lit ''status'', json_opt JStr (ev_status ev)),
      (lit ''source_type'', JStr (ev_source_type ev)),
      (lit ''raw_message'', JStr (ev_raw_message ev)),
      (lit ''lng'', json_opt JFloat (ev_lng ev)),
      (lit ''lat'', json_opt JFloat (ev_lat ev)),
      (lit ''parse_warnings'', JArr (map JStr (ev_parse_warnings ev)))]"

lemma wf_dict_asdict [simp]: "wf_dict (asdict ev)"
  by (simp add: wf_dict_def asdict_def)

text \<open>An event whose fields are values of their Python types.\<close>

definition wf_event :: "normalized_event \<Rightarrow> bool" where
  "wf_event ev \<longleftrightarrow>
     list_all (pred_option canonical) [ev_x ev, ev_y ev, ev_z ev, ev_lng ev, ev_lat ev]
     \<and> list_all valid_str [ev_origin ev, ev_tag_id ev, ev_source_type ev, ev_raw_message ev]
     \<and> list_all (pred_option valid_str) [ev_area ev, ev_status ev]
     \<and> list_all valid_str (ev_parse_warnings ev)"

lemma wf_json_of_pyint [simp]: "wf_json (json_of_pyint p)"
  by (cases p) auto

lemma wf_json_opt_float [simp]: "wf_json (json_opt JFloat f) \<longleftrightarrow> pred_option canonical f"
  by (cases f) auto

lemma wf_json_opt_str [simp]: "wf_json (json_opt JStr s) \<longleftrightarrow> pred_option valid_str s"
  by (cases s) auto

lemma wf_json_opt_pyint [simp]: "wf_json (json_opt json_of_pyint p)"
  by (cases p) auto

lemma wf_json_asdict: "wf_event ev \<Longrightarrow> wf_json (JObj (asdict ev))"
  by (simp add: wf_event_def) (simp add: asdict_def list_all_iff)

text \<open>What a reader of the payload finds under the keys it uses.\<close>

lemma asdict_get [simp]:
  "dict_get (asdict ev) (lit ''tag_id'') = Some (JStr (ev_tag_id ev))"
  "dict_get (asdict ev) (lit ''ts_utc_ms'') = Some (json_of_pyint (ev_ts_utc_ms ev))"
  "dict_get (asdict ev) (lit ''origin'') = Some (JStr (ev_origin ev))"
  "dict_get (asdict ev) (lit ''x'') = Some (json_opt JFloat (ev_x ev))"
  "dict_get (asdict ev) (lit ''y'') = Some (json_opt JFloat (ev_y ev))"
  "dict_get (asdict ev) (lit ''z'') = Some (json_opt JFloat (ev_z ev))"
  "dict_get (asdict ev) (lit ''layer'') = Some (json_opt json_of_pyint (ev_layer ev))"
  "dict_get (asdict ev) (lit ''area'') = Some (json_opt JStr (ev_area ev))"
  "dict_get (asdict ev) (lit ''status'') = Some (json_opt JStr (ev_status ev))"
  "dict_get (asdict ev) (lit ''source_type'') = Some (JStr (ev_source_type ev))"
  "dict_get (asdict ev) (lit ''raw_message'') = Some (JStr (ev_raw_message ev))"
  "dict_get (asdict ev) (lit ''lng'') = Some (json_opt JFloat (ev_lng ev))"
  "dict_get (asdict ev) (lit ''lat'') = Some (json_opt JFloat (ev_lat ev))"
  "dict_get (asdict ev) (lit ''parse_warnings'') = Some (JArr (map JStr (ev_parse_warnings ev)))"
  by (simp_all add: asdict_def)

section \<open>Reading a field under alternative names\<close>

text \<open>
  Both parsers look a field up under several names and take the first one whose value the
  field's parser accepts. The contract of such a reader: it asks the names in order, an
  accepted value ends the search, a refused or missing value continues it, and an exception of
  the parser leaves it.
\<close>

locale field_reader =
  fixes parse :: "json \<Rightarrow> 'a option res"
    and read :: "json dict \<Rightarrow> pystr list \<Rightarrow> 'a option res"
  assumes parse_null: "parse JNull = Inr None"
    and read_Nil: "read d [] = Inr None"
    and read_Cons: "read d (k # ks) =
      bind_res (parse (get_or_null d k)) (\<lambda>r. case r of Some v \<Rightarrow> Inr (Some v) | None \<Rightarrow> read d ks)"
begin

lemma read_hit: "parse (get_or_null d k) = Inr (Some v) \<Longrightarrow> read d (k # ks) = Inr (Some v)"
  by (simp add: read_Cons)

lemma read_miss: "parse (get_or_null d k) = Inr None \<Longrightarrow> read d (k # ks) = read d ks"
  by (simp add: read_Cons)

lemma read_absent: "list_all (\<lambda>k. dict_get d k = None) ks \<Longrightarrow> read d ks = Inr None"
  by (induction ks) (auto simp: read_Nil read_Cons get_or_null_def parse_null)

lemma read_skip:
  "list_all (\<lambda>k. parse (get_or_null d k) = Inr None) ks \<Longrightarrow> read d (ks @ ks') = read d ks'"
  by (induction ks) (auto simp: read_miss)

lemma read_Some_iff:
  "read d ks = Inr (Some v) \<longleftrightarrow>
     (\<exists>pre k post. ks = pre @ k # post \<and> parse (get_or_null d k) = Inr (Some v)
        \<and> list_all (\<lambda>k. parse (get_or_null d k) = Inr None) pre)" (is "_ \<longleftrightarrow> ?R ks")
proof
  show "read d ks = Inr (Some v) \<Longrightarrow> ?R ks"
  proof (induction ks)
    case Nil
    then show ?case by (simp add: read_Nil)
  next
    case (Cons k ks)
    show ?case
    proof (cases "parse (get_or_null d k) = Inr None")
      case True
      with Cons.prems have "read d ks = Inr (Some v)" by (simp add: read_miss)
      then obtain pre k' post where "ks = pre @ k' # post"
        and "parse (get_or_null d k') = Inr (Some v)"
        and "list_all (\<lambda>k. parse (get_or_null d k) = Inr None) pre" using Cons.IH by blast
      with True show ?thesis by (intro exI [of _ "k # pre"]) simp
    next
      case False
      with Cons.prems have "parse (get_or_null d k) = Inr (Some v)"
        by (cases "parse (get_or_null d k)") (auto simp: read_Cons split: option.splits)
      then show ?thesis
        by (intro exI [of _ "[]"] exI [of _ k] exI [of _ ks]) simp
    qed
  qed
next
  show "?R ks \<Longrightarrow> read d ks = Inr (Some v)"
    by (elim exE conjE) (simp add: read_skip read_hit)
qed

lemma read_None_iff:
  "read d ks = Inr None \<longleftrightarrow> list_all (\<lambda>k. parse (get_or_null d k) = Inr None) ks"
proof (induction ks)
  case (Cons k ks)
  then show ?case
    by (cases "parse (get_or_null d k)") (auto simp: read_Cons split: option.splits)
qed (simp add: read_Nil)

text \<open>A reader sees its own names only.\<close>

lemma read_cong:
  "(\<And>k. k \<in> set ks \<Longrightarrow> get_or_null d k = get_or_null d' k) \<Longrightarrow> read d ks = read d' ks"
proof (induction ks)
  case (Cons k ks)
  from Cons.prems have "get_or_null d k = get_or_null d' k" "read d ks = read d' ks"
    by (auto intro: Cons.IH)
  then show ?case by (simp add: read_Cons cong: option.case_cong)
qed (simp add: read_Nil)

lemma read_pop: "k \<notin> set ks \<Longrightarrow> read (dict_pop k d) ks = read d ks"
  by (rule read_cong) (auto simp: get_or_null_def)

end

text \<open>Two readers with parsers that agree on the values at the names agree.\<close>

lemma readers_agree:
  assumes "field_reader p1 r1" and "field_reader p2 r2"
    and "\<And>k. k \<in> set ks \<Longrightarrow> p1 (get_or_null d k) = p2 (get_or_null d k)"
  shows "r1 d ks = r2 d ks"
  using assms(3)
proof (induction ks)
  case Nil
  show ?case
    by (simp add: field_reader.read_Nil [OF assms(1)] field_reader.read_Nil [OF assms(2)])
next
  case (Cons k ks)
  then have "p1 (get_or_null d k) = p2 (get_or_null d k)" "r1 d ks = r2 d ks" by auto
  then show ?case
    by (simp add: field_reader.read_Cons [OF assms(1)] field_reader.read_Cons [OF assms(2)]
      cong: option.case_cong)
qed

end
