(* ===== verification/LS1000_Parser.thy ===== *)
theory LS1000_Parser
  imports Stream_Events
begin

text \<open>
  \<open>stream_handler/ls1000_parser.py\<close>: the parser of LS-1000 messages, \<open>type:field,field,...\<close> or a
  JSON object with one of the LS-1000 markers. A call returns a pair of an optional event and an
  optional error, or raises. The helper functions carry the prefix \<open>ls_\<close> where the JSON
  normalizer has its own copy of them.
\<close>

section \<open>Field helpers\<close>

text \<open>\<open>_parse_int\<close>: an \<open>int\<close> (or \<open>bool\<close>) as it is, a \<open>float\<close> truncated outside the \<open>try\<close>, a text in
  decimal or, with the prefix \<open>0x\<close>, in hexadecimal; a text that does not convert is \<open>None\<close>.\<close>

fun ls_parse_int :: "interp \<Rightarrow> json \<Rightarrow> pyint option res" where
  "ls_parse_int it JNull = Inr None"
| "ls_parse_int it (JInt i) = Inr (Some (IntVal i))"
| "ls_parse_int it (JBool b) = Inr (Some (BoolVal b))"
| "ls_parse_int it (JFloat f) = bind_res (py_int_of_float f) (\<lambda>i. Inr (Some (IntVal i)))"
| "ls_parse_int it (JStr s) =
     (let text = strip s
      in if text = [] then Inr None
         else on_ValueError
           (bind_res
             (if startswith (lit ''0x'') (py_lower it text) then py_int16 text else py_int text)
             (\<lambda>i. Inr (Some (IntVal i))))
           None)"
| "ls_parse_int it _ = Inr None"

text \<open>\<open>_parse_float\<close>.\<close>

fun ls_parse_float :: "json \<Rightarrow> pyfloat option res" where
  "ls_parse_float JNull = Inr None"
| "ls_parse_float (JInt i) = bind_res (py_float_of_int i) (\<lambda>f. Inr (Some f))"
| "ls_parse_float (JBool b) =
     bind_res (py_float_of_int (if b then 1 else 0)) (\<lambda>f. Inr (Some f))"
| "ls_parse_float (JFloat f) = Inr (Some f)"
| "ls_parse_float (JStr s) =
     (let text = strip s
      in if text = [] then Inr None
         else on_ValueError (bind_res (py_float text) (\<lambda>f. Inr (Some f))) None)"
| "ls_parse_float _ = Inr None"

fun ls_first_int :: "interp \<Rightarrow> json dict \<Rightarrow> pystr list \<Rightarrow> pyint option res" where
  "ls_first_int it obj [] = Inr None"
| "ls_first_int it obj (k # ks) =
     (if has_key k obj
      then bind_res (ls_parse_int it (get_or_null obj k))
        (\<lambda>r. case r of Some v \<Rightarrow> Inr (Some v) | None \<Rightarrow> ls_first_int it obj ks)
      else ls_first_int it obj ks)"

fun ls_first_float :: "json dict \<Rightarrow> pystr list \<Rightarrow> pyfloat option res" where
  "ls_first_float obj [] = Inr None"
| "ls_first_float obj (k # ks) =
     (if has_key k obj
      then bind_res (ls_parse_float (get_or_null obj k))
        (\<lambda>r. case r of Some v \<Rightarrow> Inr (Some v) | None \<Rightarrow> ls_first_float obj ks)
      else ls_first_float obj ks)"

fun ls_first_str :: "interp \<Rightarrow> json dict \<Rightarrow> pystr list \<Rightarrow> pystr option res" where
  "ls_first_str it obj [] = Inr None"
| "ls_first_str it obj (k # ks) =
     (let value = get_or_null obj k
      in if value = JNull then ls_first_str it obj ks
         else bind_res (py_str it value) (\<lambda>t.
           let text = strip t in if text \<noteq> [] then Inr (Some text) else ls_first_str it obj ks))"

text \<open>\<open>_safe_token\<close>.\<close>

definition safe_token :: "pystr list \<Rightarrow> nat \<Rightarrow> pystr option" where
  "safe_token tokens i =
     (if length tokens \<le> i then None
      else let token = strip (tokens ! i) in if token = [] then None else Some token)"

text \<open>\<open>_err\<close>.\<close>

type_synonym parse_result = "normalized_event option \<times> parse_error option"

definition ls_err :: "pystr \<Rightarrow> pystr \<Rightarrow> pystr \<Rightarrow> pystr \<Rightarrow> parse_result" where
  "ls_err raw_message source_type code message =
     (None, Some \<lparr>pe_code = code, pe_message = message, pe_raw_message = raw_message,
                  pe_source_type = source_type\<rparr>)"

section \<open>Coordinates\<close>

text \<open>
  \<open>_COORD_RE.findall\<close> for \<open>[-+]?\d+(?:\.\d+)?\<close>, where \<open>\d\<close> is any decimal digit of Unicode: the
  match at the start of a text with the rest after it, and all matches from left to right.
\<close>

definition is_udigit :: "int \<Rightarrow> bool" where
  "is_udigit c \<longleftrightarrow> decimal_value c \<noteq> None"

definition match_unsigned :: "pystr \<Rightarrow> (pystr \<times> pystr) option" where
  "match_unsigned s =
     (let (ds, r) = split_span is_udigit s
      in if ds = [] then None
         else (case r of
                 [] \<Rightarrow> Some (ds, r)
               | c # t \<Rightarrow>
                   let (fs, r') = split_span is_udigit t
                   in if c = 46 \<and> fs \<noteq> [] then Some (ds @ c # fs, r') else Some (ds, r)))"

definition match_coord :: "pystr \<Rightarrow> (pystr \<times> pystr) option" where
  "match_coord s =
     (case s of
        [] \<Rightarrow> None
      | c # t \<Rightarrow>
          if c = 45 \<or> c = 43 then map_option (\<lambda>(m, r). (c # m, r)) (match_unsigned t)
          else match_unsigned s)"

lemma match_unsigned_split: "match_unsigned s = Some (m, r) \<Longrightarrow> s = m @ r \<and> m \<noteq> []"
  by (auto simp: match_unsigned_def dest!: split_span_append split: prod.splits list.splits if_splits)

lemma match_coord_split: "match_coord s = Some (m, r) \<Longrightarrow> s = m @ r \<and> m \<noteq> []"
  by (auto simp: match_coord_def dest: match_unsigned_split split: list.splits if_splits)

function find_coords :: "pystr \<Rightarrow> pystr list" where
  "find_coords s =
     (if s = [] then []
      else (case match_coord s of
              Some (m, r) \<Rightarrow> m # find_coords r
            | None \<Rightarrow> find_coords (tl s)))"
  by pat_completeness auto
termination
  by (relation "measure length") (auto dest!: match_coord_split)

declare find_coords.simps [simp del]

text \<open>\<open>_extract_xyz_from_tokens\<close>: the three fields from \<open>start\<close>, or three numbers within the field
  at \<open>start\<close>.\<close>

type_synonym xyz = "pyfloat option \<times> pyfloat option \<times> pyfloat option"

definition token_floats :: "pystr list \<Rightarrow> nat \<Rightarrow> xyz res" where
  "token_floats tokens start =
     bind_res (ls_parse_float (JStr (tokens ! start))) (\<lambda>x.
     bind_res (ls_parse_float (JStr (tokens ! (start + 1)))) (\<lambda>y.
     bind_res (ls_parse_float (JStr (tokens ! (start + 2)))) (\<lambda>z. Inr (x, y, z))))"

definition embedded_floats :: "pystr list \<Rightarrow> nat \<Rightarrow> xyz res" where
  "embedded_floats tokens start =
     (if start < length tokens
      then (case find_coords (tokens ! start) of
              a # b # c # _ \<Rightarrow>
                bind_res (py_float a) (\<lambda>x. bind_res (py_float b) (\<lambda>y. bind_res (py_float c)
                  (\<lambda>z. Inr (Some x, Some y, Some z))))
            | _ \<Rightarrow> Inr (None, None, None))
      else Inr (None, None, None))"

definition extract_xyz_from_tokens :: "pystr list \<Rightarrow> nat \<Rightarrow> xyz res" where
  "extract_xyz_from_tokens tokens start =
     (if start + 3 \<le> length tokens
      then bind_res (token_floats tokens start) (\<lambda>(x, y, z).
        if x \<noteq> None \<and> y \<noteq> None \<and> z \<noteq> None then Inr (x, y, z)
        else embedded_floats tokens start)
      else embedded_floats tokens start)"

text \<open>\<open>_extract_xyz_from_json\<close>: the nested position counts when it has both \<open>x\<close> and \<open>y\<close>.\<close>

definition top_level_xyz :: "json dict \<Rightarrow> xyz res" where
  "top_level_xyz obj =
     bind_res (ls_first_float obj [lit ''x'']) (\<lambda>x.
     bind_res (ls_first_float obj [lit ''y'']) (\<lambda>y.
     bind_res (ls_first_float obj [lit ''z'']) (\<lambda>z. Inr (x, y, z))))"

definition extract_xyz_from_json :: "json dict \<Rightarrow> xyz res" where
  "extract_xyz_from_json obj =
     (case get_or_null obj (lit ''position'') of
        JObj position \<Rightarrow>
          bind_res (ls_parse_float (get_or_null position (lit ''x''))) (\<lambda>x.
          bind_res (ls_parse_float (get_or_null position (lit ''y''))) (\<lambda>y.
          bind_res (ls_parse_float (get_or_null position (lit ''z''))) (\<lambda>z.
            if x \<noteq> None \<and> y \<noteq> None then Inr (x, y, z) else top_level_xyz obj)))
      | _ \<Rightarrow> top_level_xyz obj)"

section \<open>The message handlers\<close>

text \<open>An event of this parser: the fields every handler sets the same way.\<close>

definition ls_event ::
  "pystr \<Rightarrow> pystr \<Rightarrow> pystr \<Rightarrow> pyint \<Rightarrow> xyz \<Rightarrow> pyint option \<Rightarrow> pystr option \<Rightarrow> pystr option
    \<Rightarrow> pyfloat option \<Rightarrow> pyfloat option \<Rightarrow> normalized_event" where
  "ls_event raw_message source_type tag_id ts xyz layer area status lng lat =
     \<lparr>ev_origin = lit ''ls-1000'', ev_tag_id = tag_id, ev_ts_utc_ms = ts,
      ev_x = fst xyz, ev_y = fst (snd xyz), ev_z = snd (snd xyz),
      ev_layer = layer, ev_area = area, ev_status = status, ev_source_type = source_type,
      ev_raw_message = raw_message, ev_lng = lng, ev_lat = lat, ev_parse_warnings = []\<rparr>"

text \<open>\<open>_is_ls1000_json\<close>.\<close>

definition json_markers :: "pystr list" where
  "json_markers = [lit ''devid'', lit ''seq'', lit ''samples'', lit ''position'']"

definition is_ls1000_json :: "json dict \<Rightarrow> bool" where
  "is_ls1000_json obj =
     (if \<not> list_ex (\<lambda>marker. has_key marker obj) json_markers then False
      else
        let position = get_or_null obj (lit ''position'')
        in if position \<noteq> JNull \<and> \<not> is_dict position then False
           else
             let samples = get_or_null obj (lit ''samples'')
             in if samples \<noteq> JNull \<and> \<not> is_list samples then False else True)"

text \<open>\<open>_parse_json\<close>, on the stripped text \<open>raw\<close>.\<close>

definition ls_json_event :: "interp \<Rightarrow> pystr \<Rightarrow> json dict \<Rightarrow> pystr \<Rightarrow> pyint \<Rightarrow> parse_result res"
where
  "ls_json_event it raw_message obj tag_id ts =
     bind_res (extract_xyz_from_json obj) (\<lambda>xyz.
     bind_res (ls_first_float obj [lit ''lng'', lit ''lon'', lit ''longitude'']) (\<lambda>lng.
     bind_res (ls_first_float obj [lit ''lat'', lit ''latitude'']) (\<lambda>lat.
     bind_res (ls_first_int it obj [lit ''layer'', lit ''layid'', lit ''floor'']) (\<lambda>layer.
     bind_res (ls_first_str it obj [lit ''status'']) (\<lambda>status.
     bind_res (ls_first_str it obj [lit ''area'']) (\<lambda>area.
       Inr (Some (ls_event raw_message (lit ''json'') tag_id ts xyz layer area status lng lat),
            None)))))))"

definition ls_tag_keys :: "pystr list" where
  "ls_tag_keys = [lit ''tag_id'', lit ''devid'', lit ''dev_id'', lit ''tag'', lit ''id'']"

definition ls_ts_keys :: "pystr list" where
  "ls_ts_keys = [lit ''ts_utc_ms'', lit ''timestamp'', lit ''ts'']"

definition ls_parse_dict :: "interp \<Rightarrow> pystr \<Rightarrow> json dict \<Rightarrow> parse_result res" where
  "ls_parse_dict it raw_message obj =
     (if \<not> is_ls1000_json obj
      then Inr (ls_err raw_message (lit ''json'') (lit ''unsupported_json_payload'')
        (lit ''JSON payload does not match LS-1000 markers''))
      else
        bind_res (ls_first_str it obj ls_tag_keys) (\<lambda>tag_id.
          case tag_id of
            None \<Rightarrow> Inr (ls_err raw_message (lit ''json'') (lit ''missing_field'')
              (lit ''Missing tag id in JSON payload''))
          | Some tag \<Rightarrow>
              bind_res (ls_first_int it obj ls_ts_keys) (\<lambda>ts.
                case ts of
                  None \<Rightarrow> Inr (ls_err raw_message (lit ''json'') (lit ''missing_field'')
                    (lit ''Missing timestamp in JSON payload''))
                | Some t \<Rightarrow> ls_json_event it raw_message obj tag t)))"

definition ls_parse_json :: "interp \<Rightarrow> pystr \<Rightarrow> pystr \<Rightarrow> parse_result res" where
  "ls_parse_json it raw_message raw =
     (case json_loads raw of
        Inl JSONDecodeError \<Rightarrow>
          Inr (ls_err raw_message (lit ''json'') (lit ''invalid_json'')
            (lit ''Invalid JSON: '' @ json_error_message it raw))
      | Inl e \<Rightarrow> Inl e
      | Inr (JObj obj) \<Rightarrow> ls_parse_dict it raw_message obj
      | Inr _ \<Rightarrow> Inl AttributeError)"

text \<open>\<open>_parse_display\<close>, \<open>_parse_status1\<close>, \<open>_parse_status2\<close>, \<open>_parse_gpsposi\<close>.\<close>

definition parse_display :: "interp \<Rightarrow> pystr \<Rightarrow> pystr list \<Rightarrow> parse_result res" where
  "parse_display it raw_message tokens =
     (if length tokens < 5
      then Inr (ls_err raw_message (lit ''display'') (lit ''invalid_payload'')
        (lit ''display requires at least 5 fields''))
      else
        bind_res (ls_parse_int it (JStr (tokens ! 3))) (\<lambda>ts.
          case ts of
            None \<Rightarrow> Inr (ls_err raw_message (lit ''display'') (lit ''invalid_timestamp'')
              (lit ''Invalid TIMESTAMP field''))
          | Some t \<Rightarrow>
              bind_res (ls_parse_int it (JStr (tokens ! 4))) (\<lambda>layer.
              bind_res (extract_xyz_from_tokens tokens 5) (\<lambda>xyz.
                Inr (Some (ls_event raw_message (lit ''display'') (tokens ! 1) t xyz layer
                       (if fst xyz = None then safe_token tokens 6 else None) None None None),
                     None)))))"

definition parse_status1 :: "interp \<Rightarrow> pystr \<Rightarrow> pystr list \<Rightarrow> parse_result res" where
  "parse_status1 it raw_message tokens =
     (if length tokens < 6
      then Inr (ls_err raw_message (lit ''status1'') (lit ''invalid_payload'')
        (lit ''status1 requires at least 6 fields''))
      else
        bind_res (ls_parse_int it (JStr (tokens ! 3))) (\<lambda>ts.
          case ts of
            None \<Rightarrow> Inr (ls_err raw_message (lit ''status1'') (lit ''invalid_timestamp'')
              (lit ''Invalid TIMESTAMP field''))
          | Some t \<Rightarrow>
              bind_res (ls_parse_int it (JStr (tokens ! 5))) (\<lambda>layer.
                Inr (Some (ls_event raw_message (lit ''status1'') (tokens ! 2) t
                       (None, None, None) layer None (safe_token tokens 7) None None),
                     None))))"

definition parse_status2 :: "interp \<Rightarrow> pystr \<Rightarrow> pystr list \<Rightarrow> parse_result res" where
  "parse_status2 it raw_message tokens =
     (if length tokens < 4
      then Inr (ls_err raw_message (lit ''status2'') (lit ''invalid_payload'')
        (lit ''status2 requires at least 4 fields''))
      else
        bind_res (ls_parse_int it (JStr (tokens ! 3))) (\<lambda>ts.
          case ts of
            None \<Rightarrow> Inr (ls_err raw_message (lit ''status2'') (lit ''invalid_timestamp'')
              (lit ''Invalid TIMESTAMP field''))
          | Some t \<Rightarrow>
              bind_res (if 4 < length tokens then ls_parse_int it (JStr (tokens ! 4)) else Inr None)
                (\<lambda>layer.
                  Inr (Some (ls_event raw_message (lit ''status2'') (tokens ! 1) t
                         (None, None, None) layer None None None None),
                       None))))"

definition parse_gpsposi :: "interp \<Rightarrow> pystr \<Rightarrow> pystr list \<Rightarrow> parse_result res" where
  "parse_gpsposi it raw_message tokens =
     (if length tokens < 7
      then Inr (ls_err raw_message (lit ''gpsposi'') (lit ''invalid_payload'')
        (lit ''gpsposi requires at least 7 fields''))
      else
        bind_res (ls_parse_int it (JStr (tokens ! 3))) (\<lambda>ts.
          case ts of
            None \<Rightarrow> Inr (ls_err raw_message (lit ''gpsposi'') (lit ''invalid_timestamp'')
              (lit ''Invalid TIMESTAMP field''))
          | Some t \<Rightarrow>
              bind_res (ls_parse_int it (JStr (tokens ! 4))) (\<lambda>layer.
              bind_res (ls_parse_float (JStr (tokens ! 5))) (\<lambda>lng.
              bind_res (ls_parse_float (JStr (tokens ! 6))) (\<lambda>lat.
              bind_res (if 7 < length tokens then ls_parse_float (JStr (tokens ! 7)) else Inr None)
                (\<lambda>z.
                  if lng = None \<or> lat = None
                  then Inr (ls_err raw_message (lit ''gpsposi'') (lit ''invalid_coordinates'')
                    (lit ''Invalid lng/lat values''))
                  else Inr (Some (ls_event raw_message (lit ''gpsposi'') (tokens ! 1) t
                         (None, None, z) layer None None lng lat),
                       None)))))))"

section \<open>parse_message\<close>

definition base_types :: "pystr list" where
  "base_types = [lit ''display'', lit ''status1'', lit ''status2'', lit ''gpsposi'']"

definition unsupported_types :: "pystr list" where
  "unsupported_types = [lit ''warning'', lit ''summary'', lit ''rawdata'']"

definition payload_tokens :: "pystr \<Rightarrow> pystr list" where
  "payload_tokens payload = map strip (split_on 44 payload)"

definition dispatch_type :: "interp \<Rightarrow> pystr \<Rightarrow> pystr \<Rightarrow> pystr list \<Rightarrow> parse_result res" where
  "dispatch_type it raw_message source_type tokens =
     (if source_type = lit ''display'' then parse_display it raw_message tokens
      else if source_type = lit ''status1'' then parse_status1 it raw_message tokens
      else if source_type = lit ''status2'' then parse_status2 it raw_message tokens
      else parse_gpsposi it raw_message tokens)"

definition parse_message :: "interp \<Rightarrow> pystr \<Rightarrow> parse_result res" where
  "parse_message it raw_message =
     (let raw = strip raw_message
      in if raw = []
         then Inr (ls_err raw_message (lit ''unknown'') (lit ''empty_message'')
           (lit ''Message is empty''))
         else if startswith (lit ''{'') raw then ls_parse_json it raw_message raw
         else if 58 \<notin> set raw
         then Inr (ls_err raw_message (lit ''unknown'') (lit ''invalid_format'')
           (lit ''Expected '' @ [39] @ lit ''<type>:<payload>'' @ [39] @ lit '' format''))
         else
           let (type_name, payload) = split_first 58 raw;
               source_type = py_lower it (strip type_name)
           in if source_type \<in> set unsupported_types
              then Inr (ls_err raw_message source_type (lit ''unsupported_message_type'')
                (lit ''Message type '' @ [39] @ source_type @ [39] @ lit '' is not included in MVP''))
              else if source_type \<notin> set base_types
              then Inr (ls_err raw_message source_type (lit ''unknown_message_type'')
                (lit ''Unknown message type '' @ [39] @ source_type @ [39]))
              else
                let tokens = payload_tokens payload
                in if \<not> list_ex (\<lambda>token. token \<noteq> []) tokens
                   then Inr (ls_err raw_message source_type (lit ''invalid_payload'')
                     (lit ''Payload is empty''))
                   else dispatch_type it raw_message source_type tokens)"

end
