(* ===== verification/Py_Number_Facts.thy ===== *)
theory Py_Number_Facts
  imports Complex_Main Py_Number
begin

text \<open>
  What the number functions compute. Integers: reading the decimal text of an integer gives it
  back. Floats: the executable rounding of a quotient equals rounding of the real number it
  denotes (\<open>round_real\<close>, the abstract specification), a canonical double is fixed by rounding
  anything closer to it than half a unit in the last place, 17 significant digits are that
  close, and therefore \<open>repr\<close> of a float always reads back as the same float.
\<close>

section \<open>Decimal texts\<close>

lemma digits_value_Nil [simp]: "digits_value b [] = 0"
  by (simp add: digits_value_def)

lemma digits_value_snoc [simp]: "digits_value b (ds @ [d]) = digits_value b ds * b + d"
  by (simp add: digits_value_def)

lemma digits_value_append:
  "digits_value b (xs @ ys) = digits_value b xs * b ^ length ys + digits_value b ys"
proof (induction ys rule: rev_induct)
  case (snoc y ys)
  have "digits_value b (xs @ ys @ [y]) = digits_value b (xs @ ys) * b + y"
    by (simp flip: append_assoc)
  with snoc show ?case by (simp add: algebra_simps)
qed simp

lemma decimal_int_append:
  "decimal_int (xs @ ys) = decimal_int xs * 10 ^ length ys + decimal_int ys"
  by (simp add: decimal_int_def digits_value_append)

lemma decimal_int_single [simp]: "decimal_int [c] = c - 48"
  by (simp add: decimal_int_def digits_value_def)

lemma decimal_int_Nil [simp]: "decimal_int [] = 0"
  by (simp add: decimal_int_def)

lemma decimal_int_zero_Cons [simp]: "decimal_int (48 # xs) = decimal_int xs"
  using decimal_int_append [of "[48]" xs] by simp

lemma decimal_int_replicate_zero [simp]: "decimal_int (replicate n 48) = 0"
proof (induction n)
  case (Suc n)
  have "decimal_int (replicate (Suc n) 48) = decimal_int ([48] @ replicate n 48)" by simp
  with Suc show ?case by (simp only: decimal_int_append) simp
qed simp

lemma int_digits_rec: "0 \<le> x \<Longrightarrow> 10 \<le> x \<Longrightarrow> int_digits x = int_digits (x div 10) @ [48 + x mod 10]"
  by (subst int_digits.simps) simp

lemma int_digits_small: "x < 10 \<Longrightarrow> int_digits x = [48 + x]"
  by (subst int_digits.simps) simp

lemma int_digits_not_Nil [simp]: "int_digits x \<noteq> []"
  by (subst int_digits.simps) simp

lemma is_digit_add_mod: "is_digit (48 + x mod 10)"
proof -
  have "0 \<le> x mod 10" "x mod 10 < 10" by simp_all
  then show ?thesis unfolding is_digit_def by linarith
qed

lemma int_digits_all_digits: "0 \<le> x \<Longrightarrow> list_all is_digit (int_digits x)"
proof (induction x rule: int_digits.induct)
  case (1 x)
  show ?case
  proof (cases "x < 10")
    case True
    with 1 show ?thesis by (simp add: int_digits_small is_digit_def)
  next
    case False
    with 1 show ?thesis by (simp add: int_digits_rec is_digit_add_mod)
  qed
qed

lemma decimal_int_digits: "0 \<le> x \<Longrightarrow> decimal_int (int_digits x) = x"
proof (induction x rule: int_digits.induct)
  case (1 x)
  show ?case
  proof (cases "x < 10")
    case True
    then show ?thesis by (simp add: int_digits_small)
  next
    case False
    with 1 have "decimal_int (int_digits (x div 10)) = x div 10" by simp
    with False 1 show ?thesis by (simp add: int_digits_rec decimal_int_append)
  qed
qed

lemma hd_int_digits: "0 < x \<Longrightarrow> hd (int_digits x) \<noteq> 48"
proof (induction x rule: int_digits.induct)
  case (1 x)
  show ?case
  proof (cases "x < 10")
    case True
    with 1 show ?thesis by (simp add: int_digits_small)
  next
    case False
    with 1 have "hd (int_digits (x div 10)) \<noteq> 48" by simp
    with False 1 show ?thesis by (simp add: int_digits_rec)
  qed
qed

lemma length_int_digits: "10 ^ n \<le> x \<Longrightarrow> x < 10 ^ Suc n \<Longrightarrow> length (int_digits x) = Suc n"
proof (induction n arbitrary: x)
  case 0
  then show ?case by (simp add: int_digits_small)
next
  case (Suc n)
  have "1 \<le> (10::int) ^ n" by simp
  with Suc.prems(1) have "10 \<le> x" unfolding power_Suc by linarith
  moreover have "10 ^ n \<le> x div 10" "x div 10 < 10 ^ Suc n"
    using Suc.prems by simp_all
  ultimately show ?case using Suc.IH [of "x div 10"] by (simp add: int_digits_rec)
qed

section \<open>int(str(i))\<close>

lemma to_ascii_ascii [simp]: "c < 127 \<Longrightarrow> to_ascii c = c"
  by (simp add: to_ascii_def)

lemma digit_bounds: "is_digit c \<Longrightarrow> 48 \<le> c \<and> c \<le> 57"
  by (simp add: is_digit_def)

lemma map_to_ascii_digits [simp]: "list_all is_digit ds \<Longrightarrow> map to_ascii ds = ds"
  by (induction ds) (auto dest: digit_bounds)

lemma c_strip_id: "s = [] \<or> \<not> c_space (hd s) \<and> \<not> c_space (last s) \<Longrightarrow> c_strip s = s"
  by (auto simp: c_strip_def dropWhile_id hd_rev)

lemma digit_not_c_space: "is_digit c \<Longrightarrow> \<not> c_space c"
  by (auto simp: is_digit_def c_space_def)

lemma group_digits_all: "ds \<noteq> [] \<Longrightarrow> list_all is_digit ds \<Longrightarrow> group_digits is_digit ds = Some ds"
proof (induction "is_digit" ds rule: group_digits.induct)
  case (3 c d s)
  then show ?case by (auto dest: digit_bounds)
qed auto

lemma hd_last_digits:
  "ds \<noteq> [] \<Longrightarrow> list_all is_digit ds \<Longrightarrow> is_digit (hd ds) \<and> is_digit (last ds)"
  by (simp add: list_all_iff)

lemma py_int_digits:
  assumes "ds \<noteq> []" and "list_all is_digit ds" and "length ds \<le> max_str_digits"
  shows "py_int ds = Inr (decimal_int ds)"
    and "py_int (45 # ds) = Inr (- decimal_int ds)"
proof -
  from assms have hl: "is_digit (hd ds)" "is_digit (last ds)"
    using hd_last_digits by auto
  then have "c_strip ds = ds" "c_strip (45 # ds) = 45 # ds"
    using assms by (auto intro!: c_strip_id dest!: digit_not_c_space simp: c_space_def)
  moreover have "split_sign ds = (False, ds)"
    using hl assms(1) by (auto simp: split_sign_def is_digit_def neq_Nil_conv)
  moreover have "split_sign (45 # ds) = (True, ds)" by (simp add: split_sign_def)
  ultimately show "py_int ds = Inr (decimal_int ds)" "py_int (45 # ds) = Inr (- decimal_int ds)"
    using assms by (simp_all add: py_int_def group_digits_all signed_def decimal_int_def)
qed

lemma py_int_repr: "length (int_digits \<bar>i\<bar>) \<le> max_str_digits \<Longrightarrow> py_int (int_repr i) = Inr i"
  using py_int_digits [of "int_digits \<bar>i\<bar>"] int_digits_all_digits [of "\<bar>i\<bar>"]
    decimal_int_digits [of "\<bar>i\<bar>"]
  by (auto simp: int_repr_def split: if_splits)

lemma py_int_str: "py_str_int i = Inr s \<Longrightarrow> py_int s = Inr i"
  by (auto simp: py_str_int_def intro!: py_int_repr split: if_splits)

section \<open>Rounding as a function of a real number\<close>

lemma ilog_bounds:
  assumes "2 \<le> b" "1 \<le> x"
  shows "0 \<le> ilog b x \<and> b ^ nat (ilog b x) \<le> x \<and> x < b ^ nat (ilog b x + 1)"
  using assms
proof (induction b x rule: ilog.induct)
  case (1 b x)
  show ?case
  proof (cases "b \<le> x")
    case True
    with "1.prems" have "1 \<le> x div b" by (simp add: pos_imp_zdiv_pos_iff int_one_le_iff_zero_less)
    with True 1 have IH: "0 \<le> ilog b (x div b)" "b ^ nat (ilog b (x div b)) \<le> x div b"
        "x div b < b ^ nat (ilog b (x div b) + 1)" by auto
    let ?k = "ilog b (x div b)"
    have rec: "ilog b x = 1 + ?k" using True "1.prems" by (subst ilog.simps) simp
    have "b ^ nat ?k * b \<le> x div b * b"
      using IH(2) "1.prems" by (intro mult_right_mono) auto
    also have "\<dots> \<le> x" using div_mult_mod_eq [of x b] pos_mod_sign [of b x] "1.prems" by linarith
    finally have lo: "b ^ nat ?k * b \<le> x" .
    have "x < (x div b + 1) * b"
      using div_mult_mod_eq [of x b] pos_mod_bound [of b x] "1.prems"
      unfolding distrib_right by linarith
    also have "\<dots> \<le> b ^ nat (?k + 1) * b"
      using IH(3) "1.prems" by (intro mult_right_mono) auto
    finally have hi: "x < b ^ nat (?k + 1) * b" .
    from IH(1) have "nat (1 + ?k) = Suc (nat ?k)" "nat (1 + ?k + 1) = Suc (nat (?k + 1))"
      by (simp_all add: nat_add_distrib)
    then show ?thesis using lo hi IH(1) by (simp add: rec mult.commute)
  next
    case False
    then have "ilog b x = 0" by (subst ilog.simps) simp
    with False "1.prems" show ?thesis by simp
  qed
qed

text \<open>The quotient a pair denotes.\<close>

definition quot :: "int \<times> int \<Rightarrow> real" where
  "quot pq = real_of_int (fst pq) / real_of_int (snd pq)"

lemma power_int_nat: "0 \<le> k \<Longrightarrow> (x::real) ^ nat k = x powi k"
  by (simp add: power_int_def)

lemma quot_scale: "b \<noteq> 0 \<Longrightarrow> quot (scale b k pq) = quot pq * of_int b powi k"
  by (auto simp: quot_def scale_def power_int_def inverse_eq_divide power_one_over)

lemma scale_pos: "0 < b \<Longrightarrow> 0 < snd pq \<Longrightarrow> 0 < snd (scale b k pq)"
  by (simp add: scale_def)

lemma scale_fst_pos: "0 < b \<Longrightarrow> 0 < fst pq \<Longrightarrow> 0 < fst (scale b k pq)"
  by (simp add: scale_def)

lemma ilog_real:
  assumes "2 \<le> b" "1 \<le> x"
  shows "of_int b powi ilog b x \<le> real_of_int x" "real_of_int x < of_int b powi (ilog b x + 1)"
proof -
  note B = ilog_bounds [OF assms]
  have "real_of_int (b ^ nat (ilog b x)) \<le> real_of_int x" using B by (simp del: of_int_power)
  then show "of_int b powi ilog b x \<le> real_of_int x" using B by (simp add: power_int_nat)
  have "real_of_int x < real_of_int (b ^ nat (ilog b x + 1))" using B by (simp del: of_int_power)
  then show "real_of_int x < of_int b powi (ilog b x + 1)" using B by (simp add: power_int_nat)
qed

lemma ilog_ratio_bounds:
  assumes "2 \<le> b" "0 < p" "0 < q"
  shows "of_int b powi ilog_ratio b p q \<le> quot (p, q)"
    and "quot (p, q) < of_int b powi (ilog_ratio b p q + 1)"
proof -
  let ?d = "ilog b p - ilog b q" and ?b = "real_of_int b"
  have b0: "?b \<noteq> 0" "0 < ?b" using assms by auto
  have q0: "0 < real_of_int q" using assms by simp
  note P = ilog_real [of b p] and Q = ilog_real [of b q]
  have "quot (p, q) < ?b powi (ilog b p + 1) / ?b powi ilog b q"
    unfolding quot_def using P Q assms b0
    by (intro frac_less) auto
  also have "\<dots> = ?b powi (?d + 1)" using b0 by (simp add: power_int_diff [symmetric] algebra_simps)
  finally have hi: "quot (p, q) < ?b powi (?d + 1)" .
  have "?b powi ilog b p / ?b powi (ilog b q + 1) \<le> quot (p, q)"
    unfolding quot_def using P Q assms b0 by (intro frac_le) (auto intro: less_imp_le)
  moreover have "?b powi ilog b p / ?b powi (ilog b q + 1) = ?b powi (?d - 1)"
    using b0 by (simp add: power_int_diff [symmetric] algebra_simps)
  ultimately have lo: "?b powi (?d - 1) \<le> quot (p, q)" by simp
  let ?s = "scale b (- ?d) (p, q)"
  have "snd ?s \<le> fst ?s \<longleftrightarrow> 1 \<le> quot ?s"
    using scale_pos [of b "(p, q)" "- ?d"] assms by (simp add: quot_def)
  also have "\<dots> \<longleftrightarrow> ?b powi ?d \<le> quot (p, q)"
  proof -
    from assms have b: "b \<noteq> 0" by simp
    have "quot ?s = quot (p, q) / ?b powi ?d"
      by (simp only: quot_scale [OF b] power_int_minus divide_inverse)
    moreover have "0 < ?b powi ?d" using b0 by simp
    ultimately show ?thesis by (simp only: le_divide_eq_1_pos)
  qed
  finally have test: "snd ?s \<le> fst ?s \<longleftrightarrow> ?b powi ?d \<le> quot (p, q)" .
  show "?b powi ilog_ratio b p q \<le> quot (p, q)" "quot (p, q) < ?b powi (ilog_ratio b p q + 1)"
    using lo hi test by (auto simp: ilog_ratio_def Let_def split: prod.splits)
qed

text \<open>Nearest integer, ties to even.\<close>

definition rne :: "real \<Rightarrow> int" where
  "rne x = (let d = \<lfloor>x\<rfloor>; r = x - of_int d
            in if r < 1/2 then d else if 1/2 < r then d + 1 else if even d then d else d + 1)"

lemma half_even_rne: "0 < q \<Longrightarrow> half_even p q = rne (quot (p, q))"
proof -
  assume q: "0 < q"
  have fl: "\<lfloor>quot (p, q)\<rfloor> = p div q" by (simp add: quot_def floor_divide_of_int_eq)
  have "real_of_int p = real_of_int (p div q) * q + p mod q"
    by (metis div_mult_mod_eq of_int_add of_int_mult)
  then have fr: "quot (p, q) - of_int (p div q) = real_of_int (p mod q) / q"
    using q by (simp add: quot_def field_simps)
  have lt: "real_of_int (p mod q) / q < 1/2 \<longleftrightarrow> 2 * (p mod q) < q"
    and gt: "1/2 < real_of_int (p mod q) / q \<longleftrightarrow> q < 2 * (p mod q)"
    using q by (simp_all add: field_simps) linarith+
  show ?thesis unfolding half_even_def rne_def Let_def fl fr lt gt by simp
qed

lemma rne_close: "\<bar>x - of_int n\<bar> < 1/2 \<Longrightarrow> rne x = n"
proof -
  assume close: "\<bar>x - of_int n\<bar> < 1/2"
  show ?thesis
  proof (cases "of_int n \<le> x")
    case True
    with close have "\<lfloor>x\<rfloor> = n" by (intro floor_unique) auto
    with True close show ?thesis by (simp add: rne_def Let_def)
  next
    case False
    with close have "\<lfloor>x\<rfloor> = n - 1" by (intro floor_unique) auto
    with False close show ?thesis by (simp add: rne_def Let_def)
  qed
qed

lemma rne_error: "\<bar>of_int (rne x) - x\<bar> \<le> 1/2"
  using floor_correct [of x] by (auto simp: rne_def Let_def)

text \<open>The double nearest to a non-negative real number, as the abstract specification.\<close>

definition round_real :: "bool \<Rightarrow> real \<Rightarrow> pyfloat" where
  "round_real neg v =
     (if v = 0 then Fin neg 0 (- 1074)
      else
        let e = max (- 1074) (\<lfloor>log 2 v\<rfloor> - 52);
            m = rne (v * 2 powi (- e));
            (m', e') = (if m = 2 ^ 53 then (2 ^ 52, e + 1) else (m, e))
        in if 971 < e' then FInf neg else Fin neg m' e')"

lemma powr_powi: "0 < x \<Longrightarrow> x powr real_of_int k = x powi k"
  by (simp add: powr_real_of_int power_int_def power_inverse)

lemma floor_log_powi:
  "(1::real) < b \<Longrightarrow> b powi k \<le> v \<Longrightarrow> v < b powi (k + 1) \<Longrightarrow> \<lfloor>log b v\<rfloor> = k"
proof -
  assume b: "1 < b" and lo: "b powi k \<le> v" and hi: "v < b powi (k + 1)"
  have "0 < b powi k" using b by simp
  then have "0 < v" using lo by linarith
  moreover have "b powr of_int k = b powi k" "b powr of_int (k + 1) = b powi (k + 1)"
    using b by (intro powr_powi; simp)+
  ultimately show ?thesis using b lo hi by (simp add: floor_log_eq_powr_iff)
qed

lemma ilog_ratio_floor:
  "2 \<le> b \<Longrightarrow> 0 < p \<Longrightarrow> 0 < q \<Longrightarrow> \<lfloor>log (of_int b) (quot (p, q))\<rfloor> = ilog_ratio b p q"
  using ilog_ratio_bounds [of b p q] by (intro floor_log_powi) auto

lemma round_ratio_real: "0 \<le> p \<Longrightarrow> 0 < q \<Longrightarrow> round_ratio neg p q = round_real neg (quot (p, q))"
proof -
  assume p: "0 \<le> p" and q: "0 < q"
  show ?thesis
  proof (cases "p = 0")
    case True
    then show ?thesis by (simp add: round_ratio_def round_real_def quot_def)
  next
    case False
    with p have p0: "0 < p" by simp
    have nz: "quot (p, q) \<noteq> 0" using p0 q by (simp add: quot_def)
    have lg: "\<lfloor>log 2 (quot (p, q))\<rfloor> = ilog_ratio 2 p q"
      using ilog_ratio_floor [of 2 p q] p0 q by simp
    have he: "half_even (fst (scale 2 k (p, q))) (snd (scale 2 k (p, q))) = rne (quot (p, q) * 2 powi k)"
      for k
      using half_even_rne [of "snd (scale 2 k (p, q))" "fst (scale 2 k (p, q))"]
        quot_scale [of 2 k "(p, q)"] scale_pos [of 2 "(p, q)" k] q by simp
    show ?thesis
      unfolding round_ratio_def round_real_def Let_def split_beta lg he using False nz by simp
  qed
qed

lemma float_of_decimal_real:
  "0 \<le> d \<Longrightarrow> float_of_decimal neg d k = round_real neg (of_int d * 10 powi k)"
proof -
  assume d: "0 \<le> d"
  have "quot (scale 10 k (d, 1)) = of_int d * 10 powi k"
    by (simp add: quot_scale) (simp add: quot_def)
  moreover have "0 \<le> fst (scale 10 k (d, 1))" using d by (simp add: scale_def)
  moreover have "0 < snd (scale 10 k (d, 1))" by (simp add: scale_pos)
  ultimately show ?thesis
    using round_ratio_real [of "fst (scale 10 k (d, 1))" "snd (scale 10 k (d, 1))" neg]
    by (simp add: float_of_decimal_def split_beta)
qed

text \<open>
  A canonical double is what anything near it rounds to: within half a unit of the last place,
  or a quarter below a power of two, where the doubles below are twice as dense.
\<close>

lemma powi_less_cancel: "(2::real) powi i < 2 powi j \<Longrightarrow> i < j"
  using power_int_increasing [of j i "2::real"] by (cases "i < j") auto

lemma round_real_near:
  assumes can: "canonical (Fin neg m e)" and m: "0 < m" and v: "0 < v"
    and near: "\<bar>v * 2 powi (- e) - of_int m\<bar> < 1/2"
    and quarter: "m = 2 ^ 52 \<Longrightarrow> of_int m - 1/4 < v * 2 powi (- e)"
  shows "round_real neg v = Fin neg m e"
proof -
  define w where "w = v * 2 powi (- e)"
  define k where "k = \<lfloor>log 2 v\<rfloor>"
  have kv: "2 powi k \<le> v" "v < 2 powi (k + 1)"
    using floor_log_eq_powr_iff [of v 2 k] powr_powi [of 2 k] powr_powi [of 2 "k + 1"] v
    by (simp_all add: k_def)
  have pe: "0 < (2::real) powi (- e)" by simp
  have kw: "2 powi (k - e) \<le> w" "w < 2 powi (k + 1 - e)"
    using mult_right_mono [OF kv(1), of "2 powi (- e)"]
      mult_strict_right_mono [OF kv(2) pe]
    by (simp_all add: w_def power_int_add [symmetric] algebra_simps)
  have can': "m < 2 ^ 53" "- 1074 \<le> e" "e \<le> 971" "2 ^ 52 \<le> m \<or> e = - 1074" using can by auto
  have "m \<le> 2 ^ 53 - 1" using can'(1) by simp
  then have "real_of_int m \<le> real_of_int (2 ^ 53 - 1)" by (simp only: of_int_le_iff)
  then have m53: "real_of_int m \<le> 2 ^ 53 - 1" by simp
  have p53: "(2::real) powi 53 = 2 ^ 53" by (simp add: power_int_def)
  have "w < 2 powi 53" using near m53 p53 unfolding w_def [symmetric] abs_less_iff by linarith
  with kw(1) have "(2::real) powi (k - e) < 2 powi 53" by linarith
  then have kle: "k - 52 \<le> e" using powi_less_cancel by fastforce
  show ?thesis
  proof (cases "e = max (- 1074) (k - 52)")
    case True
    with near v can' show ?thesis
      by (simp add: round_real_def Let_def rne_close flip: k_def)
  next
    case False
    with kle can' have e: "- 1074 < e" "k - 52 < e" "2 ^ 52 \<le> m" by auto
    have "(2::real) powi (k + 1 - e) \<le> 2 powi 52" using e by (intro power_int_increasing) auto
    with kw have w52: "w < 2 ^ 52" by (simp add: power_int_def)
    with near have "real_of_int m < 2 ^ 52 + 1" unfolding w_def [symmetric] by linarith
    then have "real_of_int m < real_of_int (2 ^ 52 + 1)" by simp
    then have m52: "m = 2 ^ 52" using e(3) unfolding of_int_less_iff by linarith
    with quarter have w4: "2 ^ 52 - 1/4 < w" by (simp add: w_def)
    then have "2 powi 51 < w" by (simp add: power_int_def)
    with kw have "(2::real) powi 51 < 2 powi (k + 1 - e)" by linarith
    then have "51 < k + 1 - e" by (rule powi_less_cancel)
    with e have ek: "max (- 1074) (k - 52) = e - 1" by auto
    have "v * 2 powi (1 - e) = 2 * w" by (simp add: w_def power_int_diff power_int_minus divide_inverse)
    moreover have "rne (2 * w) = 2 ^ 53" using w52 w4 by (intro rne_close) (simp add: abs_if)
    ultimately have "rne (v * 2 powi (- (e - 1))) = 2 ^ 53" by simp
    with v can' m52 ek show ?thesis
      by (simp add: round_real_def Let_def flip: k_def)
  qed
qed

section \<open>Seventeen digits are enough\<close>

lemma rne_ge: "of_int n \<le> x \<Longrightarrow> n \<le> rne x"
proof -
  assume "of_int n \<le> x"
  then have "n \<le> \<lfloor>x\<rfloor>" by (simp add: le_floor_iff)
  then show ?thesis by (simp add: rne_def Let_def)
qed

lemma rne_le: "x < of_int n \<Longrightarrow> rne x \<le> n"
proof -
  assume "x < of_int n"
  then have "\<lfloor>x\<rfloor> < n" by (simp add: floor_less_iff)
  then show ?thesis by (simp add: rne_def Let_def)
qed

text \<open>\<open>round_digits n\<close> gives an integer of \<open>n\<close> digits; with \<open>v\<close> the number, the error is at most
  half a unit of the last digit, so at most \<open>v / (2 * 10 ^ (n - 1))\<close>.\<close>

lemma round_digits_spec:
  assumes p: "0 < p" and q: "0 < q" and n: "1 \<le> n" and rd: "round_digits n p q = (d, k)"
  shows "10 ^ nat (n - 1) \<le> d" and "d < 10 ^ nat n"
    and "\<bar>of_int d * 10 powi (k - n) - quot (p, q)\<bar> \<le> quot (p, q) * 10 powi (1 - n) / 2"
proof -
  define v where "v = quot (p, q)"
  define K where "K = ilog_ratio 10 p q + 1"
  define x where "x = v * 10 powi (n - K)"
  define D where "D = rne x"
  have b: "(10::real) powi (K - 1) \<le> v" "v < 10 powi K"
    using ilog_ratio_bounds [of 10 p q] p q by (simp_all add: v_def K_def)
  have pos: "0 < (10::real) powi (n - K)" by simp
  have x: "10 powi (n - 1) \<le> x" "x < 10 powi n"
    using mult_right_mono [OF b(1), of "10 powi (n - K)"] mult_strict_right_mono [OF b(2) pos]
    by (simp_all add: x_def power_int_add [symmetric] algebra_simps)
  have nn: "real_of_int (10 ^ nat (n - 1)) = 10 powi (n - 1)" "real_of_int (10 ^ nat n) = 10 powi n"
    using n by (simp_all add: power_int_nat)
  have D: "10 ^ nat (n - 1) \<le> D" "D \<le> 10 ^ nat n"
    using x unfolding D_def nn [symmetric] by (auto intro: rne_ge rne_le)
  have he: "half_even (fst (scale 10 (n - K) (p, q))) (snd (scale 10 (n - K) (p, q))) = D"
    using half_even_rne [of "snd (scale 10 (n - K) (p, q))" "fst (scale 10 (n - K) (p, q))"]
      quot_scale [of 10 "n - K" "(p, q)"] scale_pos [of 10 "(p, q)" "n - K"] q
    by (simp add: D_def x_def v_def)
  have dk: "(d, k) = (if D = 10 ^ nat n then (10 ^ nat (n - 1), K + 1) else (D, K))"
    using rd unfolding round_digits_def Let_def split_beta K_def [symmetric] he by simp
  have suc: "nat n = Suc (nat (n - 1))" using n by linarith
  show "10 ^ nat (n - 1) \<le> d" "d < 10 ^ nat n"
    using D dk by (auto simp: suc split: if_splits)
  have same: "of_int d * 10 powi (k - n) = of_int D * (10::real) powi (K - n)"
    using dk by (auto simp: suc power_int_add power_int_diff split: if_splits)
  have "v = x * 10 powi (K - n)" by (simp add: x_def power_int_diff)
  then have "of_int D * 10 powi (K - n) - v = (of_int D - x) * 10 powi (K - n)"
    by (simp add: algebra_simps)
  then have "\<bar>of_int D * 10 powi (K - n) - v\<bar> = \<bar>of_int D - x\<bar> * 10 powi (K - n)"
    by (simp add: abs_mult)
  also have "\<dots> \<le> 1/2 * 10 powi (K - n)"
    using rne_error [of x] by (intro mult_right_mono) (auto simp: D_def)
  finally have half: "\<bar>of_int D * 10 powi (K - n) - v\<bar> \<le> 1/2 * 10 powi (K - n)" .
  have "(10::real) powi (K - n) = 10 powi (K - 1) * 10 powi (1 - n)"
    by (simp add: power_int_add [symmetric])
  also have "\<dots> \<le> v * 10 powi (1 - n)"
    using b(1) by (intro mult_right_mono) auto
  finally have "(10::real) powi (K - n) \<le> v * 10 powi (1 - n)" .
  with half show "\<bar>of_int d * 10 powi (k - n) - quot (p, q)\<bar> \<le> quot (p, q) * 10 powi (1 - n) / 2"
    by (simp add: same v_def)
qed

text \<open>The quotient of a positive canonical float.\<close>

lemma quot_Fin: "quot (scale 2 e (m, 1)) = of_int m * 2 powi e"
  by (simp add: quot_scale) (simp add: quot_def)

lemma reads_back_17:
  assumes can: "canonical (Fin neg m e)" and m: "0 < m"
  shows "reads_back neg m e 17"
proof -
  define p q where "p = fst (scale 2 e (m, 1))" and "q = snd (scale 2 e (m, 1))"
  obtain d k where dk: "round_digits 17 p q = (d, k)" by fastforce
  have pq: "0 < p" "0 < q" using m by (simp_all add: p_def q_def scale_pos scale_fst_pos)
  define v where "v = quot (p, q)"
  have v: "v = of_int m * 2 powi e" by (simp add: v_def p_def q_def quot_Fin)
  note S = round_digits_spec [OF pq _ dk, simplified]
  define v' where "v' = of_int d * (10::real) powi (k - 17)"
  have "0 < d" using S(1) by simp
  then have v'0: "0 < v'" by (simp add: v'_def)
  have "\<bar>v' - v\<bar> \<le> v * 10 powi (- 16) / 2" using S(3) by (simp add: v'_def v_def)
  then have "\<bar>v' - v\<bar> * 2 powi (- e) \<le> v * 10 powi (- 16) / 2 * 2 powi (- e)"
    by (intro mult_right_mono) auto
  also have "v * 10 powi (- 16) / 2 * 2 powi (- e) = of_int m * 10 powi (- 16) / 2"
    by (simp add: v power_int_minus)
  also have "\<bar>v' - v\<bar> * 2 powi (- e) = \<bar>v' * 2 powi (- e) - of_int m\<bar>"
  proof -
    have "v * 2 powi (- e) = of_int m" by (simp add: v power_int_minus)
    then have "(v' - v) * 2 powi (- e) = v' * 2 powi (- e) - of_int m"
      by (simp only: left_diff_distrib)
    moreover have "\<bar>v' - v\<bar> * 2 powi (- e) = \<bar>(v' - v) * 2 powi (- e)\<bar>"
      by (simp add: abs_mult)
    ultimately show ?thesis by (simp only:)
  qed
  finally have err: "\<bar>v' * 2 powi (- e) - of_int m\<bar> \<le> of_int m * 10 powi (- 16) / 2" .
  have "m \<le> 2 ^ 53 - 1" using can by simp
  then have "real_of_int m \<le> real_of_int (2 ^ 53 - 1)" by (simp only: of_int_le_iff)
  then have m53: "real_of_int m \<le> 2 ^ 53 - 1" by simp
  have p16: "(10::real) powi (- 16) = 1 / 10 ^ 16" by (simp add: power_int_def power_one_over)
  have "round_real neg v' = Fin neg m e"
  proof (rule round_real_near [OF can m v'0])
    show "\<bar>v' * 2 powi (- e) - of_int m\<bar> < 1/2" using err m53 p16 by simp
    show "of_int m - 1/4 < v' * 2 powi (- e)" if "m = 2 ^ 52"
      using err that p16 by (simp add: abs_if split: if_splits)
  qed
  then have "float_of_decimal neg d (k - 17) = Fin neg m e"
    using \<open>0 < d\<close> by (simp add: float_of_decimal_real v'_def)
  then show ?thesis
    using dk by (simp add: reads_back_def split_beta p_def q_def)
qed

lemma reads_back_shortest:
  assumes "canonical (Fin neg m e)" and "0 < m"
  shows "reads_back neg m e (shortest neg m e)"
    and "1 \<le> shortest neg m e" and "shortest neg m e \<le> 17"
proof -
  have f: "List.find (reads_back neg m e) [1..16] = Some n \<Longrightarrow>
      reads_back neg m e n \<and> 1 \<le> n \<and> n \<le> 16" for n
    by (metis atLeastAtMost_iff find_Some_iff nth_mem set_upto)
  show "reads_back neg m e (shortest neg m e)" "1 \<le> shortest neg m e" "shortest neg m e \<le> 17"
    using f reads_back_17 [OF assms] by (auto simp: shortest_def split: option.splits)
qed

section \<open>float(repr(f))\<close>

text \<open>
  The text \<open>repr\<close> lays out is an integer part, an optional fraction and an optional exponent
  that together denote the digits at their place.
\<close>

definition number_parts :: "pystr \<Rightarrow> pystr \<Rightarrow> pystr \<Rightarrow> pystr \<Rightarrow> int \<Rightarrow> bool" where
  "number_parts s ip fp ex x \<longleftrightarrow>
     s = ip @ (if fp = [] then [] else 46 # fp) @ ex
     \<and> list_all is_digit ip \<and> list_all is_digit fp \<and> ip \<noteq> [] \<and> (ip = [48] \<or> hd ip \<noteq> 48)
     \<and> (ex = [] \<and> x = 0 \<and> fp \<noteq> [] \<or> ex = exponent_text x)"

lemma zeros_digits [simp]: "list_all is_digit (zeros n)"
  by (simp add: zeros_def list_all_iff is_digit_def)

lemma length_zeros [simp]: "0 \<le> n \<Longrightarrow> int (length (zeros n)) = n"
  by (simp add: zeros_def)

lemma decimal_int_zeros_append: "decimal_int (zeros n @ ds) = decimal_int ds"
  by (simp add: decimal_int_append zeros_def)

lemma layout_parts:
  assumes ds: "list_all is_digit ds" "ds \<noteq> []" "hd ds \<noteq> 48"
  obtains ip fp ex x where "number_parts (layout_digits ds k) ip fp ex x"
    and "of_int (decimal_int (ip @ fp)) * (10::real) powi (x - int (length fp))
           = of_int (decimal_int ds) * 10 powi (k - int (length ds))"
proof -
  consider (expo) "k \<le> - 4 \<or> 16 < k" | (small) "\<not> (k \<le> - 4 \<or> 16 < k)" "k \<le> 0"
    | (mid) "\<not> (k \<le> - 4 \<or> 16 < k)" "0 < k" "k < int (length ds)"
    | (big) "\<not> (k \<le> - 4 \<or> 16 < k)" "0 < k" "int (length ds) \<le> k" by linarith
  then show ?thesis
  proof cases
    case expo
    obtain c cs where c: "ds = c # cs" using ds(2) by (cases ds) auto
    show ?thesis
      by (rule that [of "[c]" cs "exponent_text (k - 1)" "k - 1"])
        (use expo ds c in \<open>simp_all add: number_parts_def layout_digits_def diff_diff_eq\<close>)
  next
    case small
    show ?thesis
      by (rule that [of "[48]" "zeros (- k) @ ds" "[]" 0])
        (use small ds in \<open>simp_all add: number_parts_def layout_digits_def is_digit_def
          decimal_int_zeros_append\<close>)
  next
    case mid
    then have len: "length (drop (nat k) ds) = length ds - nat k" "nat k < length ds" by auto
    have "list_all is_digit (take (nat k) ds)" "list_all is_digit (drop (nat k) ds)"
      using ds(1) by (auto simp: list_all_iff dest: in_set_takeD in_set_dropD)
    then show ?thesis
      by (intro that [of "take (nat k) ds" "drop (nat k) ds" "[]" 0])
        (use mid ds len in \<open>auto simp: number_parts_def layout_digits_def of_nat_diff hd_take\<close>)
  next
    case big
    have "decimal_int (ds @ zeros (k - int (length ds)))
        = decimal_int ds * 10 ^ nat (k - int (length ds))"
      by (simp add: decimal_int_append zeros_def)
    then have "real_of_int (decimal_int (ds @ zeros (k - int (length ds))))
        = of_int (decimal_int ds) * 10 powi (k - int (length ds))"
      using big by (simp add: power_int_nat)
    then show ?thesis
      by (intro that [of "ds @ zeros (k - int (length ds))" "[48]" "[]" 0])
        (use big ds in \<open>simp_all add: number_parts_def layout_digits_def is_digit_def
          decimal_int_append power_int_minus\<close>)
  qed
qed

lemma exponent_text_split:
  "\<exists>s ds. exponent_text x = 101 # s # ds \<and> (s = 45 \<or> s = 43) \<and> ds \<noteq> [] \<and> list_all is_digit ds
     \<and> signed (s = 45) (decimal_int ds) = x"
proof -
  let ?ds = "if \<bar>x\<bar> < 10 then 48 # int_digits \<bar>x\<bar> else int_digits \<bar>x\<bar>"
  have "decimal_int (48 # int_digits \<bar>x\<bar>) = \<bar>x\<bar>"
    using decimal_int_append [of "[48]" "int_digits \<bar>x\<bar>"] by (simp add: decimal_int_digits)
  then have "decimal_int ?ds = \<bar>x\<bar>" by (simp add: decimal_int_digits)
  moreover have "list_all is_digit ?ds"
    using int_digits_all_digits [of "\<bar>x\<bar>"] by (simp add: is_digit_def)
  ultimately show ?thesis
    by (intro exI [of _ "if x < 0 then 45 else 43"] exI [of _ ?ds])
      (auto simp: exponent_text_def signed_def)
qed

lemma parse_exponent_Nil [simp]: "parse_exponent [] = Some 0"
  by (simp add: parse_exponent_def)

lemma parse_exponent_text [simp]: "parse_exponent (exponent_text x) = Some x"
  using exponent_text_split [of x] by (auto simp: parse_exponent_def split_sign_def)

lemma parse_decimal_parts:
  assumes "number_parts s ip fp ex x"
  shows "parse_decimal neg s
    = Some (float_of_decimal neg (decimal_int (ip @ fp)) (x - int (length fp)))"
proof -
  note P = assms [unfolded number_parts_def]
  have exh: "ex = [] \<or> hd ex = 101" using P exponent_text_split [of x] by auto
  have pe: "parse_exponent ex = Some x" using P by auto
  let ?r = "(if fp = [] then [] else 46 # fp) @ ex"
  have "split_span is_digit (ip @ ?r) = (ip, ?r)"
    using P exh by (intro split_span_prefix) (auto simp: is_digit_def)
  moreover have "parse_fraction ?r = (fp, ex)"
  proof (cases "fp = []")
    case True
    then show ?thesis using exh by (cases ex) (auto simp: parse_fraction_def)
  next
    case False
    have "split_span is_digit (fp @ ex) = (fp, ex)"
      using P exh by (intro split_span_prefix) (auto simp: is_digit_def)
    with False show ?thesis by (simp add: parse_fraction_def)
  qed
  moreover have "s = ip @ ?r" "ip \<noteq> []" using P by auto
  ultimately show ?thesis using pe by (simp add: parse_decimal_def)
qed

text \<open>The digits and the place that \<open>repr\<close> chooses denote the float itself.\<close>

lemma float_repr_parts:
  assumes can: "canonical (Fin neg m e)" and m: "0 < m"
  obtains ip fp ex x s where "float_repr (Fin neg m e) = (if neg then [45] else []) @ s"
    and "number_parts s ip fp ex x"
    and "float_of_decimal neg (decimal_int (ip @ fp)) (x - int (length fp)) = Fin neg m e"
proof -
  define n where "n = shortest neg m e"
  define p q where "p = fst (scale 2 e (m, 1))" and "q = snd (scale 2 e (m, 1))"
  obtain d k where dk: "round_digits n p q = (d, k)" by fastforce
  have pq: "0 < p" "0 < q" using m by (simp_all add: p_def q_def scale_pos scale_fst_pos)
  have n: "1 \<le> n" and rb: "reads_back neg m e n"
    using reads_back_shortest [OF can m] by (simp_all add: n_def)
  note S = round_digits_spec [OF pq n dk]
  have "(1::int) \<le> 10 ^ nat (n - 1)" by simp
  then have d: "0 < d" using S(1) by linarith
  have "nat n = Suc (nat (n - 1))" using n by linarith
  with S have len: "int (length (int_digits d)) = n"
    using length_int_digits [of "nat (n - 1)" d] n by simp
  have fd: "float_of_decimal neg d (k - n) = Fin neg m e"
    using rb dk by (simp add: reads_back_def split_beta p_def q_def)
  have ds: "list_all is_digit (int_digits d)" "int_digits d \<noteq> []" "hd (int_digits d) \<noteq> 48"
    using d int_digits_all_digits [of d] hd_int_digits by simp_all
  obtain ip fp ex x where P: "number_parts (layout_digits (int_digits d) k) ip fp ex x"
    and V: "of_int (decimal_int (ip @ fp)) * (10::real) powi (x - int (length fp))
           = of_int (decimal_int (int_digits d)) * 10 powi (k - int (length (int_digits d)))"
    using layout_parts [OF ds] by blast
  have "0 < of_int d * (10::real) powi (k - n)" using d by simp
  then have "0 < of_int (decimal_int (ip @ fp)) * (10::real) powi (x - int (length fp))"
    using V d len by (simp add: decimal_int_digits)
  then have "0 < real_of_int (decimal_int (ip @ fp))" by (rule zero_less_mult_pos2) simp
  then have nn: "0 \<le> decimal_int (ip @ fp)" by simp
  have "float_of_decimal neg (decimal_int (ip @ fp)) (x - int (length fp)) = Fin neg m e"
    using fd nn V d len by (simp add: float_of_decimal_real decimal_int_digits)
  moreover have "float_repr (Fin neg m e)
      = (if neg then [45] else []) @ layout_digits (int_digits d) k"
    using dk m by (simp add: split_beta n_def p_def q_def)
  ultimately show ?thesis using P that by blast
qed

lemma float_repr_zero_parts: "number_parts (lit ''0.0'') [48] [48] [] 0"
  by (simp add: number_parts_def lit_def is_digit_def)

text \<open>A text of ASCII characters without blanks and underscores is read as it is.\<close>

definition plain_text :: "pystr \<Rightarrow> bool" where
  "plain_text s \<longleftrightarrow> list_all (\<lambda>c. 33 \<le> c \<and> c < 127 \<and> c \<noteq> 95) s"

lemma plain_no_underscores: "plain_text s \<Longrightarrow> prev \<noteq> 95 \<Longrightarrow> underscores_ok prev s"
  by (induction s arbitrary: prev) (auto simp: plain_text_def)

lemma plain_to_ascii: "plain_text s \<Longrightarrow> map to_ascii s = s"
  by (induction s) (auto simp: plain_text_def)

lemma plain_ends:
  "plain_text s \<Longrightarrow> s \<noteq> [] \<Longrightarrow> 33 \<le> hd s \<and> hd s < 127 \<and> 33 \<le> last s \<and> last s < 127"
  using hd_in_set [of s] last_in_set [of s] by (auto simp: plain_text_def list_all_iff)

lemma plain_c_strip: "plain_text s \<Longrightarrow> c_strip s = s"
proof (cases "s = []")
  case False
  assume p: "plain_text s"
  with False have "\<not> c_space (hd s)" "\<not> c_space (last s)"
    by (auto simp: c_space_def dest!: plain_ends)
  then show ?thesis by (simp add: c_strip_id)
qed (simp add: c_strip_def)

lemma plain_stripped: "plain_text s \<Longrightarrow> stripped s"
  by (cases "s = []") (auto simp: is_space_def stripped_def dest!: plain_ends)

lemma py_float_plain:
  "plain_text s \<Longrightarrow>
     py_float s = (case float_of_ascii s of None \<Rightarrow> Inl ValueError | Some f \<Rightarrow> Inr f)"
proof -
  assume p: "plain_text s"
  then have "filter (\<lambda>c. c \<noteq> 95) s = s" by (simp add: plain_text_def list_all_iff filter_id_conv)
  with p show ?thesis
    by (simp add: py_float_def plain_to_ascii plain_c_strip plain_no_underscores)
qed

lemma plain_digits: "list_all is_digit s \<Longrightarrow> plain_text s"
  by (auto simp: plain_text_def list_all_iff is_digit_def)

lemma plain_append [simp]: "plain_text (a @ b) \<longleftrightarrow> plain_text a \<and> plain_text b"
  by (simp add: plain_text_def)

lemma plain_Cons [simp]: "plain_text (c # s) \<longleftrightarrow> 33 \<le> c \<and> c < 127 \<and> c \<noteq> 95 \<and> plain_text s"
  by (simp add: plain_text_def)

lemma plain_Nil [simp]: "plain_text []"
  by (simp add: plain_text_def)

lemma number_parts_plain: "number_parts s ip fp ex x \<Longrightarrow> plain_text s"
  using exponent_text_split [of x] by (auto simp: number_parts_def plain_digits)

lemma number_parts_hd: "number_parts s ip fp ex x \<Longrightarrow> s \<noteq> [] \<and> is_digit (hd s)"
  by (auto simp: number_parts_def list_all_iff)

lemma float_of_ascii_parts:
  assumes P: "number_parts s ip fp ex x"
  shows "float_of_ascii ((if neg then [45] else []) @ s)
    = Some (float_of_decimal neg (decimal_int (ip @ fp)) (x - int (length fp)))"
proof -
  from number_parts_hd [OF P] obtain c t where s: "s = c # t" "is_digit c" by (cases s) auto
  then have "split_sign ((if neg then [45] else []) @ s) = (neg, s)"
    by (auto simp: split_sign_def is_digit_def)
  moreover have "map ascii_lower s \<noteq> lit w" if "w \<noteq> [] \<and> of_char (hd w) > (57::int)" for w
    using s that by (cases w) (auto simp: lit_def is_digit_def ascii_lower_def)
  ultimately show ?thesis
    by (simp add: float_of_ascii_def parse_decimal_parts [OF P])
qed

lemma float_repr_number:
  assumes can: "canonical (Fin neg m e)"
  obtains ip fp ex x s where "float_repr (Fin neg m e) = (if neg then [45] else []) @ s"
    and "number_parts s ip fp ex x"
    and "float_of_decimal neg (decimal_int (ip @ fp)) (x - int (length fp)) = Fin neg m e"
proof (cases "m = 0")
  case True
  with can have e: "e = - 1074" by simp
  show ?thesis
    by (rule that [OF _ float_repr_zero_parts])
      (use True e in \<open>simp_all add: float_of_decimal_def scale_def round_ratio_def\<close>)
next
  case False
  with can have "0 < m" by simp
  from float_repr_parts [OF can this] that show ?thesis by metis
qed

theorem py_float_repr: "canonical f \<Longrightarrow> py_float (float_repr f) = Inr f"
proof (induction f)
  case FNan
  show ?case by code_simp
next
  case (FInf neg)
  show ?case by (cases neg; simp only:; code_simp)
next
  case (Fin neg m e)
  obtain ip fp ex x s where r: "float_repr (Fin neg m e) = (if neg then [45] else []) @ s"
    and P: "number_parts s ip fp ex x"
    and V: "float_of_decimal neg (decimal_int (ip @ fp)) (x - int (length fp)) = Fin neg m e"
    using float_repr_number [OF Fin] by metis
  have "plain_text (float_repr (Fin neg m e))" unfolding r using number_parts_plain [OF P] by simp
  then show ?case
    unfolding r by (simp add: py_float_plain float_of_ascii_parts [OF P] V)
qed

lemma plain_float_repr: "canonical f \<Longrightarrow> plain_text (float_repr f)"
proof (induction f)
  case (Fin neg m e)
  then obtain ip fp ex x s where r: "float_repr (Fin neg m e) = (if neg then [45] else []) @ s"
    and P: "number_parts s ip fp ex x"
    using float_repr_number by metis
  show ?case unfolding r using number_parts_plain [OF P] by simp
qed (simp_all add: lit_def)

text \<open>What rounding produces is canonical, so every float the program reads is.\<close>

lemma canonical_round_real:
  assumes v: "0 \<le> v"
  shows "canonical (round_real neg v)"
proof (cases "v = 0")
  case False
  with v have v: "0 < v" by simp
  define k where "k = \<lfloor>log 2 v\<rfloor>"
  define e where "e = max (- 1074) (k - 52)"
  define w where "w = v * 2 powi (- e)"
  have kv: "2 powi k \<le> v" "v < 2 powi (k + 1)"
    using floor_log_eq_powr_iff [of v 2 k] powr_powi [of 2 k] powr_powi [of 2 "k + 1"] v
    by (simp_all add: k_def)
  have pe: "0 < (2::real) powi (- e)" by simp
  have kw: "2 powi (k - e) \<le> w" "w < 2 powi (k + 1 - e)"
    using mult_right_mono [OF kv(1), of "2 powi (- e)"]
      mult_strict_right_mono [OF kv(2) pe]
    by (simp_all add: w_def power_int_add [symmetric] algebra_simps)
  have "(2::real) powi (k + 1 - e) \<le> 2 powi 53" by (intro power_int_increasing) (auto simp: e_def)
  with kw have w53: "w < of_int (2 ^ 53)" by (simp add: power_int_def)
  then have hi: "rne w \<le> 2 ^ 53" by (rule rne_le)
  have "0 \<le> w" using v by (simp add: w_def)
  then have lo0: "0 \<le> rne w" using rne_ge [of 0 w] by simp
  have lo: "2 ^ 52 \<le> rne w \<or> e = - 1074"
  proof (cases "e = - 1074")
    case False
    then have "k - e = 52" by (auto simp: e_def max_def split: if_splits)
    with kw have "of_int (2 ^ 52) \<le> w" by (simp add: power_int_def)
    then show ?thesis using rne_ge by blast
  qed simp
  have "- 1074 \<le> e" by (simp add: e_def)
  with v hi lo0 lo show ?thesis
    by (auto simp: round_real_def Let_def k_def [symmetric] e_def [symmetric] w_def [symmetric])
qed (simp add: round_real_def)

lemma canonical_round_ratio: "0 \<le> p \<Longrightarrow> 0 < q \<Longrightarrow> canonical (round_ratio neg p q)"
  by (simp add: round_ratio_real canonical_round_real quot_def)

lemma canonical_float_of_decimal: "0 \<le> d \<Longrightarrow> canonical (float_of_decimal neg d k)"
  by (simp add: float_of_decimal_real canonical_round_real)

lemma canonical_float_of_int: "py_float_of_int i = Inr f \<Longrightarrow> canonical f"
  using canonical_round_ratio [of "\<bar>i\<bar>" 1 "i < 0"]
  by (cases "round_ratio (i < 0) \<bar>i\<bar> 1") (auto simp: py_float_of_int_def)

lemma decimal_int_nonneg: "list_all is_digit ds \<Longrightarrow> 0 \<le> decimal_int ds"
proof (induction ds rule: rev_induct)
  case (snoc d ds)
  then show ?case by (simp add: decimal_int_append is_digit_def)
qed simp

lemma canonical_py_float: "py_float s = Inr f \<Longrightarrow> canonical f"
proof -
  have dec: "parse_decimal neg u = Some g \<Longrightarrow> canonical g" for neg u g
    by (auto simp: parse_decimal_def parse_fraction_def split_beta
        intro!: canonical_float_of_decimal decimal_int_nonneg
        split: if_splits list.splits dest!: split_span_all)
      (auto simp: split_span_def list_all_iff dest: set_takeWhileD)
  show "py_float s = Inr f \<Longrightarrow> canonical f"
    by (auto simp: py_float_def float_of_ascii_def Let_def split_beta dec
        split: if_splits option.splits)
qed

text \<open>Three floats and their texts, for evaluation.\<close>

definition f_9_5 :: pyfloat where
  "f_9_5 = Fin False 5348024557502464 (- 49)"

definition f_0_25 :: pyfloat where
  "f_0_25 = Fin True 4503599627370496 (- 54)"

definition f_1_5 :: pyfloat where
  "f_1_5 = Fin False 6755399441055744 (- 52)"

lemma canonical_samples [simp]: "canonical f_9_5" "canonical f_0_25" "canonical f_1_5"
  by (simp_all add: f_9_5_def f_0_25_def f_1_5_def)

lemma float_repr_9_5: "float_repr f_9_5 = lit ''9.5''"
  by code_simp

lemma float_repr_0_25: "float_repr f_0_25 = lit ''-0.25''"
  by code_simp

lemma float_repr_1_5: "float_repr f_1_5 = lit ''1.5''"
  by code_simp

lemmas float_repr_samples = float_repr_9_5 float_repr_0_25 float_repr_1_5

end
