(* ===== verification/Json_Roundtrip.thy ===== *)
theory Json_Roundtrip
  imports Json_Codec Py_Number_Facts
begin

text \<open>
  Correctness of the JSON reader and writer of \<open>Json_Codec\<close>: the fuel of the reader is always
  enough, so \<open>loads\<close> either returns a value or raises \<open>JSONDecodeError\<close> or, for an integer that
  is too long, \<open>ValueError\<close>; a text that starts with a brace can only give a dict; and \<open>loads\<close>
  undoes the compact \<open>dumps\<close> of the server and the client, for every value it can write.
\<close>

section \<open>Lengths and fuel\<close>

lemma length_skip_ws: "length (skip_ws s) \<le> length s"
  by (simp add: skip_ws_def length_dropWhile_le)

lemma skip_ws_Cons_length: "skip_ws s = c # t \<Longrightarrow> length t < length s"
  using length_skip_ws [of s] by simp

text \<open>The cases of the string scanner, one equation each.\<close>

lemma scan_string_cases:
  "scan_string [] = Inl JSONDecodeError"
  "scan_string (34 # t) = Inr ([], t)"
  "scan_string [92] = Inl JSONDecodeError"
  "scan_string (92 # 117 # u) =
     (case scan_unicode_escape u of
        None \<Rightarrow> Inl JSONDecodeError
      | Some (x, r) \<Rightarrow> bind_res (scan_string r) (\<lambda>(xs, r'). Inr (x # xs, r')))"
  "d \<noteq> 117 \<Longrightarrow> scan_string (92 # d # u) =
     (case simple_escape d of
        None \<Rightarrow> Inl JSONDecodeError
      | Some x \<Rightarrow> bind_res (scan_string u) (\<lambda>(xs, r'). Inr (x # xs, r')))"
  "c \<noteq> 34 \<Longrightarrow> c \<noteq> 92 \<Longrightarrow> scan_string (c # t) =
     (if c < 32 then Inl JSONDecodeError
      else bind_res (scan_string t) (\<lambda>(xs, r'). Inr (c # xs, r')))"
  by (subst scan_string.simps; simp)+

lemma scan_string_induct [case_names Nil quote backslash unicode escape other]:
  assumes "P []" and "\<And>t. P (34 # t)" and "P [92]"
    and "\<And>u. (\<And>x r. scan_unicode_escape u = Some (x, r) \<Longrightarrow> P r) \<Longrightarrow> P (92 # 117 # u)"
    and "\<And>d u. d \<noteq> 117 \<Longrightarrow> P u \<Longrightarrow> P (92 # d # u)"
    and "\<And>c t. c \<noteq> 34 \<Longrightarrow> c \<noteq> 92 \<Longrightarrow> P t \<Longrightarrow> P (c # t)"
  shows "P s"
proof (induction s rule: length_induct)
  case (1 s)
  then have IH: "length s' < length s \<Longrightarrow> P s'" for s' by blast
  show ?case
  proof (cases s)
    case Nil
    then show ?thesis using assms(1) by simp
  next
    case (Cons c t)
    consider "c = 34" | "c = 92" "t = []" | u where "c = 92" "t = 117 # u"
      | d u where "c = 92" "t = d # u" "d \<noteq> 117" | "c \<noteq> 34" "c \<noteq> 92"
      by (cases t) auto
    then show ?thesis
      by cases (use Cons IH scan_unicode_escape_length in
        \<open>auto intro!: assms dest!: scan_unicode_escape_length\<close>)
  qed
qed

lemma scan_string_length: "scan_string s = Inr (x, r) \<Longrightarrow> length r < length s"
proof (induction s arbitrary: x r rule: scan_string_induct)
  case (unicode u)
  from unicode.prems obtain c r1 xs where "scan_unicode_escape u = Some (c, r1)"
    and "scan_string r1 = Inr (xs, r)"
    by (auto simp: scan_string_cases res_simps split: option.splits)
  then show ?case using unicode.IH [of c r1 xs r] scan_unicode_escape_length [of u c r1] by simp
next
  case (escape d u)
  then show ?case by (fastforce simp: scan_string_cases res_simps split: option.splits)
next
  case (other c t)
  then show ?case by (fastforce simp: scan_string_cases res_simps split: if_splits)
qed (simp_all add: scan_string_cases)

lemma scan_string_error: "scan_string s = Inl e \<Longrightarrow> e = JSONDecodeError"
  by (induction s rule: scan_string_induct)
    (auto simp: scan_string_cases res_simps split: option.splits if_splits)

lemma split_span_length: "split_span p s = (a, r) \<Longrightarrow> length s = length a + length r"
  by (drule split_span_append) simp

lemma scan_frac_length: "scan_frac s = (fp, r) \<Longrightarrow> length r \<le> length s"
  by (auto simp: scan_frac_def split: list.splits if_splits dest!: split_span_length)

lemma scan_exp_length: "scan_exp s = (ex, r) \<Longrightarrow> length r \<le> length s"
  by (auto simp: scan_exp_def split_sign_def Let_def split: list.splits if_splits prod.splits
      dest!: split_span_length)

lemma scan_int_part_length: "scan_int_part s = Some (ip, r) \<Longrightarrow> length r < length s"
  by (auto simp: scan_int_part_def split_span_def split: list.splits if_splits)
    (metis length_dropWhile_le less_Suc_eq_le)

lemma scan_number_length: "scan_number s = Inr (v, r) \<Longrightarrow> length r < length s"
  by (cases s)
    (fastforce simp: scan_number_def Let_def split: option.splits if_splits prod.splits
      dest!: scan_int_part_length scan_frac_length scan_exp_length)+

text \<open>The exceptions of the scanner: \<open>ValueError\<close> only for an integer that is too long.\<close>

definition scan_error :: "py_exc \<Rightarrow> bool" where
  "scan_error e \<longleftrightarrow> e = JSONDecodeError \<or> e = ValueError"

lemma scan_error_intros [simp]: "scan_error JSONDecodeError" "scan_error ValueError"
  by (simp_all add: scan_error_def)

lemma scan_number_error: "scan_number s = Inl e \<Longrightarrow> scan_error e"
  by (auto simp: scan_number_def Let_def split: option.splits if_splits prod.splits)

lemma startswith_length: "startswith p s \<Longrightarrow> length p \<le> length s"
  unfolding startswith_def by (metis length_take min.cobounded1)

lemma scan_atom_length: "scan_atom s = Inr (v, r) \<Longrightarrow> length r < length s"
proof -
  have *: "w \<noteq> [] \<and> startswith w s" if "List.find (\<lambda>l. startswith (fst l) s) literals = Some (w, u)"
    for w u
    using that unfolding find_Some_iff by (auto simp: literals_def less_Suc_eq nth_Cons')
  have "length r < length s" if "List.find (\<lambda>l. startswith (fst l) s) literals = Some (w, u)"
    "r = drop (length w) s" for w u
  proof -
    from * [OF that(1)] have "w \<noteq> []" and "length w \<le> length s"
      using startswith_length [of w s] by simp_all
    then show ?thesis using that(2) by (cases w) simp_all
  qed
  then show "scan_atom s = Inr (v, r) \<Longrightarrow> length r < length s"
    by (auto simp: scan_atom_def scan_number_length split: option.splits)
qed

lemma scan_atom_error: "scan_atom s = Inl e \<Longrightarrow> scan_error e"
  by (auto simp: scan_atom_def dest: scan_number_error split: option.splits)

text \<open>What a successful step of the scanner consumed, one fact per function.\<close>

lemma case_Cons_Inr:
  "(case xs of [] \<Rightarrow> Inl e | c # t \<Rightarrow> f c t) = Inr y \<longleftrightarrow> (\<exists>c t. xs = c # t \<and> f c t = Inr y)"
  by (cases xs) simp_all

lemma parse_members_Inr:
  assumes "parse_members (Suc n) s acc = Inr (kvs, r)"
  obtains t k r0 r1 v r2 d r3 where "s = 34 # t" and "scan_string t = Inr (k, r0)"
    and "skip_ws r0 = 58 # r1" and "parse_value n (skip_ws r1) = Inr (v, r2)"
    and "skip_ws r2 = d # r3"
    and "d = 125 \<and> kvs = dict_set k v acc \<and> r = r3 \<or>
         d = 44 \<and> parse_members n (skip_ws r3) (dict_set k v acc) = Inr (kvs, r)"
proof -
  from assms obtain t where s: "s = 34 # t" by (cases s) (auto split: if_splits)
  with assms obtain k r0 r1 where k: "scan_string t = Inr (k, r0)" "skip_ws r0 = 58 # r1"
    and *: "bind_res (parse_value n (skip_ws r1)) (\<lambda>(v, r2).
               (case skip_ws r2 of
                  [] \<Rightarrow> Inl JSONDecodeError
                | d # r3 \<Rightarrow>
                    if d = 125 then Inr (dict_set k v acc, r3)
                    else if d = 44 then parse_members n (skip_ws r3) (dict_set k v acc)
                    else Inl JSONDecodeError)) = Inr (kvs, r)"
    by (auto simp: res_simps case_Cons_Inr split: if_splits)
  from * obtain v r2 d r3 where "parse_value n (skip_ws r1) = Inr (v, r2)" "skip_ws r2 = d # r3"
    "(if d = 125 then Inr (dict_set k v acc, r3)
      else if d = 44 then parse_members n (skip_ws r3) (dict_set k v acc)
      else Inl JSONDecodeError) = Inr (kvs, r)"
    by (auto simp: res_simps case_Cons_Inr)
  with that [OF s k] show thesis by (auto split: if_splits)
qed

lemma parse_elems_Inr:
  assumes "parse_elems (Suc n) s = Inr (vs, r)"
  obtains v r0 d r1 where "parse_value n s = Inr (v, r0)" and "skip_ws r0 = d # r1"
    and "d = 93 \<and> vs = [v] \<and> r = r1 \<or>
         d = 44 \<and> (\<exists>us. parse_elems n (skip_ws r1) = Inr (us, r) \<and> vs = v # us)"
  using assms by (auto simp: res_simps case_Cons_Inr split: if_splits)

lemma parse_value_Inr:
  assumes "parse_value (Suc n) s = Inr (v, r)"
  obtains x where "s = 34 # tl s" and "scan_string (tl s) = Inr (x, r)" and "v = JStr x"
  | "s = 123 # tl s" and "skip_ws (tl s) = 125 # r" and "v = JObj []"
  | kvs where "s = 123 # tl s" and "parse_members n (skip_ws (tl s)) [] = Inr (kvs, r)" and "v = JObj kvs"
  | "s = 91 # tl s" and "skip_ws (tl s) = 93 # r" and "v = JArr []"
  | vs where "s = 91 # tl s" and "parse_elems n (skip_ws (tl s)) = Inr (vs, r)" and "v = JArr vs"
  | "scan_atom s = Inr (v, r)"
proof -
  from assms obtain c t where s: "s = c # t" by (cases s) auto
  consider "c = 34" | "c = 123" | "c = 91" | "c \<noteq> 34" "c \<noteq> 123" "c \<noteq> 91" by blast
  then show thesis
    using assms that s
    by cases (auto simp: res_simps case_Cons_Inr split: if_splits)
qed

lemma parse_length_all:
  "(\<forall>s v r. parse_value n s = Inr (v, r) \<longrightarrow> length r < length s) \<and>
   (\<forall>s acc kvs r. parse_members n s acc = Inr (kvs, r) \<longrightarrow> length r < length s) \<and>
   (\<forall>s vs r. parse_elems n s = Inr (vs, r) \<longrightarrow> length r < length s)"
proof (induction n)
  case (Suc n)
  have V: "length r < length s" if "parse_value n s = Inr (v, r)" for s v r
    using Suc that by blast
  have M: "length r < length s" if "parse_members n s acc = Inr (kvs, r)" for s acc kvs r
    using Suc that by blast
  have E: "length r < length s" if "parse_elems n s = Inr (vs, r)" for s vs r
    using Suc that by blast
  note ws = length_skip_ws skip_ws_Cons_length
  have "length r < length s" if "parse_value (Suc n) s = Inr (v, r)" for s v r
    using that
  proof (cases rule: parse_value_Inr)
    case (1 x)
    then show ?thesis using scan_string_length [of "tl s"] by (cases s) auto
  next
    case 2
    then show ?thesis using ws(2) [of "tl s"] by (cases s) fastforce+
  next
    case (3 kvs)
    then show ?thesis using M ws(1) [of "tl s"] by (cases s) fastforce+
  next
    case 4
    then show ?thesis using ws(2) [of "tl s"] by (cases s) fastforce+
  next
    case (5 vs)
    then show ?thesis using E ws(1) [of "tl s"] by (cases s) fastforce+
  next
    case 6
    then show ?thesis by (rule scan_atom_length)
  qed
  moreover have "length r < length s" if "parse_members (Suc n) s acc = Inr (kvs, r)" for s acc kvs r
    using that
  proof (cases rule: parse_members_Inr)
    case (1 t k r0 r1 v r2 d r3)
    have "length r0 < length t" "length r1 < length r0" "length r2 < length (skip_ws r1)"
      "length r3 < length r2" "length r \<le> length r3"
      using scan_string_length 1(2) ws(2) 1(3) V [OF 1(4)] 1(5,6) M ws(1) [of r3] by fastforce+
    then show ?thesis using 1(1) ws(1) [of r1] by simp
  qed
  moreover have "length r < length s" if "parse_elems (Suc n) s = Inr (vs, r)" for s vs r
    using that
  proof (cases rule: parse_elems_Inr)
    case (1 v r0 d r1)
    have "length r0 < length s" "length r1 < length r0" "length r \<le> length r1"
      using V [OF 1(1)] ws(2) [OF 1(2)] 1(3) E ws(1) [of r1] by fastforce+
    then show ?thesis by simp
  qed
  ultimately show ?case by blast
qed simp_all

lemmas parse_value_length = parse_length_all [THEN conjunct1, rule_format]
  and parse_members_length = parse_length_all [THEN conjunct2, THEN conjunct1, rule_format]
  and parse_elems_length = parse_length_all [THEN conjunct2, THEN conjunct2, rule_format]

text \<open>Enough fuel: a value needs one step more than twice its length.\<close>

lemma case_Cons_Inl:
  "(case xs of [] \<Rightarrow> Inl e | c # t \<Rightarrow> f c t) = Inl y \<longleftrightarrow>
     xs = [] \<and> y = e \<or> (\<exists>c t. xs = c # t \<and> f c t = Inl y)"
  by (cases xs) auto

lemma skip_ws_le: "skip_ws s = c # t \<Longrightarrow> Suc (length t) \<le> length s"
  using skip_ws_Cons_length by fastforce

lemma parse_members_Inl:
  assumes "parse_members (Suc n) s acc = Inl e"
  obtains "scan_error e"
  | t k r0 r1 where "s = 34 # t" and "scan_string t = Inr (k, r0)" and "skip_ws r0 = 58 # r1"
    and "parse_value n (skip_ws r1) = Inl e"
  | t k r0 r1 v r2 r3 where "s = 34 # t" and "scan_string t = Inr (k, r0)"
    and "skip_ws r0 = 58 # r1" and "parse_value n (skip_ws r1) = Inr (v, r2)"
    and "skip_ws r2 = 44 # r3" and "parse_members n (skip_ws r3) (dict_set k v acc) = Inl e"
proof (cases "s = [] \<or> hd s \<noteq> 34")
  case False
  then obtain t where s: "s = 34 # t" by (cases s) auto
  with assms consider "scan_error e"
    | k r0 r1 where "scan_string t = Inr (k, r0)" "skip_ws r0 = 58 # r1"
      "bind_res (parse_value n (skip_ws r1)) (\<lambda>(v, r2).
               (case skip_ws r2 of
                  [] \<Rightarrow> Inl JSONDecodeError
                | d # r3 \<Rightarrow>
                    if d = 125 then Inr (dict_set k v acc, r3)
                    else if d = 44 then parse_members n (skip_ws r3) (dict_set k v acc)
                    else Inl JSONDecodeError)) = Inl e"
    by (auto simp: res_simps case_Cons_Inl dest!: scan_string_error split: if_splits)
  then show thesis
  proof cases
    case 2
    from 2(3) that(1) that(2) [OF s 2(1,2)] that(3) [OF s 2(1,2)] show thesis
      by (auto simp: res_simps case_Cons_Inl split: if_splits)
  qed (rule that(1))
qed (use assms that(1) in simp)

lemma parse_elems_Inl:
  assumes "parse_elems (Suc n) s = Inl e"
  obtains "scan_error e" | "parse_value n s = Inl e"
  | v r0 r1 where "parse_value n s = Inr (v, r0)" and "skip_ws r0 = 44 # r1"
    and "parse_elems n (skip_ws r1) = Inl e"
  using assms by (auto simp: res_simps case_Cons_Inl split: if_splits)

lemma parse_value_Inl:
  assumes "parse_value (Suc n) s = Inl e"
  obtains "scan_error e"
  | c t where "s = c # t" and "parse_members n (skip_ws t) [] = Inl e"
  | c t where "s = c # t" and "parse_elems n (skip_ws t) = Inl e"
proof (cases s)
  case (Cons c t)
  consider "c = 34" | "c = 123" | "c = 91" | "c \<noteq> 34" "c \<noteq> 123" "c \<noteq> 91" by blast
  then show thesis
    using assms that Cons
    by cases (auto simp: res_simps case_Cons_Inl dest!: scan_string_error scan_atom_error
        split: if_splits)
qed (use assms that(1) in simp)

lemma parse_error_all:
  "(\<forall>s e. parse_value n s = Inl e \<longrightarrow> 2 * length s < n \<longrightarrow> scan_error e) \<and>
   (\<forall>s acc e. parse_members n s acc = Inl e \<longrightarrow> 2 * length s < n \<longrightarrow> scan_error e) \<and>
   (\<forall>s e. parse_elems n s = Inl e \<longrightarrow> Suc (2 * length s) < n \<longrightarrow> scan_error e)"
proof (induction n)
  case (Suc n)
  have V: "scan_error e" if "parse_value n s = Inl e" "2 * length s < n" for s e
    using Suc that by blast
  have M: "scan_error e" if "parse_members n s acc = Inl e" "2 * length s < n" for s acc e
    using Suc that by blast
  have E: "scan_error e" if "parse_elems n s = Inl e" "Suc (2 * length s) < n" for s e
    using Suc that by blast
  note ws = length_skip_ws skip_ws_Cons_length
  have "scan_error e" if "parse_value (Suc n) s = Inl e" and "2 * length s < Suc n" for s e
    using that(1)
  proof (cases rule: parse_value_Inl)
    case (2 c t)
    then show ?thesis using that(2) ws(1) [of t] by (intro M [OF 2(2)]) simp
  next
    case (3 c t)
    then show ?thesis using that(2) ws(1) [of t] by (intro E [OF 3(2)]) simp
  qed
  moreover have "scan_error e" if "parse_members (Suc n) s acc = Inl e" "2 * length s < Suc n"
    for s acc e
    using that(1)
  proof (cases rule: parse_members_Inl)
    case (2 t k r0 r1)
    show ?thesis
      using 2 that(2) scan_string_length ws(2) ws(1) [of r1] by (intro V [OF 2(4)]) fastforce
  next
    case (3 t k r0 r1 v r2 r3)
    have "length r0 < length t" "length r1 < length r0" "length r2 < length (skip_ws r1)"
      "length r3 < length r2"
      using 3 scan_string_length ws(2) parse_value_length by auto
    then show ?thesis using 3(1) that(2) ws(1) [of r1] ws(1) [of r3] by (intro M [OF 3(6)]) simp
  qed
  moreover have "scan_error e" if "parse_elems (Suc n) s = Inl e" "Suc (2 * length s) < Suc n" for s e
    using that(1)
  proof (cases rule: parse_elems_Inl)
    case 2
    then show ?thesis using that(2) by (intro V) auto
  next
    case (3 v r0 r1)
    have "length r0 < length s" "length r1 < length r0"
      using 3 ws(2) parse_value_length by auto
    then show ?thesis using that(2) ws(1) [of r1] by (intro E [OF 3(3)]) simp
  qed
  ultimately show ?case by blast
qed simp_all

lemmas parse_value_error = parse_error_all [THEN conjunct1, rule_format]

theorem json_loads_error: "json_loads s = Inl e \<Longrightarrow> scan_error e"
  using length_skip_ws [of s]
  by (auto simp: json_loads_def res_simps simp del: parse_value.simps
      split: if_splits dest!: parse_value_error)

text \<open>A text that opens with a brace decodes to a dict.\<close>

lemma scan_atom_brace: "scan_atom (123 # t) = Inl JSONDecodeError"
  by (simp add: scan_atom_def literals_def startswith_def lit_def scan_number_def
      scan_int_part_def is_digit_def)

lemma json_loads_brace:
  assumes "json_loads (123 # t) = Inr v"
  shows "is_dict v"
proof -
  have "skip_ws (123 # t) = 123 # t" by (simp add: skip_ws_def is_ws_def)
  with assms obtain r where "parse_value (Suc (2 * length (123 # t))) (123 # t) = Inr (v, r)"
    by (auto simp: json_loads_def res_simps split: if_splits simp del: parse_value.simps)
  then show ?thesis
    by (cases rule: parse_value_Inr) (auto simp: scan_atom_brace)
qed

section \<open>Reading back numbers\<close>

text \<open>What may follow a number in a text that \<open>dumps\<close> wrote.\<close>

definition number_stop :: "pystr \<Rightarrow> bool" where
  "number_stop r \<longleftrightarrow> r = [] \<or> \<not> is_digit (hd r) \<and> hd r \<noteq> 46 \<and> hd r \<noteq> 101 \<and> hd r \<noteq> 69"

lemma scan_int_part_digits:
  assumes "list_all is_digit ip" and "ip \<noteq> []" and "ip = [48] \<or> hd ip \<noteq> 48"
    and "r = [] \<or> \<not> is_digit (hd r)"
  shows "scan_int_part (ip @ r) = Some (ip, r)"
  using assms split_span_prefix [of is_digit ip r]
  by (cases ip) (auto simp: scan_int_part_def)

lemma scan_frac_digits:
  assumes "list_all is_digit fp" and "r = [] \<or> \<not> is_digit (hd r) \<and> hd r \<noteq> 46"
  shows "scan_frac ((if fp = [] then [] else 46 # fp) @ r) = (fp, r)"
proof (cases "fp = []")
  case True
  then show ?thesis using assms by (cases r) (auto simp: scan_frac_def)
next
  case False
  have "split_span is_digit (fp @ r) = (fp, r)"
    using assms by (intro split_span_prefix) auto
  moreover from this have "takeWhile is_digit (fp @ r) = fp" by (simp add: split_span_def)
  ultimately show ?thesis using False by (simp add: scan_frac_def)
qed

lemma scan_exp_stop: "number_stop r \<Longrightarrow> scan_exp r = (None, r)"
  by (cases r) (auto simp: scan_exp_def number_stop_def)

lemma scan_exp_text:
  assumes "number_stop r"
  shows "scan_exp (exponent_text x @ r) = (Some x, r)"
proof -
  obtain s ds where "exponent_text x = 101 # s # ds" "s = 45 \<or> s = 43" "ds \<noteq> []"
    "list_all is_digit ds" "signed (s = 45) (decimal_int ds) = x"
    using exponent_text_split [of x] by blast
  moreover from this assms have "split_span is_digit (ds @ r) = (ds, r)"
    by (intro split_span_prefix) (auto simp: number_stop_def)
  ultimately show ?thesis by (auto simp: scan_exp_def split_sign_def)
qed

lemma scan_number_parts:
  assumes P: "number_parts s ip fp ex x" and r: "number_stop r"
  shows "scan_number ((if neg then [45] else []) @ s @ r)
    = Inr (JFloat (float_of_decimal neg (decimal_int (ip @ fp)) (x - int (length fp))), r)"
proof -
  note P = assms(1) [unfolded number_parts_def]
  have ex: "ex = [] \<and> x = 0 \<and> fp \<noteq> [] \<or> ex = exponent_text x" using P by auto
  have hd: "is_digit (hd s)" "s \<noteq> []" using number_parts_hd [OF assms(1)] by auto
  let ?r = "(if fp = [] then [] else 46 # fp) @ ex @ r"
  have xr: "ex @ r = [] \<or> \<not> is_digit (hd (ex @ r)) \<and> hd (ex @ r) \<noteq> 46"
    using ex r exponent_text_split [of x] by (auto simp: number_stop_def is_digit_def)
  have e: "scan_exp (ex @ r) = (if ex = [] then None else Some x, r)"
  proof (cases "ex = []")
    case False
    then have "ex = exponent_text x" using ex by simp
    then show ?thesis using scan_exp_text [OF r, of x] False by simp
  qed (simp add: scan_exp_stop [OF r])
  have "scan_int_part (ip @ ?r) = Some (ip, ?r)"
    using P xr by (intro scan_int_part_digits) (auto simp: is_digit_def)
  moreover have "scan_frac ?r = (fp, ex @ r)"
    using scan_frac_digits [of fp "ex @ r"] P xr by simp
  moreover have "s @ r = ip @ ?r" using P by simp
  moreover have "hd (s @ r) \<noteq> 45" "s @ r \<noteq> []" using hd by (cases s; auto simp: is_digit_def)+
  moreover have "ex = [] \<and> x = 0 \<and> fp \<noteq> [] \<or> ex \<noteq> []"
    using ex exponent_text_split [of x] by auto
  ultimately show ?thesis using e by (auto simp: scan_number_def Let_def)
qed

lemma scan_number_int:
  assumes i: "py_str_int i = Inr t" and r: "number_stop r"
  shows "scan_number (t @ r) = Inr (JInt i, r)"
proof -
  define ip where "ip = int_digits \<bar>i\<bar>"
  have t: "t = (if i < 0 then [45] else []) @ ip" and len: "length ip \<le> max_str_digits"
    using i by (auto simp: py_str_int_def int_repr_def ip_def not_less split: if_splits)
  have ip: "list_all is_digit ip" "ip \<noteq> []" "ip = [48] \<or> hd ip \<noteq> 48" "decimal_int ip = \<bar>i\<bar>"
    using int_digits_all_digits [of "\<bar>i\<bar>"] hd_int_digits [of "\<bar>i\<bar>"] decimal_int_digits [of "\<bar>i\<bar>"]
    by (cases "i = 0"; simp add: ip_def int_digits_small)+
  have "scan_int_part (ip @ r) = Some (ip, r)"
    using ip r by (intro scan_int_part_digits) (auto simp: number_stop_def)
  moreover have "scan_frac r = ([], r)" using scan_frac_digits [of "[]" r] r
    by (auto simp: number_stop_def)
  moreover have "hd (ip @ r) \<noteq> 45" "ip @ r \<noteq> []" using ip by (cases ip; auto simp: is_digit_def)+
  ultimately show ?thesis using scan_exp_stop [OF r] len ip(4) t
    by (auto simp: scan_number_def Let_def signed_def)
qed

section \<open>Reading back strings\<close>

lemma hex_digit: "0 \<le> d \<Longrightarrow> d < 16 \<Longrightarrow> is_hex (hex_digit d) \<and> hex_value (hex_digit d) = d"
  by (auto simp: is_hex_def hex_digit_def hex_value_def is_digit_def ascii_lower_def)

lemma scan_hex4_pad:
  assumes "0 \<le> c" and "c < 65536"
  shows "scan_hex4 (hex_pad 4 c @ r) = Some (c, r)"
proof -
  define c1 c2 c3 where "c1 = c div 16" and "c2 = c1 div 16" and "c3 = c2 div 16"
  have s: "c1 * 16 + c mod 16 = c" "c2 * 16 + c1 mod 16 = c1" "c3 * 16 + c2 mod 16 = c2"
    by (simp_all add: c1_def c2_def c3_def)
  have m: "is_hex (hex_digit (n mod 16))" "hex_value (hex_digit (n mod 16)) = n mod 16" for n
    using hex_digit [of "n mod 16"] by simp_all
  have b: "0 \<le> n mod 16" "n mod 16 < 16" for n :: int by simp_all
  have "0 \<le> c3" "c3 < 16" using s b [of c] b [of c1] b [of c2] assms by linarith+
  then have "c3 mod 16 = c3" by simp
  then have "((c3 mod 16 * 16 + c2 mod 16) * 16 + c1 mod 16) * 16 + c mod 16 = c" using s by simp
  moreover have "hex_pad 4 c
      = [hex_digit (c3 mod 16), hex_digit (c2 mod 16), hex_digit (c1 mod 16), hex_digit (c mod 16)]"
    unfolding c1_def c2_def c3_def by (simp add: numeral_eq_Suc)
  ultimately show ?thesis unfolding scan_hex4_def using m by (simp add: digits_value_def)
qed

definition is_surrogate :: "int \<Rightarrow> bool" where
  "is_surrogate c \<longleftrightarrow> 55296 \<le> c \<and> c \<le> 57343"

lemma scan_unicode_escape_bmp:
  "0 \<le> c \<Longrightarrow> c < 65536 \<Longrightarrow> \<not> is_surrogate c \<Longrightarrow> scan_unicode_escape (hex_pad 4 c @ r) = Some (c, r)"
  by (auto simp: scan_unicode_escape_def scan_hex4_pad high_surrogate_def is_surrogate_def)

lemma scan_unicode_escape_pair:
  assumes "65536 \<le> c" and "c < 1114112"
  shows "scan_unicode_escape (hex_pad 4 (55296 + (c - 65536) div 1024) @ [92, 117] @
      hex_pad 4 (56320 + (c - 65536) mod 1024) @ r) = Some (c, r)"
proof -
  define h l where "h = (c - 65536) div 1024" and "l = (c - 65536) mod 1024"
  have hl: "0 \<le> h" "h < 1024" "0 \<le> l" "l < 1024" "65536 + h * 1024 + l = c"
  proof -
    have s: "h * 1024 + l = c - 65536" "0 \<le> l" "l < 1024" by (simp_all add: h_def l_def)
    then show "0 \<le> h" "h < 1024" "0 \<le> l" "l < 1024" "65536 + h * 1024 + l = c"
      using assms by linarith+
  qed
  then show ?thesis
    unfolding scan_unicode_escape_def h_def [symmetric] l_def [symmetric]
    by (simp add: scan_hex4_pad high_surrogate_def low_surrogate_def join_surrogates_def)
qed

lemma short_escape_cases:
  "short_escape c = Some d \<Longrightarrow> d \<noteq> 117 \<and> simple_escape d = Some c"
  by (auto simp: short_escape_def simple_escape_def split: if_splits)

lemma scan_escaped_char:
  assumes "0 \<le> c" and "c < 1114112" and "asc \<Longrightarrow> \<not> is_surrogate c"
  shows "scan_string (escape_char asc c @ t) = bind_res (scan_string t) (\<lambda>(xs, r). Inr (c # xs, r))"
proof (cases "short_escape c")
  case (Some d)
  with short_escape_cases [OF Some] show ?thesis
    by (simp add: escape_char_def scan_string_cases)
next
  case None
  then have c: "c \<noteq> 34" "c \<noteq> 92" by (auto simp: short_escape_def split: if_splits)
  show ?thesis
  proof (cases "c < 32 \<or> asc \<and> 126 < c")
    case True
    show ?thesis
    proof (cases "c < 65536")
      case bmp: True
      have "\<not> is_surrogate c" using True assms(3) by (auto simp: is_surrogate_def)
      with None True bmp assms show ?thesis
        by (simp add: escape_char_def unicode_escape_def scan_string_cases scan_unicode_escape_bmp)
    next
      case False
      with None True assms scan_unicode_escape_pair [of c t] show ?thesis
        by (simp add: escape_char_def unicode_escape_def scan_string_cases Let_def)
    qed
  qed (use None c in \<open>auto simp: escape_char_def scan_string_cases\<close>)
qed

definition scalar_str :: "pystr \<Rightarrow> bool" where
  "scalar_str s \<longleftrightarrow> list_all (\<lambda>c. 0 \<le> c \<and> c < 1114112 \<and> \<not> is_surrogate c) s"

lemma scan_string_text:
  assumes "valid_str s" and "asc \<Longrightarrow> scalar_str s"
  shows "scan_string (concat (map (escape_char asc) s) @ 34 # r) = Inr (s, r)"
  using assms
proof (induction s)
  case (Cons c s)
  then show ?case
    by (cases asc) (auto simp: valid_str_def scalar_str_def scan_escaped_char)
qed (simp add: scan_string_cases)

section \<open>Reading back values\<close>

lemma parse_value_scan_atom:
  "c \<noteq> 34 \<Longrightarrow> c \<noteq> 123 \<Longrightarrow> c \<noteq> 91 \<Longrightarrow> parse_value (Suc n) (c # s) = scan_atom (c # s)"
  by simp

lemma scan_atom_number:
  assumes "s \<noteq> []" and "is_digit (hd s)"
  shows "scan_atom ((if neg then [45] else []) @ s) = scan_number ((if neg then [45] else []) @ s)"
proof -
  from assms obtain d u where s: "s = d # u" "48 \<le> d" "d \<le> 57"
    by (cases s) (auto simp: is_digit_def)
  then have "List.find (\<lambda>l. startswith (fst l) ((if neg then [45] else []) @ s)) literals = None"
    by (simp add: literals_def startswith_def lit_def)
  then show ?thesis by (simp only: scan_atom_def option.case)
qed

lemma parse_value_number:
  assumes "s \<noteq> []" and "is_digit (hd s)"
  shows "parse_value (Suc n) ((if neg then [45] else []) @ s @ r)
    = scan_number ((if neg then [45] else []) @ s @ r)"
proof -
  have sr: "s @ r \<noteq> []" "is_digit (hd (s @ r))" using assms by simp_all
  obtain c u where c: "(if neg then [45] else []) @ s @ r = c # u"
    and "c \<noteq> 34" "c \<noteq> 123" "c \<noteq> 91"
    using assms by (cases s; cases neg) (auto simp: is_digit_def)
  then show ?thesis
    using scan_atom_number [OF sr, of neg] parse_value_scan_atom [of c n u] by simp
qed

lemma int_text_parts:
  assumes "py_str_int i = Inr t"
  obtains neg s where "t = (if neg then [45] else []) @ s" and "s \<noteq> []" and "is_digit (hd s)"
proof
  show "t = (if i < 0 then [45] else []) @ int_digits \<bar>i\<bar>"
    using assms by (auto simp: py_str_int_def int_repr_def split: if_splits)
  show "is_digit (hd (int_digits \<bar>i\<bar>))"
    using int_digits_all_digits [of "\<bar>i\<bar>"] by (cases "int_digits \<bar>i\<bar>") simp_all
qed simp

lemma parse_value_int:
  assumes "py_str_int i = Inr t" and "number_stop r"
  shows "parse_value (Suc n) (t @ r) = Inr (JInt i, r)"
proof -
  obtain neg s where t: "t = (if neg then [45] else []) @ s" "s \<noteq> []" "is_digit (hd s)"
    using int_text_parts [OF assms(1)] by blast
  then show ?thesis
    using scan_number_int [OF assms] parse_value_number [of s n neg r] by simp
qed

lemma parse_value_float:
  assumes "canonical f" and "number_stop r"
  shows "parse_value (Suc n) (float_text f @ r) = Inr (JFloat f, r)"
proof (cases f)
  case (Fin neg m e)
  then obtain ip fp ex x s where t: "float_repr (Fin neg m e) = (if neg then [45] else []) @ s"
    and P: "number_parts s ip fp ex x"
    and v: "float_of_decimal neg (decimal_int (ip @ fp)) (x - int (length fp)) = Fin neg m e"
    using assms(1) float_repr_number by metis
  then show ?thesis
    using scan_number_parts [OF P assms(2), of neg] number_parts_hd [OF P]
      parse_value_number [of s n neg r] Fin
    by (simp add: float_text_def del: parse_value.simps float_repr.simps)
qed (auto simp: float_text_def lit_def scan_atom_def literals_def startswith_def)

fun scalar_json :: "json \<Rightarrow> bool" where
  "scalar_json (JStr s) = scalar_str s"
| "scalar_json (JArr vs) = list_all scalar_json vs"
| "scalar_json (JObj kvs) = list_all (\<lambda>kv. scalar_str (fst kv) \<and> scalar_json (snd kv)) kvs"
| "scalar_json _ = True"

text \<open>The first character of a value is neither white space nor a closing bracket.\<close>

definition value_head :: "pystr \<Rightarrow> bool" where
  "value_head t \<longleftrightarrow> t \<noteq> [] \<and> \<not> is_ws (hd t) \<and> hd t \<noteq> 93 \<and> hd t \<noteq> 125 \<and> hd t \<noteq> 65279"

lemma value_head_number:
  "s \<noteq> [] \<Longrightarrow> is_digit (hd s) \<Longrightarrow> value_head ((if neg then [45] else []) @ s)"
  by (auto simp: value_head_def is_ws_def is_digit_def)

lemma value_head_text:
  assumes "wf_json v" and "json_text asc isep ksep v = Inr t"
  shows "value_head t"
proof (cases v)
  case (JInt i)
  with assms have "py_str_int i = Inr t" by simp
  then obtain neg s where "t = (if neg then [45] else []) @ s" "s \<noteq> []" "is_digit (hd s)"
    by (rule int_text_parts)
  then show ?thesis using value_head_number by blast
next
  case (JFloat f)
  show ?thesis
  proof (cases f)
    case (Fin neg m e)
    then obtain ip fp ex x s where "float_repr f = (if neg then [45] else []) @ s"
      "number_parts s ip fp ex x"
      using JFloat assms float_repr_number by (metis wf_json.simps(1))
    then have "value_head (float_repr f)"
      using value_head_number [of s neg] number_parts_hd by simp
    then show ?thesis using assms JFloat Fin by (simp add: float_text_def)
  qed (use JFloat assms in
      \<open>auto simp: float_text_def lit_def value_head_def is_ws_def split: if_splits\<close>)
qed (use assms in
    \<open>auto simp: value_head_def is_ws_def lit_def string_text_def res_simps split: if_splits\<close>)

lemma skip_ws_head: "value_head t \<Longrightarrow> skip_ws (t @ r) = t @ r"
  by (cases t) (auto simp: value_head_def skip_ws_def)

lemma skip_ws_blank: "list_all is_ws sp \<Longrightarrow> skip_ws (sp @ s) = skip_ws s"
  by (induction sp) (simp_all add: skip_ws_def)

lemma skip_ws_Cons: "\<not> is_ws c \<Longrightarrow> skip_ws (c # s) = c # s"
  by (simp add: skip_ws_def)

lemma map_res_Cons_Inr:
  "map_res f (x # xs) = Inr ts \<longleftrightarrow> (\<exists>t us. f x = Inr t \<and> map_res f xs = Inr us \<and> ts = t # us)"
  by (auto simp: res_simps)

lemma join_with_Cons: "join_with sep (t # ts) = t @ (if ts = [] then [] else sep @ join_with sep ts)"
  by (cases ts) simp_all

text \<open>A list of texts that are read back one by one is read back as a list.\<close>

lemma parse_elems_join:
  assumes "list_all is_ws sp" and "map_res g vs = Inr ts" and "vs \<noteq> []"
    and "\<And>v t n r. v \<in> set vs \<Longrightarrow> g v = Inr t \<Longrightarrow> number_stop r \<Longrightarrow> 2 * length t < n \<Longrightarrow>
          parse_value n (t @ r) = Inr (v, r)"
    and "\<And>v t. v \<in> set vs \<Longrightarrow> g v = Inr t \<Longrightarrow> value_head t"
    and "Suc (2 * length (join_with (44 # sp) ts)) < n"
  shows "parse_elems n (join_with (44 # sp) ts @ 93 # r) = Inr (vs, r)"
  using assms(2-)
proof (induction vs arbitrary: ts n)
  case (Cons v vs)
  then obtain t us where t: "g v = Inr t" and us: "map_res g vs = Inr us" "ts = t # us"
    by (auto simp: map_res_Cons_Inr simp del: map_res.simps)
  obtain m where n: "n = Suc m" using Cons.prems(5) by (cases n) auto
  let ?r = "(if us = [] then [] else (44 # sp) @ join_with (44 # sp) us) @ 93 # r"
  have len: "2 * length t < m" using Cons.prems(5) us(2) n by (simp add: join_with_Cons split: if_splits)
  have "number_stop ?r" by (simp add: number_stop_def is_digit_def)
  with Cons.prems(3) t len have v: "parse_value m (t @ ?r) = Inr (v, ?r)" by simp
  show ?case
  proof (cases "vs = []")
    case True
    then show ?thesis using v us n by (simp add: skip_ws_Cons is_ws_def)
  next
    case False
    then obtain v2 vs2 t2 us2 where c: "vs = v2 # vs2" "us = t2 # us2" "g v2 = Inr t2"
      using us(1) by (cases vs) (auto simp: map_res_Cons_Inr simp del: map_res.simps)
    have "value_head t2" by (rule Cons.prems(4) [OF _ c(3)]) (simp add: c(1))
    then have "skip_ws (sp @ join_with (44 # sp) us @ 93 # r) = join_with (44 # sp) us @ 93 # r"
      using assms(1) c(2) by (simp add: skip_ws_blank skip_ws_head join_with_Cons)
    moreover have "parse_elems m (join_with (44 # sp) us @ 93 # r) = Inr (vs, r)"
    proof (rule Cons.IH [OF us(1) False])
      show "parse_value i (t @ s) = Inr (w, s)"
        if "w \<in> set vs" "g w = Inr t" "number_stop s" "2 * length t < i" for w t i s
        using Cons.prems(3) [of w t s i] that by simp
      show "value_head t" if "w \<in> set vs" "g w = Inr t" for w t
        using Cons.prems(4) [of w t] that by simp
      show "Suc (2 * length (join_with (44 # sp) us)) < m"
        using Cons.prems(5) us c n by (simp add: join_with_Cons)
    qed
    ultimately show ?thesis using v us c n
      by (simp add: join_with_Cons skip_ws_Cons is_ws_def)
  qed
qed simp

definition member_text :: "bool \<Rightarrow> pystr \<Rightarrow> pystr \<Rightarrow> pystr \<times> json \<Rightarrow> pystr res" where
  "member_text asc isep ksep kv =
     bind_res (json_text asc isep ksep (snd kv)) (\<lambda>t. Inr (string_text asc (fst kv) @ ksep @ t))"

lemma member_text_Inr:
  "member_text asc isep ksep kv = Inr u \<longleftrightarrow>
     (\<exists>t. json_text asc isep ksep (snd kv) = Inr t \<and> u = string_text asc (fst kv) @ ksep @ t)"
  by (auto simp: member_text_def res_simps)

lemma json_text_JObj:
  "json_text asc isep ksep (JObj kvs) =
     bind_res (map_res (member_text asc isep ksep) kvs) (\<lambda>ts. Inr ([123] @ join_with isep ts @ [125]))"
  by (simp add: member_text_def [abs_def])

lemma parse_members_join:
  assumes sp: "list_all is_ws sp" and "map_res (member_text asc (44 # sp) (58 # sp)) kvs = Inr ts"
    and "kvs \<noteq> []" and "distinct (map fst acc @ map fst kvs)"
    and "\<And>k v t n r. (k, v) \<in> set kvs \<Longrightarrow> json_text asc (44 # sp) (58 # sp) v = Inr t \<Longrightarrow>
          number_stop r \<Longrightarrow> 2 * length t < n \<Longrightarrow> parse_value n (t @ r) = Inr (v, r)"
    and "\<And>k v. (k, v) \<in> set kvs \<Longrightarrow> wf_json v \<and> valid_str k \<and> (asc \<longrightarrow> scalar_str k)"
    and "Suc (2 * length (join_with (44 # sp) ts)) < n"
  shows "parse_members n (join_with (44 # sp) ts @ 125 # r) acc = Inr (acc @ kvs, r)"
  using assms(2-)
proof (induction kvs arbitrary: ts n acc)
  case (Cons kv kvs)
  obtain k v where kv: "kv = (k, v)" by (cases kv)
  with Cons.prems(1) obtain t us where t: "json_text asc (44 # sp) (58 # sp) v = Inr t"
    and us: "map_res (member_text asc (44 # sp) (58 # sp)) kvs = Inr us"
    and ts: "ts = (string_text asc k @ (58 # sp) @ t) # us"
    by (auto simp: map_res_Cons_Inr member_text_Inr simp del: map_res.simps)
  obtain m where n: "n = Suc m" using Cons.prems(6) by (cases n) auto
  let ?r = "(if us = [] then [] else (44 # sp) @ join_with (44 # sp) us) @ 125 # r"
  have k: "wf_json v" "valid_str k" "asc \<Longrightarrow> scalar_str k" using Cons.prems(5) kv by auto
  have len: "2 * length t < m"
    using Cons.prems(6) ts n by (simp add: join_with_Cons split: if_splits)
  have ns: "number_stop ?r" by (simp add: number_stop_def is_digit_def)
  have v: "parse_value m (t @ ?r) = Inr (v, ?r)"
    by (rule Cons.prems(4) [OF _ t ns len, of k]) (simp add: kv)
  have ws: "skip_ws (sp @ t @ ?r) = t @ ?r"
    using value_head_text [OF k(1) t] sp by (simp only: skip_ws_blank skip_ws_head)
  have set: "dict_set k v acc = acc @ [(k, v)]"
    using Cons.prems(3) kv by (intro dict_set_new) (auto simp: map_of_eq_None_iff)
  have str: "scan_string (concat (map (escape_char asc) k) @ 34 # s) = Inr (k, s)" for s
    using scan_string_text k by blast
  show ?case
  proof (cases "kvs = []")
    case True
    then show ?thesis using v us ts n ws set str kv
      by (simp add: string_text_def skip_ws_Cons is_ws_def)
  next
    case False
    then obtain t2 us2 where c: "us = t2 # us2" and "hd t2 = 34" "t2 \<noteq> []"
      using us by (cases kvs)
        (auto simp: map_res_Cons_Inr member_text_Inr string_text_def simp del: map_res.simps)
    then have "skip_ws (sp @ join_with (44 # sp) us @ 125 # r) = join_with (44 # sp) us @ 125 # r"
      using sp skip_ws_head [of t2] by (simp add: skip_ws_blank join_with_Cons value_head_def is_ws_def)
    moreover have "parse_members m (join_with (44 # sp) us @ 125 # r) (acc @ [(k, v)])
        = Inr ((acc @ [(k, v)]) @ kvs, r)"
    proof (rule Cons.IH [OF us False])
      show "distinct (map fst (acc @ [(k, v)]) @ map fst kvs)" using Cons.prems(3) kv by simp
      show "parse_value i (t @ s) = Inr (w, s)"
        if "(l, w) \<in> set kvs" "json_text asc (44 # sp) (58 # sp) w = Inr t" "number_stop s"
          "2 * length t < i" for l w t i s
        using Cons.prems(4) [of l w t s i] that by simp
      show "wf_json w \<and> valid_str l \<and> (asc \<longrightarrow> scalar_str l)" if "(l, w) \<in> set kvs" for l w
        using Cons.prems(5) [of l w] that by simp
      show "Suc (2 * length (join_with (44 # sp) us)) < m"
        using Cons.prems(6) ts c n by (simp add: join_with_Cons)
    qed
    ultimately show ?thesis using v us ts n ws set str c kv
      by (simp add: join_with_Cons string_text_def skip_ws_Cons is_ws_def)
  qed
qed simp

lemma parse_array_text:
  assumes sp: "list_all is_ws sp" and wf: "\<And>w. w \<in> set vs \<Longrightarrow> wf_json w"
    and out: "json_text asc (44 # sp) (58 # sp) (JArr vs) = Inr t" and n: "2 * length t < n"
    and elems: "\<And>w u i s. w \<in> set vs \<Longrightarrow> json_text asc (44 # sp) (58 # sp) w = Inr u \<Longrightarrow>
      number_stop s \<Longrightarrow> 2 * length u < i \<Longrightarrow> parse_value i (u @ s) = Inr (w, s)"
  shows "parse_value n (t @ r) = Inr (JArr vs, r)"
proof -
  from out obtain ts where ts: "map_res (json_text asc (44 # sp) (58 # sp)) vs = Inr ts"
    and t: "t = 91 # join_with (44 # sp) ts @ [93]"
    by (auto simp: res_simps)
  from n t obtain m where n: "n = Suc m" "Suc (2 * length (join_with (44 # sp) ts)) < m"
    by (cases n) auto
  show ?thesis
  proof (cases "vs = []")
    case True
    then show ?thesis using ts t n by (simp add: skip_ws_Cons is_ws_def)
  next
    case False
    have e: "parse_elems m (join_with (44 # sp) ts @ 93 # r) = Inr (vs, r)"
      by (rule parse_elems_join [OF sp ts False elems value_head_text [OF wf] n(2)])
    obtain w ws u us where c: "vs = w # ws" "ts = u # us" "json_text asc (44 # sp) (58 # sp) w = Inr u"
      using False ts by (cases vs) (auto simp: map_res_Cons_Inr simp del: map_res.simps)
    then have "value_head u" using value_head_text [OF wf c(3)] by simp
    then obtain d u' where "u = d # u'" "\<not> is_ws d" "d \<noteq> 93"
      by (cases u) (auto simp: value_head_def)
    then show ?thesis using e t n c by (simp add: join_with_Cons skip_ws_Cons)
  qed
qed

lemma parse_object_text:
  assumes sp: "list_all is_ws sp" and dist: "distinct (map fst kvs)"
    and wf: "\<And>k w. (k, w) \<in> set kvs \<Longrightarrow> wf_json w \<and> valid_str k \<and> (asc \<longrightarrow> scalar_str k)"
    and out: "json_text asc (44 # sp) (58 # sp) (JObj kvs) = Inr t" and n: "2 * length t < n"
    and items: "\<And>k w u i s. (k, w) \<in> set kvs \<Longrightarrow> json_text asc (44 # sp) (58 # sp) w = Inr u \<Longrightarrow>
      number_stop s \<Longrightarrow> 2 * length u < i \<Longrightarrow> parse_value i (u @ s) = Inr (w, s)"
  shows "parse_value n (t @ r) = Inr (JObj kvs, r)"
proof -
  from out obtain ts where ts: "map_res (member_text asc (44 # sp) (58 # sp)) kvs = Inr ts"
    and t: "t = 123 # join_with (44 # sp) ts @ [125]"
    by (auto simp: json_text_JObj res_simps simp del: json_text.simps)
  from n t obtain m where n: "n = Suc m" "Suc (2 * length (join_with (44 # sp) ts)) < m"
    by (cases n) auto
  show ?thesis
  proof (cases "kvs = []")
    case True
    then show ?thesis using ts t n by (simp add: skip_ws_Cons is_ws_def)
  next
    case False
    have e: "parse_members m (join_with (44 # sp) ts @ 125 # r) [] = Inr ([] @ kvs, r)"
      by (rule parse_members_join [OF sp ts False _ items wf n(2)]) (simp add: dist)
    obtain u us where c: "ts = (34 # u) # us"
      using False ts by (cases kvs)
        (auto simp: map_res_Cons_Inr member_text_Inr string_text_def simp del: map_res.simps)
    then show ?thesis using e t n by (simp add: join_with_Cons skip_ws_Cons is_ws_def)
  qed
qed

lemma parse_value_text:
  assumes sp: "list_all is_ws sp"
  shows "wf_json v \<Longrightarrow> (asc \<Longrightarrow> scalar_json v) \<Longrightarrow> json_text asc (44 # sp) (58 # sp) v = Inr t \<Longrightarrow>
    number_stop r \<Longrightarrow> 2 * length t < n \<Longrightarrow> parse_value n (t @ r) = Inr (v, r)"
proof (induction v arbitrary: t n r)
  case JNull
  then show ?case
    by (cases n) (auto simp: lit_def scan_atom_def literals_def startswith_def)
next
  case (JBool b)
  then show ?case
    by (cases n; cases b) (auto simp: lit_def scan_atom_def literals_def startswith_def)
next
  case (JInt i)
  then show ?case by (cases n) (simp_all add: parse_value_int del: parse_value.simps)
next
  case (JFloat f)
  then show ?case by (cases n) (auto simp: parse_value_float simp del: parse_value.simps)
next
  case (JStr s)
  then show ?case by (cases n) (auto simp: string_text_def scan_string_text)
next
  case (JArr vs)
  show ?case
    by (rule parse_array_text [OF sp _ JArr.prems(3,5)])
      (use JArr.IH JArr.prems(1,2) in \<open>auto simp: list_all_iff\<close>)
next
  case (JObj kvs)
  have wf: "wf_json w" "asc \<Longrightarrow> scalar_json w" "valid_str k" "asc \<Longrightarrow> scalar_str k"
    if "(k, w) \<in> set kvs" for k w
    using JObj.prems(1,2) that by (auto simp: list_all_iff)
  show ?case
  proof (rule parse_object_text [OF sp _ _ JObj.prems(3,5)])
    show "distinct (map fst kvs)" using JObj.prems(1) by (simp add: wf_dict_def)
    show "wf_json w \<and> valid_str k \<and> (asc \<longrightarrow> scalar_str k)" if "(k, w) \<in> set kvs" for k w
      using wf that by blast
    show "parse_value i (u @ s) = Inr (w, s)" if "(k, w) \<in> set kvs"
      "json_text asc (44 # sp) (58 # sp) w = Inr u" "number_stop s" "2 * length u < i" for k w u i s
      using JObj.IH [OF that(1) _ wf(1,2), of w] that by auto
  qed
qed

text \<open>\<open>loads\<close> undoes the compact \<open>dumps\<close> of the server and the client.\<close>

lemma json_text_loads:
  assumes "list_all is_ws sp" and "wf_json v" and "asc \<Longrightarrow> scalar_json v"
    and t: "json_text asc (44 # sp) (58 # sp) v = Inr t"
  shows "json_loads t = Inr v"
proof -
  have h: "value_head t" using value_head_text assms(2) t by blast
  have "parse_value (Suc (2 * length t)) (t @ []) = Inr (v, [])"
    by (rule parse_value_text [OF assms]) (simp_all add: number_stop_def)
  then show ?thesis
    using h skip_ws_head [OF h, of "[]"]
    by (simp add: json_loads_def value_head_def skip_ws_def del: parse_value.simps)
qed

theorem json_loads_dumps:
  "wf_json v \<Longrightarrow> json_dumps v = Inr t \<Longrightarrow> json_loads t = Inr v"
  using json_text_loads [of "[]" v False t] by (simp add: json_dumps_def)

theorem json_loads_dumps_default:
  "wf_json v \<Longrightarrow> scalar_json v \<Longrightarrow> json_dumps_default v = Inr t \<Longrightarrow> json_loads t = Inr v"
  using json_text_loads [of "[32]" v True t] by (simp add: json_dumps_default_def lit_def is_ws_def)

section \<open>The characters of a written text\<close>

text \<open>A property of every string inside a value.\<close>

fun strs_ok :: "(int \<Rightarrow> bool) \<Rightarrow> json \<Rightarrow> bool" where
  "strs_ok R (JStr s) = list_all R s"
| "strs_ok R (JArr vs) = list_all (strs_ok R) vs"
| "strs_ok R (JObj kvs) = list_all (\<lambda>kv. list_all R (fst kv) \<and> strs_ok R (snd kv)) kvs"
| "strs_ok R _ = True"

lemma strs_ok_mono: "strs_ok R v \<Longrightarrow> (\<And>c. R c \<Longrightarrow> R' c) \<Longrightarrow> strs_ok R' v"
proof (induction v)
  case (JObj kvs)
  then show ?case by (fastforce simp: list_all_iff)
qed (auto simp: list_all_iff)

lemma wf_json_strs_ok: "wf_json v \<Longrightarrow> strs_ok (\<lambda>c. 0 \<le> c \<and> c < 1114112) v"
proof (induction v)
  case (JObj kvs)
  then show ?case by (fastforce simp: list_all_iff valid_str_def)
qed (auto simp: list_all_iff valid_str_def)

lemma scalar_json_strs_ok:
  "scalar_json v = strs_ok (\<lambda>c. 0 \<le> c \<and> c < 1114112 \<and> \<not> is_surrogate c) v"
proof (induction v)
  case (JObj kvs)
  then show ?case by (fastforce simp: list_all_iff scalar_str_def)
qed (auto simp: list_all_iff scalar_str_def)

text \<open>A written text has the printable ASCII characters and what its strings hold from blank on.\<close>

locale text_chars =
  fixes Q R :: "int \<Rightarrow> bool"
  assumes ascii: "32 \<le> c \<Longrightarrow> c < 127 \<Longrightarrow> Q c"
    and strs: "R c \<Longrightarrow> 32 \<le> c \<Longrightarrow> Q c"
    and nonneg: "R c \<Longrightarrow> 0 \<le> c"
begin

lemma hex_pad_chars: "0 \<le> c \<Longrightarrow> list_all Q (hex_pad n c)"
  by (induction n arbitrary: c) (auto simp: hex_digit_def intro!: ascii)

lemma escape_char_chars:
  assumes "R c"
  shows "list_all Q (escape_char asc c)"
proof (cases "short_escape c")
  case (Some d)
  then have "32 \<le> d \<and> d < 127" by (auto simp: short_escape_def split: if_splits)
  then show ?thesis using Some by (simp add: escape_char_def ascii)
next
  case None
  then show ?thesis using assms nonneg [OF assms]
    by (auto simp: escape_char_def unicode_escape_def Let_def hex_pad_chars ascii strs)
qed

lemma string_text_chars: "list_all R s \<Longrightarrow> list_all Q (string_text asc s)"
  by (induction s) (simp_all add: string_text_def ascii escape_char_chars)

lemma plain_chars: "plain_text s \<Longrightarrow> list_all Q s"
  by (auto simp: plain_text_def list_all_iff ascii)

lemma join_chars: "list_all Q sep \<Longrightarrow> list_all (list_all Q) ts \<Longrightarrow> list_all Q (join_with sep ts)"
  by (induction sep ts rule: join_with.induct) auto

lemma map_res_chars:
  "map_res f xs = Inr ts \<Longrightarrow> (\<And>x t. x \<in> set xs \<Longrightarrow> f x = Inr t \<Longrightarrow> list_all Q t) \<Longrightarrow>
     list_all (list_all Q) ts"
proof (induction xs arbitrary: ts)
  case (Cons x xs)
  then obtain t us where t: "f x = Inr t" "map_res f xs = Inr us" "ts = t # us"
    by (auto simp: map_res_Cons_Inr simp del: map_res.simps)
  then have "list_all (list_all Q) us" "list_all Q t"
    using Cons.IH [OF t(2)] Cons.prems(2) by auto
  then show ?case using t by simp
qed simp

lemma int_repr_chars: "list_all Q (int_repr i)"
  using int_digits_all_digits [of i] int_digits_all_digits [of "- i"]
  by (auto simp: int_repr_def plain_chars plain_digits ascii)

lemma float_text_chars: "canonical f \<Longrightarrow> list_all Q (float_text f)"
  by (cases f) (auto simp: float_text_def lit_def ascii intro!: plain_chars plain_float_repr
      simp del: float_repr.simps)

lemma json_text_chars:
  assumes sep: "list_all Q isep" "list_all Q ksep"
  shows "strs_ok R v \<Longrightarrow> wf_json v \<Longrightarrow> json_text asc isep ksep v = Inr t \<Longrightarrow> list_all Q t"
proof (induction v arbitrary: t)
  case (JInt i)
  then show ?case by (auto simp: py_str_int_def int_repr_chars split: if_splits)
next
  case (JArr vs)
  then obtain ts where ts: "map_res (json_text asc isep ksep) vs = Inr ts" "t = 91 # join_with isep ts @ [93]"
    by (auto simp: res_simps)
  have "list_all (list_all Q) ts"
    by (rule map_res_chars [OF ts(1)]) (use JArr in \<open>auto simp: list_all_iff\<close>)
  then show ?case using ts(2) sep by (simp add: join_chars ascii)
next
  case (JObj kvs)
  from JObj.prems(3) obtain ts where ts: "map_res (member_text asc isep ksep) kvs = Inr ts"
    "t = 123 # join_with isep ts @ [125]"
    by (auto simp: json_text_JObj res_simps simp del: json_text.simps)
  have "list_all Q u" if kv: "kv \<in> set kvs" and m: "member_text asc isep ksep kv = Inr u" for kv u
  proof -
    obtain w where w: "json_text asc isep ksep (snd kv) = Inr w"
      "u = string_text asc (fst kv) @ ksep @ w"
      using m by (auto simp: member_text_Inr)
    have "list_all R (fst kv)" "strs_ok R (snd kv)" "wf_json (snd kv)"
      using JObj.prems(1,2) kv by (auto simp: list_all_iff)
    then show ?thesis using JObj.IH [OF kv _ _ _ w(1)] w(2) sep(2)
      by (cases kv) (simp add: string_text_chars)
  qed
  then have "list_all (list_all Q) ts" by (rule map_res_chars [OF ts(1)])
  then show ?case using ts(2) sep by (simp add: join_chars ascii)
qed (auto simp: lit_def ascii float_text_chars string_text_chars split: if_splits)

end

interpretation unicode_text: text_chars "\<lambda>c. 32 \<le> c \<and> c < 1114112" "\<lambda>c. 0 \<le> c \<and> c < 1114112"
  by unfold_locales auto

interpretation scalar_text: text_chars "\<lambda>c. 32 \<le> c \<and> c < 1114112 \<and> \<not> is_surrogate c"
    "\<lambda>c. 0 \<le> c \<and> c < 1114112 \<and> \<not> is_surrogate c"
  by unfold_locales (auto simp: is_surrogate_def)

lemma json_dumps_chars:
  "wf_json v \<Longrightarrow> json_dumps v = Inr t \<Longrightarrow> list_all (\<lambda>c. 32 \<le> c \<and> c < 1114112) t"
  by (rule unicode_text.json_text_chars [OF _ _ wf_json_strs_ok]) (auto simp: json_dumps_def)

lemma json_dumps_scalar:
  "wf_json v \<Longrightarrow> scalar_json v \<Longrightarrow> json_dumps v = Inr t \<Longrightarrow> scalar_str t"
  using scalar_text.json_text_chars [of "[44]" "[58]" v False t]
  by (auto simp: json_dumps_def scalar_json_strs_ok scalar_str_def list_all_iff is_surrogate_def)

section \<open>What the reader returns is well formed\<close>

lemma valid_str_Cons [simp]: "valid_str (c # s) \<longleftrightarrow> 0 \<le> c \<and> c < 1114112 \<and> valid_str s"
  by (simp add: valid_str_def)

lemma valid_skip_ws: "valid_str s \<Longrightarrow> valid_str (skip_ws s)"
  by (rule valid_str_subset [of _ s]) (auto simp: skip_ws_def dest: set_dropWhileD)

lemma valid_skip_ws_Cons: "skip_ws s = c # t \<Longrightarrow> valid_str s \<Longrightarrow> valid_str t"
  using valid_skip_ws [of s] by simp

lemma valid_str_drop: "valid_str s \<Longrightarrow> valid_str (drop n s)"
  by (rule valid_str_subset [of _ s]) (auto dest: in_set_dropD)

lemma scan_hex4_range: "scan_hex4 s = Some (c, r) \<Longrightarrow> 0 \<le> c \<and> c < 65536 \<and> r = drop 4 s"
proof -
  assume "scan_hex4 s = Some (c, r)"
  then have l: "4 \<le> length s" "list_all is_hex (take 4 s)" "r = drop 4 s"
    "c = digits_value 16 (map hex_value (take 4 s))"
    by (auto simp: scan_hex4_def split: if_splits)
  from l(1) obtain a b d e t where s: "s = a # b # d # e # t"
    by (auto simp: numeral_eq_Suc Suc_le_length_iff)
  have h: "0 \<le> hex_value x \<and> hex_value x < 16" if "is_hex x" for x
    using that by (auto simp: is_hex_def hex_value_def is_digit_def)
  show ?thesis using l h [of a] h [of b] h [of d] h [of e] by (simp add: s digits_value_def)
qed

lemma scan_unicode_escape_range:
  "scan_unicode_escape s = Some (c, r) \<Longrightarrow> valid_str s \<Longrightarrow> 0 \<le> c \<and> c < 1114112 \<and> valid_str r"
  by (auto simp: scan_unicode_escape_def join_surrogates_def high_surrogate_def low_surrogate_def
      valid_str_drop dest!: scan_hex4_range split: option.splits if_splits)

lemma simple_escape_range: "simple_escape d = Some c \<Longrightarrow> 0 \<le> c \<and> c < 1114112"
  by (auto simp: simple_escape_def split: if_splits)

lemma scan_string_valid:
  "scan_string s = Inr (x, r) \<Longrightarrow> valid_str s \<Longrightarrow> valid_str x \<and> valid_str r"
proof (induction s arbitrary: x r rule: scan_string_induct)
  case (unicode u)
  from unicode.prems obtain c r1 xs where "scan_unicode_escape u = Some (c, r1)"
    and "scan_string r1 = Inr (xs, r)" and "x = c # xs" and "valid_str u"
    by (auto simp: scan_string_cases res_simps split: option.splits)
  then show ?case using unicode.IH [of c r1 xs r] scan_unicode_escape_range [of u c r1] by simp
next
  case (escape d u)
  then show ?case
    by (fastforce simp: scan_string_cases res_simps dest: simple_escape_range split: option.splits)
next
  case (other c t)
  then show ?case by (fastforce simp: scan_string_cases res_simps split: if_splits)
qed (simp_all add: scan_string_cases)

lemma scan_int_part_digits_all: "scan_int_part s = Some (ip, r) \<Longrightarrow> list_all is_digit ip"
  by (auto simp: scan_int_part_def is_digit_def dest: split_span_all split: list.splits if_splits)

lemma scan_frac_digits_all: "scan_frac s = (fp, r) \<Longrightarrow> list_all is_digit fp"
  by (auto simp: scan_frac_def dest: split_span_all split: list.splits if_splits)

lemma scan_number_wf: "scan_number s = Inr (v, r) \<Longrightarrow> wf_json v"
  by (auto simp: scan_number_def Let_def dest!: scan_int_part_digits_all scan_frac_digits_all
      intro!: canonical_float_of_decimal decimal_int_nonneg split: option.splits prod.splits if_splits)

lemma scan_number_suffix: "scan_number s = Inr (v, r) \<Longrightarrow> set r \<subseteq> set s"
proof -
  have span: "set b \<subseteq> set u" if "split_span is_digit u = (a, b)" for u a b
    using split_span_append [OF that] by auto
  have i: "set b \<subseteq> set u" if "scan_int_part u = Some (a, b)" for u a b
    using that span by (fastforce simp: scan_int_part_def split: list.splits if_splits)
  have f: "set b \<subseteq> set u" if "scan_frac u = (a, b)" for u a b
    using that span by (fastforce simp: scan_frac_def split: list.splits if_splits)
  have e: "set b \<subseteq> set u" if "scan_exp u = (a, b)" for u a b
    using that span by (fastforce simp: scan_exp_def split_sign_def Let_def
        split: list.splits if_splits prod.splits)
  assume "scan_number s = Inr (v, r)"
  moreover define u where "u = (if s \<noteq> [] \<and> hd s = 45 then tl s else s)"
  ultimately obtain ip r0 fp r1 ex where "scan_int_part u = Some (ip, r0)"
    "scan_frac r0 = (fp, r1)" "scan_exp r1 = (ex, r)"
    by (simp add: scan_number_def Let_def del: split_paired_All
        split: option.splits prod.splits if_split_asm)
  moreover have "set u \<subseteq> set s" by (cases s) (auto simp: u_def)
  ultimately show ?thesis using i f e by blast
qed

lemma scan_atom_wf: "scan_atom s = Inr (v, r) \<Longrightarrow> valid_str s \<Longrightarrow> wf_json v \<and> valid_str r"
proof -
  assume s: "scan_atom s = Inr (v, r)" "valid_str s"
  show ?thesis
  proof (cases "List.find (\<lambda>l. startswith (fst l) s) literals")
    case None
    then have n: "scan_number s = Inr (v, r)" using s by (simp add: scan_atom_def)
    then show ?thesis
      using scan_number_wf [OF n] valid_str_subset [OF scan_number_suffix [OF n]] s(2) by simp
  next
    case (Some l)
    then have "l \<in> set literals" by (auto simp: find_Some_iff)
    then have "wf_json (snd l)" by (auto simp: literals_def)
    then show ?thesis using s Some by (cases l) (auto simp: scan_atom_def valid_str_drop)
  qed
qed

lemma list_all_dict_set: "P (k, v) \<Longrightarrow> list_all P d \<Longrightarrow> list_all P (dict_set k v d)"
  by (induction d) auto

lemma parse_members_wf_step:
  assumes "parse_members (Suc n) s acc = Inr (kvs, r)" and "valid_str s" and "wf_json (JObj acc)"
    and V: "\<And>s v r. parse_value n s = Inr (v, r) \<Longrightarrow> valid_str s \<Longrightarrow> wf_json v \<and> valid_str r"
    and M: "\<And>s acc kvs r. parse_members n s acc = Inr (kvs, r) \<Longrightarrow> valid_str s \<Longrightarrow>
      wf_json (JObj acc) \<Longrightarrow> wf_json (JObj kvs) \<and> valid_str r"
  shows "wf_json (JObj kvs) \<and> valid_str r"
  using assms(1)
proof (cases rule: parse_members_Inr)
  case (1 t k r0 r1 v r2 d r3)
  have "valid_str t" using 1(1) assms(2) by simp
  then have k: "valid_str k" "valid_str r0" using scan_string_valid [OF 1(2)] by simp_all
  then have "valid_str (skip_ws r1)" using valid_skip_ws_Cons [OF 1(3)] valid_skip_ws by blast
  then have v: "wf_json v" "valid_str r2" using V [OF 1(4)] by blast+
  then have r3: "valid_str r3" using valid_skip_ws_Cons [OF 1(5)] by blast
  have "wf_json (JObj (dict_set k v acc))"
  proof -
    have "wf_dict (dict_set k v acc)" using assms(3) by (intro wf_dict_set) simp
    moreover have "list_all (\<lambda>kv. valid_str (fst kv) \<and> wf_json (snd kv)) (dict_set k v acc)"
      by (rule list_all_dict_set) (use assms(3) k(1) v(1) in simp_all)
    ultimately show ?thesis by simp
  qed
  then show ?thesis using 1(6) M r3 valid_skip_ws by blast
qed

lemma parse_elems_wf_step:
  assumes "parse_elems (Suc n) s = Inr (vs, r)" and "valid_str s"
    and V: "\<And>s v r. parse_value n s = Inr (v, r) \<Longrightarrow> valid_str s \<Longrightarrow> wf_json v \<and> valid_str r"
    and E: "\<And>s vs r. parse_elems n s = Inr (vs, r) \<Longrightarrow> valid_str s \<Longrightarrow> wf_json (JArr vs) \<and> valid_str r"
  shows "wf_json (JArr vs) \<and> valid_str r"
  using assms(1)
proof (cases rule: parse_elems_Inr)
  case (1 v r0 d r1)
  have v: "wf_json v" "valid_str r0" using V [OF 1(1) assms(2)] by blast+
  then have "valid_str r1" using valid_skip_ws_Cons [OF 1(2)] by blast
  then show ?thesis using 1(3) E v valid_skip_ws by fastforce
qed

lemma parse_wf_all:
  "(\<forall>s v r. valid_str s \<longrightarrow> parse_value n s = Inr (v, r) \<longrightarrow> wf_json v \<and> valid_str r) \<and>
   (\<forall>s acc kvs r. valid_str s \<longrightarrow> wf_json (JObj acc) \<longrightarrow> parse_members n s acc = Inr (kvs, r) \<longrightarrow>
      wf_json (JObj kvs) \<and> valid_str r) \<and>
   (\<forall>s vs r. valid_str s \<longrightarrow> parse_elems n s = Inr (vs, r) \<longrightarrow> wf_json (JArr vs) \<and> valid_str r)"
proof (induction n)
  case (Suc n)
  have V: "wf_json v \<and> valid_str r" if "parse_value n s = Inr (v, r)" "valid_str s" for s v r
    using Suc that by blast
  have M: "wf_json (JObj kvs) \<and> valid_str r"
    if "parse_members n s acc = Inr (kvs, r)" "valid_str s" "wf_json (JObj acc)" for s acc kvs r
    using Suc that by blast
  have E: "wf_json (JArr vs) \<and> valid_str r" if "parse_elems n s = Inr (vs, r)" "valid_str s" for s vs r
    using Suc that by blast
  have tl: "valid_str (skip_ws (tl s))" if "valid_str s" for s
    using that by (cases s) (simp_all add: valid_skip_ws)
  have "wf_json v \<and> valid_str r" if "parse_value (Suc n) s = Inr (v, r)" "valid_str s" for s v r
    using that(1)
  proof (cases rule: parse_value_Inr)
    case (1 x)
    then show ?thesis using scan_string_valid that(2) by (cases s) auto
  next
    case 2
    then show ?thesis using tl [OF that(2)] by simp
  next
    case (3 kvs)
    then show ?thesis using M tl that(2) by fastforce
  next
    case 4
    then show ?thesis using tl [OF that(2)] by simp
  next
    case (5 vs)
    then show ?thesis using E tl that(2) by blast
  next
    case 6
    then show ?thesis using scan_atom_wf that(2) by blast
  qed
  moreover have "wf_json (JObj kvs) \<and> valid_str r"
    if "parse_members (Suc n) s acc = Inr (kvs, r)" "valid_str s" "wf_json (JObj acc)" for s acc kvs r
    by (rule parse_members_wf_step [OF that V M])
  moreover have "wf_json (JArr vs) \<and> valid_str r"
    if "parse_elems (Suc n) s = Inr (vs, r)" "valid_str s" for s vs r
    by (rule parse_elems_wf_step [OF that V E])
  ultimately show ?case by blast
qed simp_all

lemma parse_value_wf:
  "parse_value n s = Inr (v, r) \<Longrightarrow> valid_str s \<Longrightarrow> wf_json v \<and> valid_str r"
  using parse_wf_all [of n] by blast

theorem json_loads_wf: "json_loads s = Inr v \<Longrightarrow> valid_str s \<Longrightarrow> wf_json v"
  by (auto simp: json_loads_def res_simps simp del: parse_value.simps split: if_splits
      dest!: parse_value_wf intro: valid_skip_ws)

end
