(* ===== verification/LS1000_Facts.thy ===== *)
theory LS1000_Facts
  imports LS1000_Parser Json_Roundtrip
begin

text \<open>
  What \<open>stream_handler/ls1000_parser.py\<close> guarantees: which exceptions its helpers can raise, that
  the text formats never raise, what an event of each message type looks like, and that a
  message written from an event's values is read back to them.
\<close>

section \<open>Which conversions raise, and what\<close>

text \<open>The exceptions that leave \<open>parse_message\<close>: those of \<open>int(f)\<close>, \<open>float(i)\<close> and \<open>str(i)\<close>.\<close>

definition number_error :: "py_exc \<Rightarrow> bool" where
  "number_error e \<longleftrightarrow> e = ValueError \<or> e = OverflowError"

lemma number_error_intros [simp]: "number_error ValueError" "number_error OverflowError"
  by (simp_all add: number_error_def)

lemma py_int_error: "py_int s = Inl e \<Longrightarrow> e = ValueError"
  by (auto simp: py_int_def split: prod.splits option.splits if_splits)

lemma py_int16_error: "py_int16 s = Inl e \<Longrightarrow> e = ValueError"
  by (auto simp: py_int16_def split: prod.splits option.splits)

lemma py_float_error: "py_float s = Inl e \<Longrightarrow> e = ValueError"
  by (auto simp: py_float_def Let_def split: option.splits if_splits)

lemma on_ValueError_total: "(\<And>e. m = Inl e \<Longrightarrow> e = ValueError) \<Longrightarrow> \<exists>a. on_ValueError m d = Inr a"
  by (cases m) auto

text \<open>The field parsers are total on text.\<close>

lemma ls_parse_int_str: "\<exists>r. ls_parse_int it (JStr s) = Inr r"
  by (auto simp: Let_def res_simps intro!: on_ValueError_total
      dest: py_int_error py_int16_error split: if_splits)

lemma ls_parse_float_str: "\<exists>r. ls_parse_float (JStr s) = Inr r"
  by (auto simp: Let_def res_simps intro!: on_ValueError_total dest: py_float_error)

lemma py_int_of_float_error: "py_int_of_float f = Inl e \<Longrightarrow> number_error e"
  by (cases f) (auto split: prod.splits)

lemma py_float_of_int_error: "py_float_of_int i = Inl e \<Longrightarrow> number_error e"
  by (auto simp: py_float_of_int_def split: pyfloat.splits)

lemma py_str_int_error: "py_str_int i = Inl e \<Longrightarrow> number_error e"
  by (auto simp: py_str_int_def split: if_splits)

lemma ls_parse_int_error: "ls_parse_int it v = Inl e \<Longrightarrow> number_error e"
proof (cases v)
  case (JStr s)
  then show "ls_parse_int it v = Inl e \<Longrightarrow> ?thesis" using ls_parse_int_str [of it s] by auto
qed (auto simp: res_simps dest: py_int_of_float_error)

lemma ls_parse_float_error: "ls_parse_float v = Inl e \<Longrightarrow> number_error e"
proof (cases v)
  case (JStr s)
  then show "ls_parse_float v = Inl e \<Longrightarrow> ?thesis" using ls_parse_float_str [of s] by auto
qed (auto simp: res_simps dest: py_float_of_int_error)

lemma map_res_error:
  "map_res f xs = Inl e \<Longrightarrow> (\<And>x. x \<in> set xs \<Longrightarrow> f x = Inl e \<Longrightarrow> P) \<Longrightarrow> P"
  by (induction xs) (auto simp: res_simps)

lemma py_repr_error: "py_repr it v = Inl e \<Longrightarrow> number_error e"
proof (induction v)
  case (JArr vs)
  then show ?case by (auto simp: res_simps elim: map_res_error)
next
  case (JObj kvs)
  then show ?case by (fastforce simp: res_simps elim: map_res_error)
qed (auto dest: py_str_int_error)

lemma py_str_error: "py_str it v = Inl e \<Longrightarrow> number_error e"
  by (cases v) (auto simp: py_str_def dest: py_repr_error py_str_int_error simp del: py_repr.simps)

section \<open>The readers of alternative names\<close>

definition text_of :: "interp \<Rightarrow> json \<Rightarrow> pystr option res" where
  "text_of it v =
     (if v = JNull then Inr None
      else bind_res (py_str it v) (\<lambda>t. Inr (if strip t = [] then None else Some (strip t))))"

interpretation int_reader: field_reader "ls_parse_int it" "ls_first_int it" for it
  by unfold_locales (auto simp: has_key_def get_or_null_def)

interpretation float_reader: field_reader ls_parse_float ls_first_float
  by unfold_locales (auto simp: has_key_def get_or_null_def)

interpretation str_reader: field_reader "text_of it" "ls_first_str it" for it
proof unfold_locales
  show "ls_first_str it d (k # ks) = bind_res (text_of it (get_or_null d k))
      (\<lambda>r. case r of Some v \<Rightarrow> Inr (Some v) | None \<Rightarrow> ls_first_str it d ks)" for d k ks
    by (cases "py_str it (get_or_null d k)") (simp_all add: text_of_def Let_def)
qed (simp_all add: text_of_def)

section \<open>Coordinates in text\<close>

lemma udigit_to_ascii: "is_udigit c \<Longrightarrow> is_digit (to_ascii c)"
proof -
  assume "is_udigit c"
  then obtain z where z: "List.find (\<lambda>z. z \<le> c \<and> c \<le> z + 9) decimal_zeros = Some z"
    by (auto simp: is_udigit_def decimal_value_def)
  then have b: "z \<in> set decimal_zeros" "z \<le> c" "c \<le> z + 9"
    by (auto simp: find_Some_iff)
  have "list_all (\<lambda>z. z = 48 \<or> 161 \<le> z \<and> (z + 9 < 5760 \<or> 5760 < z \<and> z + 9 < 8192 \<or> 12288 < z))
      decimal_zeros"
    by (simp add: decimal_zeros_def)
  then have "z = 48 \<or> 161 \<le> z \<and> (z + 9 < 5760 \<or> 5760 < z \<and> z + 9 < 8192 \<or> 12288 < z)"
    using b(1) by (auto simp: list_all_iff)
  then have "\<not> is_space c \<and> (c < 127 \<longrightarrow> z = 48)"
    using b(2,3) unfolding is_space_def by presburger
  then show "is_digit (to_ascii c)"
    using b z by (auto simp: to_ascii_def decimal_value_def is_digit_def)
qed

lemma udigits_to_ascii: "list_all is_udigit ds \<Longrightarrow> list_all is_digit (map to_ascii ds)"
  by (induction ds) (auto simp: udigit_to_ascii)

lemma py_float_to_ascii: "plain_text (map to_ascii s) \<Longrightarrow> py_float s = py_float (map to_ascii s)"
  by (simp only: py_float_def plain_to_ascii)

lemma parse_decimal_digits:
  assumes "list_all is_digit ds" and "ds \<noteq> []" and "list_all is_digit fs"
  shows "\<exists>f. parse_decimal neg (ds @ (if fs = [] then [] else 46 # fs)) = Some f"
proof -
  have "split_span is_digit (ds @ (if fs = [] then [] else 46 # fs))
      = (ds, if fs = [] then [] else 46 # fs)"
    using assms(1) by (intro split_span_prefix) (auto simp: is_digit_def)
  moreover have "split_span is_digit (fs @ []) = (fs, [])"
    by (rule split_span_prefix [OF assms(3)]) simp
  ultimately show ?thesis using assms(2)
    by (simp add: parse_decimal_def parse_fraction_def)
qed

lemma float_of_ascii_digit:
  "s \<noteq> [] \<Longrightarrow> is_digit (hd s) \<Longrightarrow> sg = [] \<or> sg = [45] \<or> sg = [43] \<Longrightarrow>
     float_of_ascii (sg @ s) = parse_decimal (sg = [45]) s"
  by (cases s) (auto simp: float_of_ascii_def split_sign_def is_digit_def lit_def ascii_lower_def)

lemma match_unsigned_parts:
  assumes "match_unsigned s = Some (m, r)"
  obtains ds fs where "m = ds @ (if fs = [] then [] else 46 # fs)" and "ds \<noteq> []"
    and "list_all is_udigit ds" and "list_all is_udigit fs"
proof -
  obtain ds u where u: "split_span is_udigit s = (ds, u)" by fastforce
  note ds = split_span_all [OF u]
  show thesis
  proof (cases u)
    case Nil
    then show thesis using that [of ds "[]"] assms u ds
      by (auto simp: match_unsigned_def split: if_splits)
  next
    case (Cons c t)
    obtain fs r' where f: "split_span is_udigit t = (fs, r')" by fastforce
    then show thesis
      using that [of ds "[]"] that [of ds fs] assms u ds split_span_all [OF f] Cons
      by (auto simp: match_unsigned_def split: if_splits)
  qed
qed

lemma match_coord_parts:
  assumes "match_coord s = Some (m, r)"
  obtains sg ds fs where "m = sg @ ds @ (if fs = [] then [] else 46 # fs)" and "ds \<noteq> []"
    and "sg = [] \<or> sg = [45] \<or> sg = [43]" and "list_all is_udigit ds" and "list_all is_udigit fs"
proof -
  consider c t m' where "s = c # t" "c = 45 \<or> c = 43" "m = c # m'" "match_unsigned t = Some (m', r)"
    | "match_unsigned s = Some (m, r)"
    using assms by (auto simp: match_coord_def split: list.splits if_splits)
  then show thesis
  proof cases
    case (1 c t m')
    obtain ds fs where "m' = ds @ (if fs = [] then [] else 46 # fs)" "ds \<noteq> []"
      "list_all is_udigit ds" "list_all is_udigit fs"
      using match_unsigned_parts [OF 1(4)] by blast
    then show thesis using 1 by (intro that [of "[c]" ds fs]) auto
  next
    case 2
    obtain ds fs where "m = ds @ (if fs = [] then [] else 46 # fs)" "ds \<noteq> []"
      "list_all is_udigit ds" "list_all is_udigit fs"
      using match_unsigned_parts [OF 2] by blast
    then show thesis by (intro that [of "[]" ds fs]) auto
  qed
qed

lemma py_float_coord:
  assumes "match_coord s = Some (m, r)"
  shows "\<exists>f. py_float m = Inr f"
proof -
  obtain sg ds fs where m: "m = sg @ ds @ (if fs = [] then [] else 46 # fs)" and "ds \<noteq> []"
    and sg: "sg = [] \<or> sg = [45] \<or> sg = [43]"
    and d: "list_all is_udigit ds" "list_all is_udigit fs"
    using match_coord_parts [OF assms] by blast
  define as bs where "as = map to_ascii ds" and "bs = map to_ascii fs"
  have ab: "list_all is_digit as" "list_all is_digit bs" "as \<noteq> []"
    using udigits_to_ascii d \<open>ds \<noteq> []\<close> by (simp_all add: as_def bs_def)
  let ?u = "as @ (if bs = [] then [] else 46 # bs)"
  have t: "map to_ascii m = sg @ ?u" using sg by (auto simp: m as_def bs_def)
  have p: "plain_text (sg @ ?u)" using sg ab by (auto simp: plain_digits)
  obtain f where "parse_decimal (sg = [45]) ?u = Some f" using parse_decimal_digits ab by blast
  moreover have "is_digit (hd ?u)" using ab by (cases as) auto
  ultimately have "float_of_ascii (sg @ ?u) = Some f"
    using float_of_ascii_digit [of ?u sg] sg ab by simp
  with p show ?thesis by (simp add: py_float_to_ascii t py_float_plain)
qed

lemma find_coords_float: "list_all (\<lambda>m. \<exists>f. py_float m = Inr f) (find_coords s)"
proof (induction s rule: find_coords.induct)
  case (1 s)
  then show ?case
    by (subst find_coords.simps) (auto split: option.splits dest: py_float_coord)
qed

text \<open>The coordinates of a text are complete or absent, and reading them never raises.\<close>

definition xyz_whole :: "xyz \<Rightarrow> bool" where
  "xyz_whole c \<longleftrightarrow> (fst c = None) = (fst (snd c) = None) \<and> (fst c = None) = (snd (snd c) = None)"

lemma embedded_floats_total: "\<exists>c. embedded_floats tokens i = Inr c \<and> xyz_whole c"
proof -
  have "list_all (\<lambda>m. \<exists>f. py_float m = Inr f) (find_coords (tokens ! i))"
    by (rule find_coords_float)
  then show ?thesis
    by (auto simp: embedded_floats_def xyz_whole_def split: list.splits)
qed

lemma token_floats_total: "\<exists>c. token_floats tokens i = Inr c"
  using ls_parse_float_str [of "tokens ! i"] ls_parse_float_str [of "tokens ! (i + 1)"]
    ls_parse_float_str [of "tokens ! (i + 2)"]
  by (auto simp: token_floats_def simp del: ls_parse_float.simps)

lemma extract_xyz_from_tokens_total:
  "\<exists>c. extract_xyz_from_tokens tokens i = Inr c \<and> xyz_whole c"
  using embedded_floats_total [of tokens i] token_floats_total [of tokens i]
  by (auto simp: extract_xyz_from_tokens_def) (auto simp: xyz_whole_def)

section \<open>Outcomes\<close>

text \<open>What the fields of an event say, by the type of its message.\<close>

definition ls_event_shape :: "normalized_event \<Rightarrow> bool" where
  "ls_event_shape ev \<longleftrightarrow>
     (if ev_source_type ev = lit ''display''
      then xyz_whole (ev_x ev, ev_y ev, ev_z ev) \<and> ev_lng ev = None \<and> ev_lat ev = None
        \<and> ev_status ev = None \<and> (ev_x ev = None \<or> ev_area ev = None)
      else if ev_source_type ev = lit ''status1'' \<or> ev_source_type ev = lit ''status2''
      then [ev_x ev, ev_y ev, ev_z ev, ev_lng ev, ev_lat ev] = [None, None, None, None, None] \<and> ev_area ev = None
      else if ev_source_type ev = lit ''gpsposi''
      then ev_lng ev \<noteq> None \<and> ev_lat ev \<noteq> None \<and> ev_x ev = None \<and> ev_y ev = None
        \<and> ev_area ev = None \<and> ev_status ev = None
      else ev_source_type ev = lit ''json'' \<and> ev_tag_id ev \<noteq> [] \<and> stripped (ev_tag_id ev))"

text \<open>The results a handler may give for a message \<open>s\<close>.\<close>

definition ls_outcome :: "pystr \<Rightarrow> parse_result \<Rightarrow> bool" where
  "ls_outcome s r =
     (case r of
        (Some ev, err) \<Rightarrow>
          err = None \<and> ev_origin ev = lit ''ls-1000'' \<and> ev_raw_message ev = s
          \<and> ev_parse_warnings ev = [] \<and> ls_event_shape ev
      | (None, err) \<Rightarrow> map_option pe_raw_message err = Some s)"

lemma ls_outcome_err [simp]: "ls_outcome s (ls_err s t c m)"
  by (simp add: ls_outcome_def ls_err_def)

lemma ls_outcome_event [simp]:
  "ls_outcome s (Some (ls_event s t tag ts xyz layer area status lng lat), None)
     \<longleftrightarrow> ls_event_shape (ls_event s t tag ts xyz layer area status lng lat)"
  by (simp add: ls_outcome_def ls_event_def)

lemma ls_event_shape_event:
  "ls_event_shape (ls_event s t tag ts xyz layer area status lng lat) \<longleftrightarrow>
     (if t = lit ''display''
      then xyz_whole xyz \<and> lng = None \<and> lat = None \<and> status = None \<and> (fst xyz = None \<or> area = None)
      else if t = lit ''status1'' \<or> t = lit ''status2''
      then [fst xyz, fst (snd xyz), snd (snd xyz), lng, lat] = [None, None, None, None, None]
        \<and> area = None
      else if t = lit ''gpsposi''
      then lng \<noteq> None \<and> lat \<noteq> None \<and> fst xyz = None \<and> fst (snd xyz) = None
        \<and> area = None \<and> status = None
      else t = lit ''json'' \<and> tag \<noteq> [] \<and> stripped tag)"
  by (simp add: ls_event_def ls_event_shape_def)

definition ls_total :: "pystr \<Rightarrow> parse_result res \<Rightarrow> bool" where
  "ls_total s m \<longleftrightarrow> (case m of Inl e \<Rightarrow> False | Inr r \<Rightarrow> ls_outcome s r)"

lemma ls_total_Inr [simp]: "ls_total s (Inr r) \<longleftrightarrow> ls_outcome s r"
  by (simp add: ls_total_def)

lemma parse_display_total: "ls_total s (parse_display it s tokens)"
proof -
  obtain ts layer where "ls_parse_int it (JStr (tokens ! 3)) = Inr ts"
    "ls_parse_int it (JStr (tokens ! 4)) = Inr layer"
    using ls_parse_int_str by blast
  moreover obtain c where "extract_xyz_from_tokens tokens 5 = Inr c" "xyz_whole c"
    using extract_xyz_from_tokens_total by blast
  ultimately show ?thesis
    by (simp add: parse_display_def ls_event_shape_event del: ls_parse_int.simps split: option.split)
qed

lemma parse_status1_total: "ls_total s (parse_status1 it s tokens)"
proof -
  obtain ts layer where "ls_parse_int it (JStr (tokens ! 3)) = Inr ts"
    "ls_parse_int it (JStr (tokens ! 5)) = Inr layer"
    using ls_parse_int_str by blast
  then show ?thesis
    by (simp add: parse_status1_def ls_event_shape_event del: ls_parse_int.simps
        split: option.split)
qed

lemma parse_status2_total: "ls_total s (parse_status2 it s tokens)"
proof -
  obtain ts layer where "ls_parse_int it (JStr (tokens ! 3)) = Inr ts"
    "ls_parse_int it (JStr (tokens ! 4)) = Inr layer"
    using ls_parse_int_str by blast
  then show ?thesis
    by (simp add: parse_status2_def ls_event_shape_event del: ls_parse_int.simps
        split: option.split)
qed

lemma parse_gpsposi_total: "ls_total s (parse_gpsposi it s tokens)"
proof -
  obtain ts layer lng lat z where "ls_parse_int it (JStr (tokens ! 3)) = Inr ts"
    "ls_parse_int it (JStr (tokens ! 4)) = Inr layer"
    "ls_parse_float (JStr (tokens ! 5)) = Inr lng" "ls_parse_float (JStr (tokens ! 6)) = Inr lat"
    "ls_parse_float (JStr (tokens ! 7)) = Inr z"
    using ls_parse_int_str ls_parse_float_str by metis
  then show ?thesis
    by (simp add: parse_gpsposi_def ls_event_shape_event del: ls_parse_int.simps ls_parse_float.simps
        split: option.split)
qed

lemma dispatch_type_total: "ls_total s (dispatch_type it s t tokens)"
  by (simp add: dispatch_type_def parse_display_total parse_status1_total
      parse_status2_total parse_gpsposi_total)

text \<open>The JSON form may raise, but only where a number does not convert.\<close>

definition ls_result_ok :: "pystr \<Rightarrow> parse_result res \<Rightarrow> bool" where
  "ls_result_ok s m \<longleftrightarrow> (case m of Inl e \<Rightarrow> number_error e | Inr r \<Rightarrow> ls_outcome s r)"

lemma ls_result_ok_simps [simp]:
  "ls_result_ok s (Inr r) \<longleftrightarrow> ls_outcome s r" "ls_result_ok s (Inl e) \<longleftrightarrow> number_error e"
  by (simp_all add: ls_result_ok_def)

lemma ls_result_ok_bind:
  "(\<And>e. m = Inl e \<Longrightarrow> number_error e) \<Longrightarrow> (\<And>a. m = Inr a \<Longrightarrow> ls_result_ok s (f a)) \<Longrightarrow>
     ls_result_ok s (bind_res m f)"
  by (cases m) simp_all

lemma ls_first_int_error: "ls_first_int it d ks = Inl e \<Longrightarrow> number_error e"
  by (induction ks) (auto simp: res_simps dest: ls_parse_int_error split: if_splits option.splits)

lemma ls_first_float_error: "ls_first_float d ks = Inl e \<Longrightarrow> number_error e"
  by (induction ks) (auto simp: res_simps dest: ls_parse_float_error split: if_splits option.splits)

lemma ls_first_str_error: "ls_first_str it d ks = Inl e \<Longrightarrow> number_error e"
  by (induction ks) (auto simp: res_simps Let_def dest: py_str_error split: if_splits)

lemma ls_first_str_stripped: "ls_first_str it d ks = Inr (Some t) \<Longrightarrow> t \<noteq> [] \<and> stripped t"
  by (induction ks) (auto simp: res_simps Let_def split: if_splits)

declare ls_first_int.simps [simp del] ls_first_float.simps [simp del] ls_first_str.simps [simp del]

lemma extract_xyz_from_json_error: "extract_xyz_from_json d = Inl e \<Longrightarrow> number_error e"
  by (auto simp: extract_xyz_from_json_def top_level_xyz_def res_simps
      dest: ls_parse_float_error ls_first_float_error split: json.splits if_splits)

lemmas ls_reader_errors = ls_first_int_error ls_first_float_error ls_first_str_error
  extract_xyz_from_json_error

lemma ls_json_event_ok:
  "tag \<noteq> [] \<Longrightarrow> stripped tag \<Longrightarrow> ls_result_ok s (ls_json_event it s d tag ts)"
  unfolding ls_json_event_def
  by (intro ls_result_ok_bind)
    (auto simp: ls_event_shape_event dest: ls_reader_errors)

lemma ls_parse_dict_ok: "ls_result_ok s (ls_parse_dict it s d)"
proof -
  have "ls_result_ok s (ls_json_event it s d tag ts)"
    if "ls_first_str it d ls_tag_keys = Inr (Some tag)" for tag ts
    using ls_json_event_ok ls_first_str_stripped [OF that] by blast
  then show ?thesis
    unfolding ls_parse_dict_def
    by (auto intro!: ls_result_ok_bind dest: ls_reader_errors split: option.split)
qed

lemma ls_parse_json_ok: "ls_result_ok s (ls_parse_json it s (123 # t))"
proof (cases "json_loads (123 # t)")
  case (Inl e)
  then show ?thesis using json_loads_error [OF Inl]
    by (auto simp: ls_parse_json_def scan_error_def)
next
  case (Inr v)
  then obtain d where "v = JObj d" using json_loads_brace [OF Inr] by (cases v) auto
  with Inr show ?thesis by (simp add: ls_parse_json_def ls_parse_dict_ok)
qed

lemma startswith_brace: "startswith (lit ''{'') s \<longleftrightarrow> (\<exists>t. s = 123 # t)"
  by (cases s) (auto simp: startswith_def lit_def)

lemma parse_message_text:
  "\<not> startswith (lit ''{'') (strip s) \<Longrightarrow> ls_total s (parse_message it s)"
  by (auto simp: parse_message_def Let_def dispatch_type_total split: prod.split)

lemma parse_message_json:
  "startswith (lit ''{'') (strip s) \<Longrightarrow> ls_result_ok s (parse_message it s)"
  by (auto simp: parse_message_def Let_def startswith_brace ls_parse_json_ok)

section \<open>Reading back the text formats\<close>

text \<open>A field that survives the splitting at commas and the stripping.\<close>

definition field_text :: "pystr \<Rightarrow> bool" where
  "field_text s \<longleftrightarrow> stripped s \<and> 44 \<notin> set s"

lemma digits_field: "list_all is_digit s \<Longrightarrow> 44 \<notin> set s"
  by (auto simp: list_all_iff is_digit_def)

lemma int_repr_plain: "plain_text (int_repr i) \<and> 44 \<notin> set (int_repr i)"
  using int_digits_all_digits [of i] int_digits_all_digits [of "- i"]
  by (auto simp: int_repr_def plain_digits dest: digits_field)

lemma py_str_int_field: "py_str_int i = Inr t \<Longrightarrow> field_text t \<and> t \<noteq> []"
  using int_repr_plain [of i]
  by (auto simp: py_str_int_def field_text_def plain_stripped int_repr_def split: if_splits)

lemma number_parts_field: "number_parts s ip fp ex x \<Longrightarrow> 44 \<notin> set s"
  using exponent_text_split [of x] by (auto simp: number_parts_def dest: digits_field)

lemma float_repr_field:
  assumes "canonical f"
  shows "field_text (float_repr f) \<and> float_repr f \<noteq> []"
proof (cases f)
  case (Fin neg m e)
  with assms obtain ip fp ex x s where "float_repr f = (if neg then [45] else []) @ s"
    and P: "number_parts s ip fp ex x"
    using float_repr_number by metis
  then show ?thesis
    using number_parts_field [OF P] number_parts_hd [OF P] plain_float_repr [OF assms]
    by (auto simp: field_text_def plain_stripped)
qed (use plain_float_repr [OF assms] in \<open>auto simp: field_text_def plain_stripped lit_def\<close>)

lemma ls_parse_int_text:
  assumes t: "py_str_int i = Inr t"
  shows "ls_parse_int it (JStr t) = Inr (Some (IntVal i))"
proof -
  have f: "strip t = t" "t \<noteq> []" using py_str_int_field [OF t] by (simp_all add: field_text_def)
  define neg u where "neg = (i < 0)" and "u = int_digits \<bar>i\<bar>"
  have "t = (if neg then [45] else []) @ u" "list_all is_digit u"
    using t int_digits_all_digits [of "\<bar>i\<bar>"]
    by (auto simp: py_str_int_def int_repr_def neg_def u_def split: if_splits)
  then have "\<not> startswith (lit ''0x'') (py_lower it t)"
    by (cases u; cases "tl u") (auto simp: py_lower_def is_ascii_def startswith_def lit_def
        ascii_lower_def is_digit_def list_all_iff split: if_splits)
  then show ?thesis using f by (simp add: py_int_str [OF t])
qed

lemma ls_parse_float_text:
  "canonical f \<Longrightarrow> ls_parse_float (JStr (float_repr f)) = Inr (Some f)"
  using float_repr_field [of f] by (simp add: field_text_def py_float_repr)

text \<open>A message of a supported type reaches its handler with the fields it was written with.\<close>

lemma strip_field: "list_all field_text fs \<Longrightarrow> map strip fs = fs"
  by (induction fs) (auto simp: field_text_def)

lemma last_join_with: "fs \<noteq> [] \<Longrightarrow> last fs \<noteq> [] \<Longrightarrow> join_with sep fs \<noteq> [] \<and> last (join_with sep fs) = last (last fs)"
  by (induction sep fs rule: join_with.induct) auto

lemma parse_message_fields:
  assumes t: "t \<in> set base_types" and fs: "list_all field_text fs" "fs \<noteq> []" "last fs \<noteq> []"
  shows "parse_message it (t @ [58] @ join_with [44] fs)
    = dispatch_type it (t @ [58] @ join_with [44] fs) t fs"
proof -
  let ?m = "t @ [58] @ join_with [44] fs"
  have t': "t \<noteq> []" "\<not> is_space (hd t)" "\<not> startswith (lit ''{'') t" "58 \<notin> set t"
    "stripped t" "py_lower it t = t" "t \<notin> set unsupported_types" "hd t \<noteq> 123"
    using t by (auto simp: base_types_def unsupported_types_def lit_def is_space_def startswith_def
        stripped_def py_lower_def is_ascii_def ascii_lower_def)
  note l = last_join_with [OF fs(2,3), of "[44]"]
  have "stripped (last fs)" using fs by (auto simp: list_all_iff field_text_def)
  then have "stripped ?m" using l t' fs(3) by (simp add: stripped_def)
  moreover have "split_first 58 ?m = (t, join_with [44] fs)"
    using split_first_append [OF t'(4)] by simp
  moreover have "payload_tokens (join_with [44] fs) = fs"
  proof -
    have "list_all (\<lambda>f. 44 \<notin> set f) fs" using fs(1) by (auto simp: list_all_iff field_text_def)
    then show ?thesis by (simp add: payload_tokens_def split_on_join fs(2) strip_field [OF fs(1)])
  qed
  moreover have "list_ex (\<lambda>f. f \<noteq> []) fs" using fs(2,3) by (auto simp: list_ex_iff)
  moreover have "\<not> startswith (lit ''{'') ?m"
    using t' by (cases t) (auto simp: startswith_brace)
  ultimately show ?thesis
    using t t' by (simp add: parse_message_def Let_def)
qed

text \<open>Coordinates from a display message with three numeric fields.\<close>

lemma extract_xyz_fields:
  assumes "canonical x" and "canonical y" and "canonical z"
  shows "extract_xyz_from_tokens [a, b, c, d, e, float_repr x, float_repr y, float_repr z] 5
    = Inr (Some x, Some y, Some z)"
  using assms by (simp add: extract_xyz_from_tokens_def token_floats_def ls_parse_float_text
      del: ls_parse_float.simps)

lemma display_fields:
  assumes "list_all field_text [len, tag, sq]" and "py_str_int ts = Inr ts_text"
    and "py_str_int layer = Inr layer_text" and "list_all canonical [x, y, z]"
    and fs: "fs = [len, tag, sq, ts_text, layer_text, float_repr x, float_repr y, float_repr z]"
    and m: "m = lit ''display'' @ [58] @ join_with [44] fs"
  shows "parse_message it m = Inr (Some (ls_event m (lit ''display'') tag (IntVal ts)
    (Some x, Some y, Some z) (Some (IntVal layer)) None None None None), None)"
proof -
  have "parse_message it m = dispatch_type it m (lit ''display'') fs"
    unfolding m
    by (rule parse_message_fields)
      (use assms(1-4) py_str_int_field float_repr_field in \<open>auto simp: fs base_types_def\<close>)
  also have "\<dots> = Inr (Some (ls_event m (lit ''display'') tag (IntVal ts)
      (Some x, Some y, Some z) (Some (IntVal layer)) None None None None), None)"
    using assms(1-4)
    by (simp add: dispatch_type_def parse_display_def fs ls_parse_int_text extract_xyz_fields
        del: ls_parse_int.simps)
  finally show ?thesis .
qed

lemma gpsposi_fields:
  assumes "list_all field_text [len, tag, sq]" and "py_str_int ts = Inr ts_text"
    and "py_str_int layer = Inr layer_text" and "list_all canonical [lng, lat, z]"
    and fs: "fs = [len, tag, sq, ts_text, layer_text, float_repr lng, float_repr lat, float_repr z]"
    and m: "m = lit ''gpsposi'' @ [58] @ join_with [44] fs"
  shows "parse_message it m = Inr (Some (ls_event m (lit ''gpsposi'') tag (IntVal ts)
    (None, None, Some z) (Some (IntVal layer)) None None (Some lng) (Some lat)), None)"
proof -
  have "parse_message it m = dispatch_type it m (lit ''gpsposi'') fs"
    unfolding m
    by (rule parse_message_fields)
      (use assms(1-4) py_str_int_field float_repr_field in \<open>auto simp: fs base_types_def\<close>)
  also have "\<dots> = Inr (Some (ls_event m (lit ''gpsposi'') tag (IntVal ts)
      (None, None, Some z) (Some (IntVal layer)) None None (Some lng) (Some lat)), None)"
    using assms(1-4)
    by (simp add: dispatch_type_def parse_gpsposi_def fs ls_parse_int_text ls_parse_float_text
        del: ls_parse_int.simps ls_parse_float.simps)
  finally show ?thesis .
qed

lemma status1_fields:
  assumes "list_all field_text [len, tag, dev, vbat, velo, sos]" and "sos \<noteq> []"
    and "py_str_int ts = Inr ts_text" and "py_str_int layer = Inr layer_text"
    and fs: "fs = [len, tag, dev, ts_text, vbat, layer_text, velo, sos]"
    and m: "m = lit ''status1'' @ [58] @ join_with [44] fs"
  shows "parse_message it m = Inr (Some (ls_event m (lit ''status1'') dev (IntVal ts)
    (None, None, None) (Some (IntVal layer)) None (Some sos) None None), None)"
proof -
  have "parse_message it m = dispatch_type it m (lit ''status1'') fs"
    unfolding m
    by (rule parse_message_fields)
      (use assms(1-4) py_str_int_field in \<open>auto simp: fs base_types_def\<close>)
  also have "\<dots> = Inr (Some (ls_event m (lit ''status1'') dev (IntVal ts)
    (None, None, None) (Some (IntVal layer)) None (Some sos) None None), None)"
    using assms(1-4)
    by (simp add: dispatch_type_def parse_status1_def fs ls_parse_int_text safe_token_def
        field_text_def del: ls_parse_int.simps)
  finally show ?thesis .
qed

section \<open>The JSON form\<close>

text \<open>A dict written by the compact \<open>dumps\<close> reaches the field readers as it was.\<close>

lemma json_dumps_dict_text:
  "json_dumps (JObj d) = Inr t \<Longrightarrow> \<exists>u. t = 123 # u @ [125]"
  by (auto simp: json_dumps_def json_text_JObj res_simps simp del: json_text.simps)

lemma parse_message_dumps:
  assumes "wf_json (JObj d)" and "json_dumps (JObj d) = Inr t"
  shows "parse_message it t = ls_parse_dict it t d"
proof -
  obtain u where t: "t = 123 # u @ [125]" using json_dumps_dict_text [OF assms(2)] by blast
  then have "stripped t" by (simp add: stripped_def is_space_def)
  with t show ?thesis
    using json_loads_dumps [OF assms]
    by (simp add: parse_message_def Let_def startswith_brace ls_parse_json_def)
qed

text \<open>A position report of a tag, in the shape of the LS-1000 scheme with a numeric timestamp.\<close>

definition ls_json_report :: "pystr \<Rightarrow> int \<Rightarrow> pyfloat \<Rightarrow> pyfloat \<Rightarrow> pyfloat \<Rightarrow> json dict" where
  "ls_json_report tag ts x y z =
     [(lit ''devid'', JStr tag), (lit ''timestamp'', JInt ts),
      (lit ''position'', JObj [(lit ''x'', JFloat x), (lit ''y'', JFloat y), (lit ''z'', JFloat z)])]"

lemma json_report_fields:
  assumes "stripped tag" and "tag \<noteq> []"
  shows "ls_parse_dict it t (ls_json_report tag ts x y z) = Inr (Some (ls_event t (lit ''json'') tag
    (IntVal ts) (Some x, Some y, Some z) None None None None None), None)"
  using assms
  by (simp add: ls_parse_dict_def ls_json_report_def is_ls1000_json_def json_markers_def has_key_def
      get_or_null_def ls_tag_keys_def ls_ts_keys_def ls_first_str.simps ls_first_int.simps
      ls_first_float.simps Let_def ls_json_event_def extract_xyz_from_json_def)

text \<open>The text before a character that is no white space stays when a text is stripped.\<close>

lemma rstrip_append_Cons: "\<not> is_space c \<Longrightarrow> rstrip (a @ c # r) = a @ c # rstrip r"
  by (simp add: rstrip_def dropWhile_append)

lemma strip_append_Cons:
  "a \<noteq> [] \<Longrightarrow> \<not> is_space (hd a) \<Longrightarrow> \<not> is_space c \<Longrightarrow> strip (a @ c # r) = a @ c # rstrip r"
  by (simp add: strip_def lstrip_def dropWhile_id rstrip_append_Cons)

lemma c_strip_append_Cons:
  "a \<noteq> [] \<Longrightarrow> \<not> c_space (hd a) \<Longrightarrow> \<not> c_space c \<Longrightarrow>
     c_strip (a @ c # r) = a @ c # rev (dropWhile c_space (rev r))"
proof -
  assume a: "a \<noteq> []" "\<not> c_space (hd a)" "\<not> c_space c"
  then have "dropWhile c_space (a @ c # r) = a @ c # r" by (simp add: dropWhile_id)
  with a show ?thesis by (simp add: c_strip_def dropWhile_append)
qed

lemma group_digits_stop:
  "list_all p a \<Longrightarrow> \<not> p c \<Longrightarrow> c \<noteq> 95 \<Longrightarrow> \<not> p 95 \<Longrightarrow> group_digits p (a @ c # r) = None"
proof (induction a rule: induct_list012)
  case 1
  then show ?case by (cases r) simp_all
next
  case (2 x)
  then show ?case by (cases r) auto
next
  case (3 x y zs)
  then show ?case by auto
qed

text \<open>
  A timestamp like \<open>2024-05-01 10:00:00.000\<close>, the format of the LS-1000 scheme, is no integer.
\<close>

lemma to_ascii_decimal:
  assumes "is_decimal c"
  shows "is_digit (to_ascii c)"
proof (cases "c < 127")
  case True
  with assms show ?thesis
    by (auto simp: is_decimal_def to_ascii_def is_digit_def decimal_zeros_def elim!: decimal_value_Some)
next
  case False
  obtain d where d: "decimal_value c = Some d" using assms by (auto simp: is_decimal_def)
  then have "0 \<le> d" "d \<le> 9" by (auto elim: decimal_value_Some)
  with d False is_decimal_not_space [OF assms] show ?thesis by (simp add: to_ascii_def is_digit_def)
qed

lemma parse_int_date:
  assumes "list_all is_decimal y" and "y \<noteq> []"
  shows "py_int (strip (y @ 45 # r)) = Inl ValueError" "py_int16 (strip (y @ 45 # r)) = Inl ValueError"
proof -
  define u where "u = map to_ascii y"
  have u: "list_all is_digit u" "u \<noteq> []"
    using assms to_ascii_decimal by (auto simp: u_def list_all_iff)
  have "is_decimal (hd y)" "is_digit (hd u)" using assms u by (cases y; simp add: u_def)+
  then have sp: "\<not> is_space (hd y)" "\<not> is_space 45" "\<not> c_space (hd u)" "\<not> c_space 45"
    using is_decimal_not_space digit_not_c_space by (auto simp: is_space_def c_space_def)
  have st: "strip (y @ 45 # r) = y @ 45 # rstrip r" by (rule strip_append_Cons [OF assms(2) sp(1,2)])
  obtain q where q: "c_strip (map to_ascii (strip (y @ 45 # r))) = u @ 45 # q"
    using c_strip_append_Cons [OF u(2) sp(3,4)] by (simp add: st u_def to_ascii_def [of 45])
  have sg: "split_sign (u @ 45 # q) = (False, u @ 45 # q)"
    using u by (cases u) (auto simp: split_sign_def is_digit_def)
  have "group_digits is_digit (u @ 45 # q) = None"
    using group_digits_stop [OF u(1)] by (simp add: is_digit_def)
  then show "py_int (strip (y @ 45 # r)) = Inl ValueError" by (simp add: py_int_def q sg)
  have "hex_body (u @ 45 # q) = u @ 45 # q"
    using u by (cases u; cases "tl u") (auto simp: hex_body_def ascii_lower_def is_digit_def)
  moreover have "list_all is_hex u" using u(1) by (auto simp: list_all_iff is_hex_def)
  then have "group_digits is_hex (u @ 45 # q) = None"
    using group_digits_stop [of is_hex u] by (simp add: is_hex_def is_digit_def ascii_lower_def)
  ultimately show "py_int16 (strip (y @ 45 # r)) = Inl ValueError" by (simp add: py_int16_def q sg)
qed

lemma ls_parse_int_date:
  "list_all is_decimal y \<Longrightarrow> y \<noteq> [] \<Longrightarrow> ls_parse_int it (JStr (y @ 45 # r)) = Inr None"
  using parse_int_date [of y r] by (simp add: Let_def)

section \<open>White space around a message\<close>

text \<open>The raw message is kept for the record only: the result depends on the stripped text.\<close>

definition with_raw :: "pystr \<Rightarrow> parse_result \<Rightarrow> parse_result" where
  "with_raw s r =
     (map_option (\<lambda>ev. ev\<lparr>ev_raw_message := s\<rparr>) (fst r),
      map_option (\<lambda>pe. pe\<lparr>pe_raw_message := s\<rparr>) (snd r))"

definition with_raw_res :: "pystr \<Rightarrow> parse_result res \<Rightarrow> parse_result res" where
  "with_raw_res s m = bind_res m (\<lambda>r. Inr (with_raw s r))"

lemma with_raw_simps [simp]:
  "with_raw s (ls_err s' t c m) = ls_err s t c m"
  "with_raw s (Some (ls_event s' t tag ts xyz layer area status lng lat), None)
     = (Some (ls_event s t tag ts xyz layer area status lng lat), None)"
  "with_raw_res s (Inr r) = Inr (with_raw s r)"
  "with_raw_res s (Inl e) = Inl e"
  by (simp_all add: with_raw_def with_raw_res_def ls_err_def ls_event_def)

lemma with_raw_res_bind [simp]:
  "with_raw_res s (bind_res m f) = bind_res m (\<lambda>a. with_raw_res s (f a))"
  by (cases m) simp_all

lemma with_raw_res_if [simp]:
  "with_raw_res s (if c then a else b) = (if c then with_raw_res s a else with_raw_res s b)"
  by simp

lemma with_raw_res_option [simp]:
  "with_raw_res s (case x of None \<Rightarrow> a | Some y \<Rightarrow> f y)
     = (case x of None \<Rightarrow> with_raw_res s a | Some y \<Rightarrow> with_raw_res s (f y))"
  by (cases x) simp_all

lemma with_raw_handlers:
  "parse_display it s tokens = with_raw_res s (parse_display it s' tokens)"
  "parse_status1 it s tokens = with_raw_res s (parse_status1 it s' tokens)"
  "parse_status2 it s tokens = with_raw_res s (parse_status2 it s' tokens)"
  "parse_gpsposi it s tokens = with_raw_res s (parse_gpsposi it s' tokens)"
  "ls_json_event it s d tag ts = with_raw_res s (ls_json_event it s' d tag ts)"
  by (simp_all add: parse_display_def parse_status1_def parse_status2_def parse_gpsposi_def
      ls_json_event_def del: ls_parse_int.simps ls_parse_float.simps cong: option.case_cong if_cong)

lemma with_raw_dispatch: "dispatch_type it s t tokens = with_raw_res s (dispatch_type it s' t tokens)"
  using with_raw_handlers(1-4) [of it s tokens s'] by (simp add: dispatch_type_def)

lemma with_raw_parse_dict: "ls_parse_dict it s d = with_raw_res s (ls_parse_dict it s' d)"
  using with_raw_handlers(5) [of it s d _ _ s'] by (simp add: ls_parse_dict_def cong: option.case_cong if_cong)

lemma with_raw_parse_json: "ls_parse_json it s raw = with_raw_res s (ls_parse_json it s' raw)"
  using with_raw_parse_dict [of it s _ s']
  by (simp add: ls_parse_json_def split: sum.split py_exc.split json.split)

lemma parse_message_raw: "parse_message it s = with_raw_res s (parse_message it (strip s))"
  using with_raw_parse_json [of it s _ "strip s"] with_raw_dispatch [of it s _ _ "strip s"]
  by (simp add: parse_message_def Let_def split: prod.split)

end
