(* ===== verification/LS1000_Properties.thy ===== *)
theory LS1000_Properties
  imports LS1000_Facts
begin

text \<open>
  The properties of the LS-1000 parser (\<open>stream_handler/ls1000_parser.py\<close>), over the definitions
  of \<open>LS1000_Parser\<close> and by the lemmas of \<open>LS1000_Facts\<close>.
\<close>

text \<open>
  C12. A call of \<open>parse_message\<close> ends in one of three ways: an event and no error, which keeps
  the message as it came and carries the origin of this parser and no warnings; an error and no
  event, which keeps the message as well; or, for a message whose stripped text opens with a
  brace only, a \<open>ValueError\<close> or an \<open>OverflowError\<close>. The text formats never raise.
\<close>

theorem parse_message_outcome:
  "case parse_message it s of
     Inr (Some ev, err) \<Rightarrow>
       err = None \<and> ev_origin ev = lit ''ls-1000'' \<and> ev_raw_message ev = s
       \<and> ev_parse_warnings ev = []
   | Inr (None, err) \<Rightarrow> map_option pe_raw_message err = Some s
   | Inl e \<Rightarrow> startswith (lit ''{'') (strip s) \<and> (e = ValueError \<or> e = OverflowError)"
  using parse_message_text [of s it] parse_message_json [of s it]
  by (cases "startswith (lit ''{'') (strip s)")
    (auto simp: ls_total_def ls_result_ok_def ls_outcome_def number_error_def
      split: sum.splits prod.splits option.splits)

text \<open>
  The fields of an event agree with the type of its message: a display event has all three
  coordinates or none, and an area only without them; a status event has no position; a gpsposi
  event has longitude and latitude; the tag of a JSON event is not blank and is stripped.
\<close>

theorem parse_message_event_shape:
  "case parse_message it s of Inr (Some ev, err) \<Rightarrow> ls_event_shape ev | _ \<Rightarrow> True"
  using parse_message_text [of s it] parse_message_json [of s it]
  by (cases "startswith (lit ''{'') (strip s)")
    (auto simp: ls_total_def ls_result_ok_def ls_outcome_def
      split: sum.splits prod.splits option.splits)

text \<open>
  White space around a message does not matter: the outcome is that of the stripped message,
  except that event and error keep the message as it came.
\<close>

theorem parse_message_white_space:
  "parse_message it s
   = bind_res (parse_message it (strip s)) (\<lambda>r. Inr
       (map_option (\<lambda>ev. ev\<lparr>ev_raw_message := s\<rparr>) (fst r),
        map_option (\<lambda>pe. pe\<lparr>pe_raw_message := s\<rparr>) (snd r)))"
  by (subst parse_message_raw) (simp add: with_raw_res_def with_raw_def)

text \<open>
  C16. A display message written from a length, a device id, a sequence number, a timestamp, a layer
  and three coordinates is read back to them exactly: each float to the last bit.
\<close>

theorem parse_display_roundtrip:
  assumes "list_all field_text [len, tag, sq]" and "py_str_int ts = Inr ts_text"
    and "py_str_int layer = Inr layer_text" and "list_all canonical [x, y, z]"
    and "m = lit ''display'' @ [58] @ join_with [44]
           [len, tag, sq, ts_text, layer_text, float_repr x, float_repr y, float_repr z]"
  shows "parse_message it m = Inr (Some (ls_event m (lit ''display'') tag (IntVal ts)
    (Some x, Some y, Some z) (Some (IntVal layer)) None None None None), None)"
  by (rule display_fields [OF assms(1-4) refl assms(5)])

lemma parse_display_roundtrip_witness:
  "parse_message ascii_interp (lit ''display:68,00A320,16,1700000000123,2,9.5,-0.25,1.5'')
   = Inr (Some (ls_event (lit ''display:68,00A320,16,1700000000123,2,9.5,-0.25,1.5'')
       (lit ''display'') (lit ''00A320'') (IntVal 1700000000123)
       (Some f_9_5, Some f_0_25, Some f_1_5) (Some (IntVal 2)) None None None None), None)"
proof (rule parse_display_roundtrip [where len = "lit ''68''" and sq = "lit ''16''"
      and ts_text = "lit ''1700000000123''" and layer_text = "lit ''2''"])
  show "list_all field_text [lit ''68'', lit ''00A320'', lit ''16'']" by code_simp
  show "py_str_int 1700000000123 = Inr (lit ''1700000000123'')" by code_simp
  show "py_str_int 2 = Inr (lit ''2'')" by code_simp
qed (simp_all add: float_repr_samples lit_def)

text \<open>
  A gpsposi message written from its fields is read back to them: the longitude, the latitude
  and the height of the tag, and no local coordinates.
\<close>

theorem parse_gpsposi_roundtrip:
  assumes "list_all field_text [len, tag, sq]" and "py_str_int ts = Inr ts_text"
    and "py_str_int layer = Inr layer_text" and "list_all canonical [lng, lat, z]"
    and "m = lit ''gpsposi'' @ [58] @ join_with [44]
           [len, tag, sq, ts_text, layer_text, float_repr lng, float_repr lat, float_repr z]"
  shows "parse_message it m = Inr (Some (ls_event m (lit ''gpsposi'') tag (IntVal ts)
    (None, None, Some z) (Some (IntVal layer)) None None (Some lng) (Some lat)), None)"
  by (rule gpsposi_fields [OF assms(1-4) refl assms(5)])

lemma parse_gpsposi_roundtrip_witness:
  "parse_message ascii_interp (lit ''gpsposi:68,A1,16,-5,0,9.5,-0.25,1.5'')
   = Inr (Some (ls_event (lit ''gpsposi:68,A1,16,-5,0,9.5,-0.25,1.5'')
       (lit ''gpsposi'') (lit ''A1'') (IntVal (- 5)) (None, None, Some f_1_5)
       (Some (IntVal 0)) None None (Some f_9_5) (Some f_0_25)), None)"
proof (rule parse_gpsposi_roundtrip [where len = "lit ''68''" and sq = "lit ''16''"
      and ts_text = "lit ''-5''" and layer_text = "lit ''0''"])
  show "list_all field_text [lit ''68'', lit ''A1'', lit ''16'']" by code_simp
  show "py_str_int (- 5) = Inr (lit ''-5'')" by code_simp
  show "py_str_int 0 = Inr (lit ''0'')" by code_simp
qed (simp_all add: float_repr_samples lit_def)

text \<open>
  C33. A JSON object goes through unharmed: for every dict that \<open>dumps\<close> can write, parsing the
  written text is parsing the dict, so the reader of the text adds and loses nothing.
\<close>

theorem parse_json_roundtrip:
  assumes "wf_json (JObj d)" and "json_dumps (JObj d) = Inr t"
  shows "parse_message it t = ls_parse_dict it t d"
  by (rule parse_message_dumps [OF assms])

lemma parse_json_roundtrip_witness:
  "parse_message ascii_interp
     (lit [CHR ''{'', CHR 34, CHR ''d'', CHR ''e'', CHR ''v'', CHR ''i'', CHR ''d'', CHR 34, CHR '':'',
           CHR ''7'', CHR ''}''])
   = Inr (ls_err
       (lit [CHR ''{'', CHR 34, CHR ''d'', CHR ''e'', CHR ''v'', CHR ''i'', CHR ''d'', CHR 34, CHR '':'',
             CHR ''7'', CHR ''}''])
       (lit ''json'') (lit ''missing_field'') (lit ''Missing timestamp in JSON payload''))"
  (is "parse_message _ ?t = _")
proof -
  let ?d = "[(lit ''devid'', JInt 7)]"
  have "wf_json (JObj ?d)" by code_simp
  moreover have "json_dumps (JObj ?d) = Inr ?t" by code_simp
  ultimately have "parse_message ascii_interp ?t = ls_parse_dict ascii_interp ?t ?d"
    by (rule parse_json_roundtrip)
  also have "\<dots> = Inr (ls_err ?t (lit ''json'') (lit ''missing_field'')
      (lit ''Missing timestamp in JSON payload''))"
    by code_simp
  finally show ?thesis .
qed

text \<open>
  A position report with a numeric timestamp gives the event with its device id, its timestamp
  and its position, whatever else the surrounding pipeline does.
\<close>

theorem parse_json_report:
  assumes "stripped tag" and "tag \<noteq> []"
  shows "ls_parse_dict it t (ls_json_report tag ts x y z) = Inr (Some (ls_event t (lit ''json'') tag
    (IntVal ts) (Some x, Some y, Some z) None None None None None), None)"
  by (rule json_report_fields [OF assms])

lemma parse_json_report_witness:
  "ls_parse_dict ascii_interp [] (ls_json_report (lit ''A1'') 5 f_1_5 f_9_5 FNan)
   = Inr (Some (ls_event [] (lit ''json'') (lit ''A1'') (IntVal 5)
       (Some f_1_5, Some f_9_5, Some FNan) None None None None None), None)"
  by (rule parse_json_report) code_simp+

text \<open>
  A timestamp in the format of the official scheme (\<open>config/ls_1000_scheme.json\<close>: digits, a
  hyphen and more text) is no timestamp to the parser: the message is refused as one without.
\<close>

theorem parse_json_scheme_timestamp:
  assumes "is_ls1000_json d" and "ls_first_str it d ls_tag_keys = Inr (Some tag)"
    and "dict_get d (lit ''timestamp'') = Some (JStr (year @ 45 # rest))"
    and "list_all is_decimal year" and "year \<noteq> []"
    and "list_all (\<lambda>k. dict_get d k = None) [lit ''ts_utc_ms'', lit ''ts'']"
  shows "ls_parse_dict it s d = Inr (ls_err s (lit ''json'') (lit ''missing_field'')
    (lit ''Missing timestamp in JSON payload''))"
proof -
  have "ls_first_int it d ls_ts_keys = Inr None"
    using assms(3,6) ls_parse_int_date [OF assms(4,5), of it rest]
    by (simp add: ls_ts_keys_def int_reader.read_None_iff get_or_null_def)
  then show ?thesis using assms(1,2) by (simp add: ls_parse_dict_def)
qed

lemma parse_json_scheme_timestamp_witness:
  "ls_parse_dict ascii_interp []
     [(lit ''devid'', JStr (lit ''A1'')), (lit ''timestamp'', JStr (lit ''2024-05-01 10:00:00.000''))]
   = Inr (ls_err [] (lit ''json'') (lit ''missing_field'') (lit ''Missing timestamp in JSON payload''))"
proof (rule parse_json_scheme_timestamp [where tag = "lit ''A1''" and year = "lit ''2024''"
      and rest = "lit ''05-01 10:00:00.000''"])
qed code_simp+

text \<open>
  A timestamp that is no finite number leaves the parser as an exception: \<open>int(NaN)\<close> raises a
  \<open>ValueError\<close>, \<open>int(Infinity)\<close> an \<open>OverflowError\<close>, and nothing in \<open>parse_message\<close> catches them.
\<close>

theorem parse_json_infinite_timestamp:
  assumes "is_ls1000_json d" and "ls_first_str it d ls_tag_keys = Inr (Some tag)"
    and "dict_get d (lit ''ts_utc_ms'') = Some (JFloat f)" and "py_int_of_float f = Inl e"
  shows "ls_parse_dict it s d = Inl e \<and> e = (if f = FNan then ValueError else OverflowError)"
  using assms by (cases f)
    (auto simp: ls_parse_dict_def ls_ts_keys_def ls_first_int.simps has_key_def get_or_null_def
      split: prod.splits)

lemma parse_json_infinite_timestamp_witness:
  "ls_parse_dict ascii_interp []
     [(lit ''devid'', JStr (lit ''A1'')), (lit ''ts_utc_ms'', JFloat FNan)] = Inl ValueError"
proof -
  have "ls_parse_dict ascii_interp []
     [(lit ''devid'', JStr (lit ''A1'')), (lit ''ts_utc_ms'', JFloat FNan)] = Inl ValueError
    \<and> ValueError = (if FNan = FNan then ValueError else OverflowError)"
    by (rule parse_json_infinite_timestamp [where tag = "lit ''A1''"]) code_simp+
  then show ?thesis by simp
qed

end
