(* ===== verification/Json_Normalizer.thy ===== *)
theory Json_Normalizer
  imports LS1000_Facts
begin

text \<open>
  \<open>stream_handler/json_normalizer.py\<close>: the mapping of a validated JSON payload to an event. The
  class has its own copies of the field helpers; they are modelled on their own, prefix \<open>jn_\<close>,
  and related to those of the LS-1000 parser below. \<open>now_ms\<close> is the value of
  \<open>int(time.time() * 1000)\<close> at the call.
\<close>

section \<open>Field helpers\<close>

fun jn_parse_int :: "json \<Rightarrow> pyint option res" where
  "jn_parse_int JNull = Inr None"
| "jn_parse_int (JInt i) = Inr (Some (IntVal i))"
| "jn_parse_int (JBool b) = Inr (Some (BoolVal b))"
| "jn_parse_int (JFloat f) = bind_res (py_int_of_float f) (\<lambda>i. Inr (Some (IntVal i)))"
| "jn_parse_int (JStr s) =
     (let text = strip s
      in if text = [] then Inr None
         else on_ValueError (bind_res (py_int text) (\<lambda>i. Inr (Some (IntVal i)))) None)"
| "jn_parse_int _ = Inr None"

fun jn_parse_float :: "json \<Rightarrow> pyfloat option res" where
  "jn_parse_float JNull = Inr None"
| "jn_parse_float (JInt i) = bind_res (py_float_of_int i) (\<lambda>f. Inr (Some f))"
| "jn_parse_float (JBool b) =
     bind_res (py_float_of_int (if b then 1 else 0)) (\<lambda>f. Inr (Some f))"
| "jn_parse_float (JFloat f) = Inr (Some f)"
| "jn_parse_float (JStr s) =
     (let text = strip s
      in if text = [] then Inr None
         else on_ValueError (bind_res (py_float text) (\<lambda>f. Inr (Some f))) None)"
| "jn_parse_float _ = Inr None"

fun jn_first_int :: "json dict \<Rightarrow> pystr list \<Rightarrow> pyint option res" where
  "jn_first_int obj [] = Inr None"
| "jn_first_int obj (k # ks) =
     bind_res (jn_parse_int (get_or_null obj k))
       (\<lambda>parsed. case parsed of Some v \<Rightarrow> Inr (Some v) | None \<Rightarrow> jn_first_int obj ks)"

fun jn_first_float :: "json dict \<Rightarrow> pystr list \<Rightarrow> pyfloat option res" where
  "jn_first_float obj [] = Inr None"
| "jn_first_float obj (k # ks) =
     bind_res (jn_parse_float (get_or_null obj k))
       (\<lambda>parsed. case parsed of Some v \<Rightarrow> Inr (Some v) | None \<Rightarrow> jn_first_float obj ks)"

fun jn_first_str :: "interp \<Rightarrow> json dict \<Rightarrow> pystr list \<Rightarrow> pystr option res" where
  "jn_first_str it obj [] = Inr None"
| "jn_first_str it obj (k # ks) =
     (let value = get_or_null obj k
      in if value = JNull then jn_first_str it obj ks
         else bind_res (py_str it value) (\<lambda>t.
           let text = strip t in if text \<noteq> [] then Inr (Some text) else jn_first_str it obj ks))"

text \<open>\<open>_extract_xyz\<close>: the nested position counts when it has any of the three.\<close>

definition jn_xyz :: "json dict \<Rightarrow> xyz res" where
  "jn_xyz d =
     bind_res (jn_first_float d [lit ''x'']) (\<lambda>x.
     bind_res (jn_first_float d [lit ''y'']) (\<lambda>y.
     bind_res (jn_first_float d [lit ''z'']) (\<lambda>z. Inr (x, y, z))))"

definition jn_extract_xyz :: "json dict \<Rightarrow> xyz res" where
  "jn_extract_xyz obj =
     (case get_or_null obj (lit ''position'') of
        JObj position \<Rightarrow>
          bind_res (jn_xyz position) (\<lambda>(x, y, z).
            if x \<noteq> None \<or> y \<noteq> None \<or> z \<noteq> None then Inr (x, y, z) else jn_xyz obj)
      | _ \<Rightarrow> jn_xyz obj)"

section \<open>normalize\<close>

definition jn_tag_keys :: "pystr list" where
  "jn_tag_keys = [lit ''tag_id'', lit ''devid'', lit ''dev_id'', lit ''tag'', lit ''id'']"

definition jn_ts_keys :: "pystr list" where
  "jn_ts_keys = [lit ''ts_utc_ms'', lit ''timestamp'', lit ''ts'']"

definition ts_warning :: pystr where
  "ts_warning = lit ''timestamp_missing_used_ingestion_time''"

text \<open>The event, given the results of the readers; without a timestamp it is that of the ingestion.\<close>

definition jn_event ::
  "pystr \<Rightarrow> int \<Rightarrow> pystr \<Rightarrow> pystr \<Rightarrow> pyint option \<Rightarrow> xyz \<Rightarrow> pyint option \<Rightarrow> pystr option
    \<Rightarrow> pystr option \<Rightarrow> pyfloat option \<Rightarrow> pyfloat option \<Rightarrow> normalized_event" where
  "jn_event origin now_ms raw_message tag ts xyz layer area status lng lat =
     \<lparr>ev_origin = origin, ev_tag_id = tag,
      ev_ts_utc_ms = (case ts of Some t \<Rightarrow> t | None \<Rightarrow> IntVal now_ms),
      ev_x = fst xyz, ev_y = fst (snd xyz), ev_z = snd (snd xyz),
      ev_layer = layer, ev_area = area, ev_status = status,
      ev_source_type = lit ''json'', ev_raw_message = raw_message,
      ev_lng = lng, ev_lat = lat,
      ev_parse_warnings = (if ts = None then [ts_warning] else [])\<rparr>"

definition normalize_dict ::
  "interp \<Rightarrow> pystr \<Rightarrow> int \<Rightarrow> json dict \<Rightarrow> pystr \<Rightarrow> normalized_event option res" where
  "normalize_dict it origin now_ms obj raw_message =
     bind_res (jn_first_str it obj jn_tag_keys) (\<lambda>tag_id.
       case tag_id of
         None \<Rightarrow> Inr None
       | Some tag \<Rightarrow>
           bind_res (jn_first_int obj jn_ts_keys) (\<lambda>ts.
           bind_res (jn_extract_xyz obj) (\<lambda>xyz.
           bind_res (jn_first_float obj [lit ''lng'', lit ''lon'', lit ''longitude'']) (\<lambda>lng.
           bind_res (jn_first_float obj [lit ''lat'', lit ''latitude'']) (\<lambda>lat.
           bind_res (jn_first_int obj [lit ''layer'', lit ''layid'', lit ''floor'']) (\<lambda>layer.
           bind_res (jn_first_str it obj [lit ''area'', lit ''rgn'']) (\<lambda>area.
           bind_res (jn_first_str it obj [lit ''status'']) (\<lambda>status.
             Inr (Some (jn_event origin now_ms raw_message tag ts xyz layer area status lng lat))))))))))"

definition normalize ::
  "interp \<Rightarrow> pystr \<Rightarrow> int \<Rightarrow> json \<Rightarrow> pystr \<Rightarrow> normalized_event option res" where
  "normalize it origin now_ms obj raw_message =
     (case obj of
        JObj d \<Rightarrow> normalize_dict it origin now_ms d raw_message
      | _ \<Rightarrow> Inl AttributeError)"

section \<open>The readers\<close>

interpretation jn_int_reader: field_reader jn_parse_int jn_first_int
  by unfold_locales auto

interpretation jn_float_reader: field_reader jn_parse_float jn_first_float
  by unfold_locales auto

interpretation jn_str_reader: field_reader "text_of it" "jn_first_str it" for it
proof unfold_locales
  show "jn_first_str it d (k # ks) = bind_res (text_of it (get_or_null d k))
      (\<lambda>r. case r of Some v \<Rightarrow> Inr (Some v) | None \<Rightarrow> jn_first_str it d ks)" for d k ks
    by (cases "py_str it (get_or_null d k)") (simp_all add: text_of_def Let_def)
qed (simp_all add: text_of_def)

text \<open>The copies agree with the helpers of the LS-1000 parser, hexadecimal integers apart.\<close>

lemma jn_parse_float_eq: "jn_parse_float v = ls_parse_float v"
  by (cases v) simp_all

lemma jn_first_float_eq: "jn_first_float d ks = ls_first_float d ks"
  by (rule readers_agree [OF jn_float_reader.field_reader_axioms float_reader.field_reader_axioms])
    (simp add: jn_parse_float_eq)

lemma jn_first_str_eq: "jn_first_str it d ks = ls_first_str it d ks"
  by (rule readers_agree [OF jn_str_reader.field_reader_axioms str_reader.field_reader_axioms]) simp

definition is_hex_text :: "interp \<Rightarrow> json \<Rightarrow> bool" where
  "is_hex_text it v =
     (case v of JStr s \<Rightarrow> startswith (lit ''0x'') (py_lower it (strip s)) | _ \<Rightarrow> False)"

lemma jn_parse_int_eq: "\<not> is_hex_text it v \<Longrightarrow> jn_parse_int v = ls_parse_int it v"
  by (cases v) (simp_all add: is_hex_text_def Let_def)

lemma jn_first_int_eq:
  assumes "list_all (\<lambda>k. \<not> is_hex_text it (get_or_null d k)) ks"
  shows "jn_first_int d ks = ls_first_int it d ks"
  by (rule readers_agree [OF jn_int_reader.field_reader_axioms int_reader.field_reader_axioms])
    (use assms in \<open>auto simp: list_all_iff jn_parse_int_eq\<close>)

lemma jn_parse_int_error: "jn_parse_int v = Inl e \<Longrightarrow> number_error e"
  by (cases v) (auto simp: res_simps Let_def on_ValueError_def dest: py_int_error py_int_of_float_error
      split: sum.splits if_splits)

declare jn_first_int.simps [simp del] jn_first_float.simps [simp del] jn_first_str.simps [simp del]

section \<open>What normalize returns\<close>

lemma jn_xyz_eq: "jn_xyz d = top_level_xyz d"
  by (simp add: jn_xyz_def top_level_xyz_def jn_first_float_eq)

lemma jn_extract_xyz_error: "jn_extract_xyz d = Inl e \<Longrightarrow> number_error e"
  by (auto simp: jn_extract_xyz_def jn_xyz_eq top_level_xyz_def res_simps dest: ls_first_float_error
      split: json.splits if_splits)

lemma jn_first_int_error: "jn_first_int d ks = Inl e \<Longrightarrow> number_error e"
  by (induction ks)
    (auto simp: jn_int_reader.read_Cons jn_int_reader.read_Nil res_simps dest: jn_parse_int_error
      split: option.splits)

lemma jn_first_float_error: "jn_first_float d ks = Inl e \<Longrightarrow> number_error e"
  using ls_first_float_error by (simp add: jn_first_float_eq)

lemma jn_first_str_error: "jn_first_str it d ks = Inl e \<Longrightarrow> number_error e"
  using ls_first_str_error by (simp add: jn_first_str_eq)

lemma jn_first_str_stripped: "jn_first_str it d ks = Inr (Some t) \<Longrightarrow> t \<noteq> [] \<and> stripped t"
  using ls_first_str_stripped by (simp add: jn_first_str_eq)

lemmas jn_reader_errors = jn_first_int_error jn_first_float_error jn_first_str_error
  jn_extract_xyz_error

lemma normalize_dict_error: "normalize_dict it origin now_ms d raw = Inl e \<Longrightarrow> number_error e"
  by (auto simp: normalize_dict_def res_simps dest: jn_reader_errors split: option.splits)

lemma normalize_dict_event:
  assumes "normalize_dict it origin now_ms d raw = Inr (Some ev)"
  shows "\<exists>tag ts xyz lng lat layer area status.
    jn_first_str it d jn_tag_keys = Inr (Some tag) \<and> jn_first_int d jn_ts_keys = Inr ts
    \<and> jn_extract_xyz d = Inr xyz
    \<and> jn_first_float d [lit ''lng'', lit ''lon'', lit ''longitude''] = Inr lng
    \<and> jn_first_float d [lit ''lat'', lit ''latitude''] = Inr lat
    \<and> jn_first_int d [lit ''layer'', lit ''layid'', lit ''floor''] = Inr layer
    \<and> jn_first_str it d [lit ''area'', lit ''rgn''] = Inr area
    \<and> jn_first_str it d [lit ''status''] = Inr status
    \<and> ev = jn_event origin now_ms raw tag ts xyz layer area status lng lat"
  using assms by (auto simp: normalize_dict_def res_simps split: option.splits)

lemma normalize_dict_None:
  "normalize_dict it origin now_ms d raw = Inr None \<longleftrightarrow> jn_first_str it d jn_tag_keys = Inr None"
  by (auto simp: normalize_dict_def res_simps split: option.splits)


section \<open>The two parsers\<close>

text \<open>A payload whose nested position, when there is one, has both \<open>x\<close> and \<open>y\<close>.\<close>

definition whole_position :: "json dict \<Rightarrow> bool" where
  "whole_position d =
     (case get_or_null d (lit ''position'') of
        JObj p \<Rightarrow>
          list_all (\<lambda>k. case ls_parse_float (get_or_null p k) of Inr (Some _) \<Rightarrow> True | _ \<Rightarrow> False)
            [lit ''x'', lit ''y'']
      | _ \<Rightarrow> True)"

lemma jn_first_float_single: "jn_first_float d [k] = ls_parse_float (get_or_null d k)"
  by (cases "ls_parse_float (get_or_null d k)")
    (simp_all add: jn_float_reader.read_Cons jn_float_reader.read_Nil jn_parse_float_eq
      split: option.split)

lemma jn_extract_xyz_eq:
  assumes "whole_position d"
  shows "jn_extract_xyz d = extract_xyz_from_json d"
proof (cases "get_or_null d (lit ''position'')")
  case (JObj p)
  with assms obtain x y where "ls_parse_float (get_or_null p (lit ''x'')) = Inr (Some x)"
    "ls_parse_float (get_or_null p (lit ''y'')) = Inr (Some y)"
    by (auto simp: whole_position_def split: sum.splits option.splits)
  then show ?thesis
    by (simp add: jn_extract_xyz_def extract_xyz_from_json_def JObj jn_xyz_def [of p]
        jn_first_float_single bind_res_assoc)
qed (simp_all add: jn_extract_xyz_def extract_xyz_from_json_def jn_xyz_eq)

lemma ls_parse_dict_event:
  assumes "ls_parse_dict it s d = Inr (Some ev, None)"
  shows "\<exists>tag ts xyz lng lat layer status area.
    ls_first_str it d ls_tag_keys = Inr (Some tag) \<and> ls_first_int it d ls_ts_keys = Inr (Some ts)
    \<and> extract_xyz_from_json d = Inr xyz
    \<and> ls_first_float d [lit ''lng'', lit ''lon'', lit ''longitude''] = Inr lng
    \<and> ls_first_float d [lit ''lat'', lit ''latitude''] = Inr lat
    \<and> ls_first_int it d [lit ''layer'', lit ''layid'', lit ''floor''] = Inr layer
    \<and> ls_first_str it d [lit ''status''] = Inr status
    \<and> ls_first_str it d [lit ''area''] = Inr area
    \<and> ev = ls_event s (lit ''json'') tag ts xyz layer area status lng lat"
  using assms
  by (auto simp: ls_parse_dict_def ls_json_event_def res_simps ls_err_def
      split: if_splits option.splits)

lemma jn_area: "get_or_null d (lit ''rgn'') = JNull \<Longrightarrow>
    jn_first_str it d [lit ''area'', lit ''rgn''] = ls_first_str it d [lit ''area'']"
  by (simp add: jn_first_str_eq ls_first_str.simps Let_def cong: if_cong)



section \<open>Normalizing a normalized payload\<close>

lemma jn_parse_pyint [simp]:
  "jn_parse_int (json_of_pyint p) = Inr (Some p)"
  "jn_parse_int (json_opt json_of_pyint q) = Inr q"
  by (cases p; simp) (cases q; cases "the q"; auto)

lemma jn_parse_opt_float [simp]: "ls_parse_float (json_opt JFloat f) = Inr f"
  by (cases f) simp_all

lemma text_of_opt_str [simp]:
  "pred_option (\<lambda>t. t \<noteq> [] \<and> stripped t) s \<Longrightarrow> text_of it (json_opt JStr s) = Inr s"
  by (cases s) (simp_all add: text_of_def)

lemma asdict_get_or_null [simp]:
  "get_or_null (asdict ev) (lit ''tag_id'') = JStr (ev_tag_id ev)"
  "get_or_null (asdict ev) (lit ''ts_utc_ms'') = json_of_pyint (ev_ts_utc_ms ev)"
  "get_or_null (asdict ev) (lit ''x'') = json_opt JFloat (ev_x ev)"
  "get_or_null (asdict ev) (lit ''y'') = json_opt JFloat (ev_y ev)"
  "get_or_null (asdict ev) (lit ''z'') = json_opt JFloat (ev_z ev)"
  "get_or_null (asdict ev) (lit ''layer'') = json_opt json_of_pyint (ev_layer ev)"
  "get_or_null (asdict ev) (lit ''area'') = json_opt JStr (ev_area ev)"
  "get_or_null (asdict ev) (lit ''status'') = json_opt JStr (ev_status ev)"
  "get_or_null (asdict ev) (lit ''lng'') = json_opt JFloat (ev_lng ev)"
  "get_or_null (asdict ev) (lit ''lat'') = json_opt JFloat (ev_lat ev)"
  by (simp_all add: get_or_null_def)

lemma asdict_absent [simp]:
  "list_all (\<lambda>k. get_or_null (asdict ev) k = JNull)
     [lit ''position'', lit ''rgn'', lit ''lon'', lit ''longitude'', lit ''latitude'',
      lit ''layid'', lit ''floor'', lit ''devid'', lit ''timestamp'']"
  by (simp add: get_or_null_def asdict_def)

lemma normalize_payload:
  assumes "ev_tag_id ev \<noteq> []" and "stripped (ev_tag_id ev)"
    and opt: "pred_option (\<lambda>t. t \<noteq> [] \<and> stripped t) (ev_area ev)"
      "pred_option (\<lambda>t. t \<noteq> [] \<and> stripped t) (ev_status ev)"
  shows "normalize it origin now_ms (JObj (asdict ev)) raw
    = Inr (Some (ev\<lparr>ev_origin := origin, ev_source_type := lit ''json'', ev_raw_message := raw,
        ev_parse_warnings := []\<rparr>))"
proof -
  note absent = asdict_absent [of ev, simplified]
  have "jn_first_str it (asdict ev) jn_tag_keys = Inr (Some (ev_tag_id ev))"
    using assms(1,2) by (simp add: jn_tag_keys_def jn_str_reader.read_Cons text_of_def)
  moreover have "jn_first_int (asdict ev) jn_ts_keys = Inr (Some (ev_ts_utc_ms ev))"
    by (simp add: jn_ts_keys_def jn_int_reader.read_Cons)
  moreover have "jn_extract_xyz (asdict ev) = Inr (ev_x ev, ev_y ev, ev_z ev)"
    using absent by (simp add: jn_extract_xyz_def jn_xyz_def jn_first_float_single)
  moreover have "jn_first_float (asdict ev) [lit ''lng'', lit ''lon'', lit ''longitude''] = Inr (ev_lng ev)"
    using absent by (simp add: jn_float_reader.read_Cons jn_float_reader.read_Nil jn_parse_float_eq
        split: option.split)
  moreover have "jn_first_float (asdict ev) [lit ''lat'', lit ''latitude''] = Inr (ev_lat ev)"
    using absent by (simp add: jn_float_reader.read_Cons jn_float_reader.read_Nil jn_parse_float_eq
        split: option.split)
  moreover have "jn_first_int (asdict ev) [lit ''layer'', lit ''layid'', lit ''floor''] = Inr (ev_layer ev)"
    using absent by (simp add: jn_int_reader.read_Cons jn_int_reader.read_Nil split: option.split)
  moreover have "jn_first_str it (asdict ev) [lit ''area'', lit ''rgn''] = Inr (ev_area ev)"
    using absent opt by (simp add: jn_str_reader.read_Cons jn_str_reader.read_Nil text_of_def [of it JNull]
        split: option.split)
  moreover have "jn_first_str it (asdict ev) [lit ''status''] = Inr (ev_status ev)"
    using opt by (simp add: jn_str_reader.read_Cons jn_str_reader.read_Nil split: option.split)
  ultimately show ?thesis by (simp add: normalize_def normalize_dict_def jn_event_def)
qed

text \<open>
  Normalizing is idempotent: the payload of an event that the normalizer made, normalized
  again at any later time, gives the same event, now without the warning.
\<close>

theorem normalize_idempotent:
  assumes "normalize it origin now_ms obj raw = Inr (Some ev)"
  shows "normalize it origin later_ms (JObj (asdict ev)) raw = Inr (Some (ev\<lparr>ev_parse_warnings := []\<rparr>))"
proof -
  from assms obtain d where "obj = JObj d" and n: "normalize_dict it origin now_ms d raw = Inr (Some ev)"
    by (cases obj) (auto simp: normalize_def)
  from normalize_dict_event [OF n] obtain tag ts xyz lng lat layer area status
    where r: "jn_first_str it d jn_tag_keys = Inr (Some tag)"
      "jn_first_str it d [lit ''area'', lit ''rgn''] = Inr area"
      "jn_first_str it d [lit ''status''] = Inr status"
      and ev: "ev = jn_event origin now_ms raw tag ts xyz layer area status lng lat"
    by blast
  have "pred_option (\<lambda>t. t \<noteq> [] \<and> stripped t) area" "pred_option (\<lambda>t. t \<noteq> [] \<and> stripped t) status"
    using r(2,3) jn_first_str_stripped by (cases area; cases status; auto)+
  with normalize_payload [of ev it origin later_ms raw] jn_first_str_stripped [OF r(1)]
  show ?thesis by (simp add: ev jn_event_def)
qed

lemma normalize_idempotent_witness:
  "normalize ascii_interp (lit ''sim'') 20
     (JObj (asdict (jn_event (lit ''sim'') 9 [] (lit ''A1'') None (None, None, None) None None None None None))) []
   = Inr (Some ((jn_event (lit ''sim'') 9 [] (lit ''A1'') None (None, None, None) None None None None None)
       \<lparr>ev_parse_warnings := []\<rparr>))"
  by (rule normalize_idempotent [where now_ms = 9 and obj = "JObj [(lit ''tag'', JStr (lit '' A1''))]"])
    code_simp

end
