(* ===== verification/Utf8.thy ===== *)
theory Utf8
  imports Json_Roundtrip
begin

text \<open>
  The codecs between \<open>str\<close> and \<open>bytes\<close> that the program uses: \<open>s.encode("utf-8")\<close>,
  \<open>data.decode("utf-8")\<close>, and \<open>json.loads(data)\<close> on bytes, which guesses among UTF-8, UTF-16 and
  UTF-32 and lets surrogates pass. Bytes are integers from 0 to 255. The locale \<open>codec\<close> is the
  contract the two ends of a wire rely on.
\<close>

section \<open>Encoding\<close>

definition utf8_char :: "int \<Rightarrow> bytes" where
  "utf8_char c =
     (if c < 128 then [c]
      else if c < 2048 then [192 + c div 64, 128 + c mod 64]
      else if c < 65536 then [224 + c div 4096, 128 + c div 64 mod 64, 128 + c mod 64]
      else [240 + c div 262144, 128 + c div 4096 mod 64, 128 + c div 64 mod 64, 128 + c mod 64])"

definition encode_utf8 :: "pystr \<Rightarrow> bytes res" where
  "encode_utf8 s =
     (if list_ex is_surrogate s then Inl UnicodeEncodeError else Inr (concat (map utf8_char s)))"

section \<open>Decoding\<close>

definition is_cont :: "int \<Rightarrow> bool" where
  "is_cont b \<longleftrightarrow> 128 \<le> b \<and> b < 192"

text \<open>
  One character and the rest of the bytes. Overlong forms, surrogates (unless they may pass) and
  code points above the range are refused.
\<close>

definition utf8_step :: "bool \<Rightarrow> bytes \<Rightarrow> (int \<times> bytes) option" where
  "utf8_step surrogatepass bs =
     (case bs of
        [] \<Rightarrow> None
      | b # r \<Rightarrow>
          if 0 \<le> b \<and> b < 128 then Some (b, r)
          else if 194 \<le> b \<and> b < 224 then
            (case r of
               c1 # r1 \<Rightarrow>
                 if is_cont c1 then Some ((b - 192) * 64 + (c1 - 128), r1) else None
             | _ \<Rightarrow> None)
          else if 224 \<le> b \<and> b < 240 then
            (case r of
               c1 # c2 # r2 \<Rightarrow>
                 let c = (b - 224) * 4096 + (c1 - 128) * 64 + (c2 - 128)
                 in if is_cont c1 \<and> is_cont c2 \<and> 2048 \<le> c \<and> (surrogatepass \<or> \<not> is_surrogate c)
                    then Some (c, r2) else None
             | _ \<Rightarrow> None)
          else if 240 \<le> b \<and> b < 245 then
            (case r of
               c1 # c2 # c3 # r3 \<Rightarrow>
                 let c = (b - 240) * 262144 + (c1 - 128) * 4096 + (c2 - 128) * 64 + (c3 - 128)
                 in if is_cont c1 \<and> is_cont c2 \<and> is_cont c3 \<and> 65536 \<le> c \<and> c < 1114112
                    then Some (c, r3) else None
             | _ \<Rightarrow> None)
          else None)"

text \<open>Two bytes of UTF-16 (a pair of surrogates takes two units), four of UTF-32.\<close>

definition unit16 :: "bool \<Rightarrow> int \<Rightarrow> int \<Rightarrow> int" where
  "unit16 big a b = (if big then a * 256 + b else b * 256 + a)"

definition utf16_step :: "bool \<Rightarrow> bytes \<Rightarrow> (int \<times> bytes) option" where
  "utf16_step big bs =
     (case bs of
        a # b # r \<Rightarrow>
          let h = unit16 big a b
          in (case r of
                c # d # r2 \<Rightarrow>
                  let l = unit16 big c d
                  in if high_surrogate h \<and> low_surrogate l then Some (join_surrogates h l, r2)
                     else Some (h, r)
              | _ \<Rightarrow> Some (h, r))
      | _ \<Rightarrow> None)"

definition utf32_step :: "bool \<Rightarrow> bytes \<Rightarrow> (int \<times> bytes) option" where
  "utf32_step big bs =
     (case bs of
        a # b # c # d # r \<Rightarrow>
          let v = (if big then unit16 True a b * 65536 + unit16 True c d
                   else unit16 False c d * 65536 + unit16 False a b)
          in if v < 1114112 then Some (v, r) else None
      | _ \<Rightarrow> None)"

text \<open>All characters; the fuel is the number of bytes, since every step consumes at least one.\<close>

fun decode_steps :: "nat \<Rightarrow> (bytes \<Rightarrow> (int \<times> bytes) option) \<Rightarrow> bytes \<Rightarrow> pystr option" where
  "decode_steps n step [] = Some []"
| "decode_steps 0 step (b # bs) = None"
| "decode_steps (Suc n) step (b # bs) =
     (case step (b # bs) of
        None \<Rightarrow> None
      | Some (c, r) \<Rightarrow> map_option ((#) c) (decode_steps n step r))"

definition decode_with :: "(bytes \<Rightarrow> (int \<times> bytes) option) \<Rightarrow> bytes \<Rightarrow> pystr res" where
  "decode_with step bs =
     (case decode_steps (length bs) step bs of None \<Rightarrow> Inl UnicodeDecodeError | Some s \<Rightarrow> Inr s)"

definition decode_utf8 :: "bytes \<Rightarrow> pystr res" where
  "decode_utf8 bs = decode_with (utf8_step False) bs"

section \<open>json.loads on bytes\<close>

text \<open>The decoder chosen by \<open>json.detect_encoding\<close>, after the byte order mark.\<close>

definition detect_decode :: "bytes \<Rightarrow> pystr res" where
  "detect_decode b =
     (if startswith [0, 0, 254, 255] b then decode_with (utf32_step True) (drop 4 b)
      else if startswith [255, 254, 0, 0] b then decode_with (utf32_step False) (drop 4 b)
      else if startswith [254, 255] b then decode_with (utf16_step True) (drop 2 b)
      else if startswith [255, 254] b then decode_with (utf16_step False) (drop 2 b)
      else if startswith [239, 187, 191] b then decode_with (utf8_step True) (drop 3 b)
      else if 4 \<le> length b then
        (if b ! 0 = 0
         then (if b ! 1 \<noteq> 0 then decode_with (utf16_step True) b
               else decode_with (utf32_step True) b)
         else if b ! 1 = 0
         then (if b ! 2 \<noteq> 0 \<or> b ! 3 \<noteq> 0 then decode_with (utf16_step False) b
               else decode_with (utf32_step False) b)
         else decode_with (utf8_step True) b)
      else if length b = 2 \<and> b ! 0 = 0 then decode_with (utf16_step True) b
      else if length b = 2 \<and> b ! 1 = 0 then decode_with (utf16_step False) b
      else decode_with (utf8_step True) b)"

definition json_loads_bytes :: "bytes \<Rightarrow> json res" where
  "json_loads_bytes b = bind_res (detect_decode b) json_loads"

section \<open>Round trip\<close>

text \<open>The bytes of a character, by the six-bit groups of its code point.\<close>

lemma utf8_step_two:
  "2 \<le> a \<Longrightarrow> a < 32 \<Longrightarrow> 0 \<le> x \<Longrightarrow> x < 64 \<Longrightarrow>
     utf8_step sp ((192 + a) # (128 + x) # r) = Some (a * 64 + x, r)"
  by (simp add: utf8_step_def is_cont_def)

lemma utf8_step_three:
  "0 \<le> a \<Longrightarrow> a < 16 \<Longrightarrow> 0 \<le> x \<Longrightarrow> x < 64 \<Longrightarrow> 0 \<le> y \<Longrightarrow> y < 64 \<Longrightarrow> c = a * 4096 + x * 64 + y \<Longrightarrow>
     2048 \<le> c \<Longrightarrow> \<not> is_surrogate c \<Longrightarrow>
     utf8_step sp ((224 + a) # (128 + x) # (128 + y) # r) = Some (c, r)"
  by (simp add: utf8_step_def is_cont_def Let_def)

lemma utf8_step_four:
  "0 \<le> a \<Longrightarrow> a < 5 \<Longrightarrow> 0 \<le> x \<Longrightarrow> x < 64 \<Longrightarrow> 0 \<le> y \<Longrightarrow> y < 64 \<Longrightarrow> 0 \<le> z \<Longrightarrow> z < 64 \<Longrightarrow>
     c = a * 262144 + x * 4096 + y * 64 + z \<Longrightarrow> 65536 \<le> c \<Longrightarrow> c < 1114112 \<Longrightarrow>
     utf8_step sp ((240 + a) # (128 + x) # (128 + y) # (128 + z) # r) = Some (c, r)"
  by (simp add: utf8_step_def is_cont_def Let_def)

lemma utf8_step_char:
  assumes "0 \<le> c" and "c < 1114112" and "\<not> is_surrogate c"
  shows "utf8_step sp (utf8_char c @ r) = Some (c, r)"
proof -
  have m: "0 \<le> x mod 64" "x mod 64 < 64" for x :: int by simp_all
  define a b d where "a = c div 64" and "b = a div 64" and "d = b div 64"
  have s: "a * 64 + c mod 64 = c" "b * 64 + a mod 64 = a" "d * 64 + b mod 64 = b"
    by (simp_all add: a_def b_def d_def)
  have e: "c div 4096 = b" "c div 262144 = d"
    by (simp_all add: a_def b_def d_def zdiv_zmult2_eq [symmetric])
  have u: "utf8_char c =
      (if c < 128 then [c] else if c < 2048 then [192 + a, 128 + c mod 64]
       else if c < 65536 then [224 + b, 128 + a mod 64, 128 + c mod 64]
       else [240 + d, 128 + b mod 64, 128 + a mod 64, 128 + c mod 64])"
    by (simp only: utf8_char_def e flip: a_def)
  consider "c < 128" | "128 \<le> c" "c < 2048" | "2048 \<le> c" "c < 65536" | "65536 \<le> c" by linarith
  then show ?thesis
  proof cases
    case 1
    then show ?thesis using assms(1) by (simp add: u utf8_step_def)
  next
    case 2
    have "2 \<le> a" "a < 32" using s(1) m [of c] 2 by linarith+
    then show ?thesis using 2 utf8_step_two [OF _ _ m, of a sp c r] s(1) by (simp add: u)
  next
    case 3
    have "0 \<le> b" "b < 16" using s(1,2) m [of c] m [of a] 3 by linarith+
    moreover have "c = b * 4096 + a mod 64 * 64 + c mod 64" using s(1,2) by linarith
    ultimately show ?thesis
      using 3 utf8_step_three [OF _ _ m m, of b c a c sp r] assms(3) by (simp add: u)
  next
    case 4
    have "0 \<le> d" "d < 5" using s m [of c] m [of a] m [of b] 4 assms(2) by linarith+
    moreover have "c = d * 262144 + b mod 64 * 4096 + a mod 64 * 64 + c mod 64" using s by linarith
    ultimately show ?thesis
      using 4 utf8_step_four [OF _ _ m m m, of d c b a c sp r] assms(2) by (simp add: u)
  qed
qed

lemma utf8_char_Cons: "\<exists>b r. utf8_char c = b # r"
  by (simp add: utf8_char_def)

lemma decode_steps_utf8:
  "scalar_str s \<Longrightarrow> length (concat (map utf8_char s)) \<le> n \<Longrightarrow>
     decode_steps n (utf8_step sp) (concat (map utf8_char s)) = Some s"
proof (induction s arbitrary: n)
  case (Cons c s)
  have c: "utf8_step sp (utf8_char c @ concat (map utf8_char s)) = Some (c, concat (map utf8_char s))"
    using Cons.prems(1) by (intro utf8_step_char) (simp_all add: scalar_str_def)
  obtain b r where "utf8_char c = b # r" using utf8_char_Cons by blast
  then show ?case
    using Cons c by (cases n) (auto simp: scalar_str_def)
qed simp

lemma scalar_str_encode:
  "valid_str s \<Longrightarrow> encode_utf8 s = Inr b \<longleftrightarrow> scalar_str s \<and> b = concat (map utf8_char s)"
  by (auto simp: encode_utf8_def scalar_str_def valid_str_def list_all_iff list_ex_iff)

theorem decode_encode_utf8:
  assumes "valid_str s" and "encode_utf8 s = Inr b"
  shows "decode_utf8 b = Inr s"
  using assms decode_steps_utf8 [of s "length b" False]
  by (simp add: scalar_str_encode decode_utf8_def decode_with_def)

text \<open>What the decoder returns holds no surrogates, so it can be encoded again.\<close>

lemma utf8_step_scalar:
  "utf8_step False bs = Some (c, r) \<Longrightarrow> 0 \<le> c \<and> c < 1114112 \<and> \<not> is_surrogate c"
  by (auto simp: utf8_step_def is_cont_def is_surrogate_def Let_def split: list.splits if_splits)

lemma decode_steps_scalar: "decode_steps n (utf8_step False) bs = Some s \<Longrightarrow> scalar_str s"
proof (induction n "utf8_step False" bs arbitrary: s rule: decode_steps.induct)
  case (3 n b bs)
  then show ?case by (auto simp: scalar_str_def utf8_step_scalar split: option.splits)
qed (auto simp: scalar_str_def)

lemma scalar_valid_str: "scalar_str s \<Longrightarrow> valid_str s"
  by (simp add: scalar_str_def valid_str_def list_all_iff)

theorem decode_utf8_scalar: "decode_utf8 b = Inr s \<Longrightarrow> scalar_str s"
  by (auto simp: decode_utf8_def decode_with_def dest: decode_steps_scalar split: option.splits)

lemma encode_scalar: "scalar_str s \<Longrightarrow> encode_utf8 s = Inr (concat (map utf8_char s))"
  using scalar_str_encode [OF scalar_valid_str] by blast

lemma decode_with_utf8:
  "scalar_str s \<Longrightarrow> decode_with (utf8_step sp) (concat (map utf8_char s)) = Inr s"
  by (simp add: decode_with_def decode_steps_utf8)

section \<open>The contract of a codec\<close>

text \<open>
  A codec writes some values and reads back each value it wrote. Two codecs in a row are a codec,
  which is how the two ends of the wire are put together: \<open>dumps\<close> and UTF-8.
\<close>

locale codec =
  fixes enc :: "'a \<Rightarrow> 'b res" and dec :: "'b \<Rightarrow> 'a res" and ok :: "'a \<Rightarrow> bool"
  assumes dec_enc: "ok a \<Longrightarrow> enc a = Inr b \<Longrightarrow> dec b = Inr a"
begin

lemma enc_inj: "ok a \<Longrightarrow> ok a' \<Longrightarrow> enc a = Inr b \<Longrightarrow> enc a' = Inr b \<Longrightarrow> a = a'"
  using dec_enc [of a b] dec_enc [of a' b] by simp

lemma dec_map: "list_all ok as \<Longrightarrow> map_res enc as = Inr bs \<Longrightarrow> map_res dec bs = Inr as"
proof (induction as arbitrary: bs)
  case (Cons a as)
  then obtain b cs where "enc a = Inr b" "map_res enc as = Inr cs" "bs = b # cs"
    by (auto simp: map_res_Cons_Inr simp del: map_res.simps)
  then show ?case using Cons dec_enc [of a b] by simp
qed simp

end

locale codec_pair = inner: codec enc dec ok + outer: codec enc' dec' ok'
  for enc :: "'a \<Rightarrow> 'b res" and dec and ok and enc' :: "'b \<Rightarrow> 'c res" and dec' and ok' +
  assumes enc_ok: "ok a \<Longrightarrow> enc a = Inr b \<Longrightarrow> ok' b"
begin

lemma pair_dec_enc:
  assumes "ok a" and "bind_res (enc a) enc' = Inr c"
  shows "bind_res (dec' c) dec = Inr a"
proof -
  obtain b where "enc a = Inr b" "enc' b = Inr c" using assms(2) by (auto simp: res_simps)
  then show ?thesis
    using inner.dec_enc [of a b] outer.dec_enc [of b c] enc_ok [of a b] assms(1) by simp
qed

end

sublocale codec_pair \<subseteq> both: codec "\<lambda>a. bind_res (enc a) enc'" "\<lambda>c. bind_res (dec' c) dec" ok
  by unfold_locales (rule pair_dec_enc)

interpretation utf8: codec encode_utf8 decode_utf8 valid_str
  by unfold_locales (rule decode_encode_utf8)

lemma json_dumps_valid: "wf_json v \<Longrightarrow> json_dumps v = Inr t \<Longrightarrow> valid_str t"
  by (drule (1) json_dumps_chars) (force simp: valid_str_def list_all_iff)

interpretation wire: codec_pair json_dumps json_loads wf_json encode_utf8 decode_utf8 valid_str
  by unfold_locales (auto intro: json_loads_dumps json_dumps_valid)

section \<open>Reading the wire with json.loads\<close>

lemma utf8_char_ge: "32 \<le> c \<Longrightarrow> list_all (\<lambda>b. 32 \<le> b) (utf8_char c)"
  by (auto simp: utf8_char_def)

lemma utf8_chars_ge:
  "list_all (\<lambda>c. 32 \<le> c) s \<Longrightarrow> list_all (\<lambda>b. 32 \<le> b) (concat (map utf8_char s))"
  by (induction s) (simp_all add: utf8_char_ge)

lemma detect_decode_brace:
  assumes "scalar_str (123 # t)" and "list_all (\<lambda>c. 32 \<le> c) t"
  shows "detect_decode (concat (map utf8_char (123 # t))) = Inr (123 # t)"
proof -
  have b: "concat (map utf8_char (123 # t)) = 123 # concat (map utf8_char t)"
    by (simp add: utf8_char_def)
  have "detect_decode (123 # r) = decode_with (utf8_step True) (123 # r)"
    if "list_all (\<lambda>b. 32 \<le> b) r" for r
    using that by (cases r) (auto simp: detect_decode_def startswith_def)
  from this [OF utf8_chars_ge [OF assms(2)]] show ?thesis using decode_with_utf8 [OF assms(1)] b by simp
qed

theorem json_loads_bytes_dumps:
  assumes "wf_json (JObj d)" and "json_dumps (JObj d) = Inr t" and "encode_utf8 t = Inr b"
  shows "json_loads_bytes b = Inr (JObj d)"
proof -
  note ch = json_dumps_chars [OF assms(1,2)]
  have v: "valid_str t" by (rule json_dumps_valid [OF assms(1,2)])
  obtain u where u: "t = 123 # u"
    using assms(2) by (auto simp: json_dumps_def json_text_JObj res_simps simp del: json_text.simps)
  have "scalar_str t" "b = concat (map utf8_char t)" using assms(3) scalar_str_encode [OF v] by auto
  moreover have "list_all (\<lambda>c. 32 \<le> c) u" using ch u by (auto simp: list_all_iff)
  ultimately have "detect_decode b = Inr t" using detect_decode_brace [of u] u by simp
  then show ?thesis using json_loads_dumps [OF assms(1,2)] by (simp add: json_loads_bytes_def)
qed

end
