(* ===== verification/Tracing.thy ===== *)
theory Tracing
  imports Utf8
begin

text \<open>
  \<open>core/tracing.py\<close>: how the W3C trace context travels in JSON payloads and AMQP headers. The
  propagator, the span ids and the context type belong to OpenTelemetry; they are the record
  \<open>otel\<close>: what \<open>extract\<close> makes of a getter, whether a context is true in a condition, and the
  header fields \<open>inject\<close> sets for a current context and a fresh span. \<open>init_tracing\<close> is the calls that it
  makes on the library.
\<close>

record 'ctx otel =
  ot_extract :: "(pystr \<Rightarrow> pystr list option res) \<Rightarrow> 'ctx res"
  ot_nonempty :: "'ctx \<Rightarrow> bool"
  ot_inject :: "'ctx option \<Rightarrow> nat \<Rightarrow> pystr dict"

definition traceparent :: pystr where
  "traceparent = lit ''traceparent''"

definition tracestate :: pystr where
  "tracestate = lit ''tracestate''"

definition trace_keys :: "pystr list" where
  "trace_keys = [traceparent, tracestate]"

text \<open>The propagator of \<open>init_tracing\<close> sets no other field: W3C Trace Context, section 3.\<close>

definition injects_trace_keys :: "'ctx otel \<Rightarrow> bool" where
  "injects_trace_keys ot \<longleftrightarrow> (\<forall>ctx n. set (map fst (ot_inject ot ctx n)) \<subseteq> set trace_keys)"

section \<open>Getter and setter\<close>

text \<open>\<open>_DictGetter.get\<close>.\<close>

definition dict_getter :: "interp \<Rightarrow> json dict \<Rightarrow> pystr \<Rightarrow> pystr list option res" where
  "dict_getter it carrier key =
     (let val = get_or_null carrier key
      in if val = JNull then Inr None else bind_res (py_str it val) (\<lambda>s. Inr (Some [s])))"

text \<open>\<open>_DictSetter.set\<close>, once per field that the propagator injects.\<close>

definition dict_setter :: "'v dict \<Rightarrow> pystr \<times> 'v \<Rightarrow> 'v dict" where
  "dict_setter carrier kv = dict_set (fst kv) (snd kv) carrier"

definition inject_into_headers :: "'ctx otel \<Rightarrow> 'ctx option \<Rightarrow> nat \<Rightarrow> pystr dict \<Rightarrow> pystr dict" where
  "inject_into_headers ot ctx n headers = foldl dict_setter headers (ot_inject ot ctx n)"

definition inject_into_dict :: "'ctx otel \<Rightarrow> 'ctx option \<Rightarrow> nat \<Rightarrow> json dict \<Rightarrow> json dict" where
  "inject_into_dict ot ctx n carrier =
     foldl dict_setter carrier (map (\<lambda>(k, v). (k, JStr v)) (ot_inject ot ctx n))"

definition extract_from_dict :: "interp \<Rightarrow> 'ctx otel \<Rightarrow> json dict \<Rightarrow> 'ctx res" where
  "extract_from_dict it ot carrier = ot_extract ot (dict_getter it carrier)"

definition strip_trace_keys :: "json dict \<Rightarrow> json dict" where
  "strip_trace_keys obj = foldl (\<lambda>d key. dict_pop key d) obj trace_keys"

section \<open>The tracer provider\<close>

text \<open>The carrier of a getter, as the propagator enumerates it.\<close>

definition dict_getter_keys :: "json dict \<Rightarrow> pystr list" where
  "dict_getter_keys carrier = map fst carrier"

datatype span_exporter = OtlpSpanExporter pystr bool | ConsoleSpanExporter

record tracer_provider =
  tp_service_name :: pystr
  tp_batch_exporters :: "span_exporter list"

datatype text_map_propagator = TraceContextTextMapPropagator

datatype tracing_call =
    SetTracerProvider tracer_provider
  | SetGlobalTextmap "text_map_propagator list"

text \<open>The provider, and the calls that make it and the propagator global, in order.\<close>

definition init_tracing :: "pystr \<Rightarrow> pystr option \<Rightarrow> tracer_provider \<times> tracing_call list" where
  "init_tracing service_name otlp_endpoint =
     (let exporter = (case otlp_endpoint of
                        None \<Rightarrow> ConsoleSpanExporter
                      | Some e \<Rightarrow> if e = [] then ConsoleSpanExporter else OtlpSpanExporter e True);
          provider = \<lparr>tp_service_name = service_name, tp_batch_exporters = [exporter]\<rparr>
      in (provider, [SetTracerProvider provider, SetGlobalTextmap [TraceContextTextMapPropagator]]))"

text \<open>\<open>get_otlp_endpoint\<close>: an empty value counts as unset.\<close>

definition get_otlp_endpoint :: "pystr dict \<Rightarrow> pystr option" where
  "get_otlp_endpoint env =
     (case dict_get env (lit ''OTEL_EXPORTER_OTLP_ENDPOINT'') of
        None \<Rightarrow> None | Some v \<Rightarrow> if v = [] then None else Some v)"

section \<open>Facts\<close>

lemma dict_get_foldl_setter:
  "k \<notin> set (map fst kvs) \<Longrightarrow> dict_get (foldl dict_setter d kvs) k = dict_get d k"
  by (induction kvs arbitrary: d) (auto simp: dict_setter_def)

lemma wf_dict_foldl_setter: "wf_dict d \<Longrightarrow> wf_dict (foldl dict_setter d kvs)"
  by (induction kvs arbitrary: d) (auto simp: dict_setter_def)

lemma strip_trace_keys_simp: "strip_trace_keys obj = dict_pop tracestate (dict_pop traceparent obj)"
  by (simp add: strip_trace_keys_def trace_keys_def)

lemma dict_get_strip [simp]:
  "dict_get (strip_trace_keys obj) k = (if k \<in> set trace_keys then None else dict_get obj k)"
  by (auto simp: strip_trace_keys_simp trace_keys_def)

lemma trace_names: "traceparent \<noteq> tracestate" "tracestate \<noteq> traceparent"
  by (simp_all add: traceparent_def tracestate_def)

lemma dict_pop_set: "k' \<noteq> k \<Longrightarrow> dict_pop k (dict_set k' v d) = dict_set k' v (dict_pop k d)"
  by (induction d) auto

lemma dict_pop_set_eq: "dict_pop k (dict_set k v d) = dict_pop k d"
  by (induction d) auto

lemma inject_headers_get:
  assumes "injects_trace_keys ot" and "k \<notin> set trace_keys"
  shows "dict_get (inject_into_headers ot ctx n headers) k = dict_get headers k"
  unfolding inject_into_headers_def
  by (rule dict_get_foldl_setter) (use assms in \<open>auto simp: injects_trace_keys_def\<close>)

text \<open>Stripping removes what injecting added: the payload is the one without trace fields.\<close>

lemma strip_foldl_setter:
  "set (map fst kvs) \<subseteq> set trace_keys \<Longrightarrow> strip_trace_keys (foldl dict_setter d kvs) = strip_trace_keys d"
proof (induction kvs arbitrary: d)
  case (Cons kv kvs)
  then have "strip_trace_keys (dict_setter d kv) = strip_trace_keys d"
    by (auto simp: strip_trace_keys_simp dict_setter_def trace_keys_def dict_pop_set_eq dict_pop_set
        trace_names)
  with Cons show ?case by simp
qed simp

lemma strip_inject:
  assumes "injects_trace_keys ot"
  shows "strip_trace_keys (inject_into_dict ot ctx n d) = strip_trace_keys d"
  unfolding inject_into_dict_def
  by (rule strip_foldl_setter)
    (use assms in \<open>auto simp: injects_trace_keys_def image_image split_beta\<close>)

lemma wf_json_pop: "wf_json (JObj d) \<Longrightarrow> wf_json (JObj (dict_pop k d))"
  using wf_dict_pop [of d k] by (simp add: AList.delete_eq list_all_iff)

lemma wf_json_strip: "wf_json (JObj d) \<Longrightarrow> wf_json (JObj (strip_trace_keys d))"
  by (simp only: strip_trace_keys_simp wf_json_pop)

end
