(* ===== verification/Validate.thy ===== *)
theory Validate
  imports Utf8
begin

text \<open>
  \<open>core/validate.py\<close>: JSON lines checked against a schema. \<open>Draft202012Validator.iter_errors\<close> is
  third-party code: the parameter \<open>schema\<close> gives the list of errors of a value, each with its
  path and message.
\<close>

datatype path_elem = Key pystr | Index int

type_synonym schema = "json \<Rightarrow> (path_elem list \<times> pystr) list"

record validation_error =
  ve_path :: pystr
  ve_line_no :: nat
  ve_message :: pystr

record validated_object =
  vo_origin :: pystr
  vo_data :: json

fun path_text :: "path_elem \<Rightarrow> pystr" where
  "path_text (Key k) = k"
| "path_text (Index i) = int_repr i"

text \<open>\<open>get_validated_object\<close>: only a \<open>JSONDecodeError\<close> of the reader is caught.\<close>

definition error_of :: "nat \<Rightarrow> path_elem list \<times> pystr \<Rightarrow> validation_error" where
  "error_of line_no e =
     \<lparr>ve_path = join_with (lit ''.'') (map path_text (fst e)), ve_line_no = line_no, ve_message = snd e\<rparr>"

definition get_validated_object ::
  "interp \<Rightarrow> schema \<Rightarrow> pystr \<Rightarrow> pystr \<Rightarrow> nat \<Rightarrow> (validated_object option \<times> validation_error list) res"
where
  "get_validated_object it schema origin line line_no =
     (case json_loads line of
        Inl JSONDecodeError \<Rightarrow>
          Inr (None, [\<lparr>ve_path = [], ve_line_no = line_no,
                       ve_message = lit ''Invalid JSON: '' @ json_error_message it line\<rparr>])
      | Inl e \<Rightarrow> Inl e
      | Inr obj \<Rightarrow>
          let errors = map (error_of line_no) (schema obj)
          in if errors \<noteq> [] then Inr (None, errors)
             else Inr (Some \<lparr>vo_origin = origin, vo_data = obj\<rparr>, []))"

text \<open>\<open>get_validated_objects_from_file\<close>, on the lines of the file, numbered from \<open>line_no\<close>.\<close>

fun validated_lines ::
  "interp \<Rightarrow> schema \<Rightarrow> pystr \<Rightarrow> nat \<Rightarrow> pystr list \<Rightarrow> (validated_object list \<times> validation_error list) res"
where
  "validated_lines it schema origin line_no [] = Inr ([], [])"
| "validated_lines it schema origin line_no (line # lines) =
     (let s = strip line
      in if s = [] then validated_lines it schema origin (Suc line_no) lines
         else bind_res (get_validated_object it schema origin s line_no) (\<lambda>(obj, errors).
           bind_res (validated_lines it schema origin (Suc line_no) lines) (\<lambda>(objs, errs).
             Inr (case obj of None \<Rightarrow> (objs, errors @ errs) | Some o' \<Rightarrow> (o' # objs, errs)))))"

definition get_validated_objects_from_file ::
  "interp \<Rightarrow> schema \<Rightarrow> pystr \<Rightarrow> pystr list \<Rightarrow> (validated_object list \<times> validation_error list) res"
where
  "get_validated_objects_from_file it schema origin lines = validated_lines it schema origin 1 lines"

section \<open>Facts\<close>

lemma get_validated_object_Some:
  "get_validated_object it schema origin line n = Inr (Some v, errs) \<longleftrightarrow>
     json_loads line = Inr (vo_data v) \<and> schema (vo_data v) = [] \<and> vo_origin v = origin \<and> errs = []"
  by (cases v) (auto simp: get_validated_object_def Let_def split: sum.split py_exc.split)

lemma get_validated_object_None:
  "get_validated_object it schema origin line n = Inr (None, errs) \<Longrightarrow>
     errs \<noteq> [] \<and> list_all (\<lambda>e. ve_line_no e = n) errs"
  by (auto simp: get_validated_object_def Let_def error_of_def list_all_iff
      split: sum.splits py_exc.splits if_splits)

lemma get_validated_object_error:
  "get_validated_object it schema origin line n = Inl e \<Longrightarrow> e = ValueError"
  by (auto simp: get_validated_object_def Let_def scan_error_def dest: json_loads_error
      split: sum.splits py_exc.splits if_splits)

lemma get_validated_object_dumps:
  "wf_json v \<Longrightarrow> json_dumps v = Inr line \<Longrightarrow> schema v = [] \<Longrightarrow>
     get_validated_object it schema origin line n = Inr (Some \<lparr>vo_origin = origin, vo_data = v\<rparr>, [])"
  by (simp add: get_validated_object_Some json_loads_dumps)

text \<open>What a line of a file stands for: a value without schema errors, or nothing.\<close>

definition line_object :: "schema \<Rightarrow> pystr \<Rightarrow> json option" where
  "line_object schema line =
     (case json_loads (strip line) of
        Inr v \<Rightarrow> if strip line \<noteq> [] \<and> schema v = [] then Some v else None
      | Inl _ \<Rightarrow> None)"

definition line_ok :: "schema \<Rightarrow> pystr \<Rightarrow> bool" where
  "line_ok schema line \<longleftrightarrow> strip line = [] \<or> line_object schema line \<noteq> None"

lemma validated_lines_objects:
  "validated_lines it schema origin n lines = Inr (objs, errs) \<Longrightarrow>
     objs = map (\<lambda>v. \<lparr>vo_origin = origin, vo_data = v\<rparr>) (List.map_filter (line_object schema) lines)
     \<and> (errs = [] \<longleftrightarrow> list_all (line_ok schema) lines)"
proof (induction lines arbitrary: n objs errs)
  case (Cons line lines)
  show ?case
  proof (cases "strip line = []")
    case True
    moreover from this have "line_object schema line = None"
      by (simp add: line_object_def split: sum.split)
    ultimately show ?thesis using Cons by (simp add: map_filter_simps line_ok_def)
  next
    case False
    with Cons.prems obtain obj es objs' errs'
      where o: "get_validated_object it schema origin (strip line) n = Inr (obj, es)"
        and r: "validated_lines it schema origin (Suc n) lines = Inr (objs', errs')"
        and objs: "objs = (case obj of None \<Rightarrow> objs' | Some o' \<Rightarrow> o' # objs')"
        and errs: "errs = (case obj of None \<Rightarrow> es @ errs' | Some o' \<Rightarrow> errs')"
      by (auto simp: res_simps Let_def split: option.splits)
    show ?thesis
    proof (cases obj)
      case None
      then have l: "line_object schema line = None" and "es \<noteq> []"
        using o get_validated_object_None [of it schema origin "strip line" n es]
        by (auto simp: line_object_def get_validated_object_def Let_def
            split: sum.splits py_exc.splits if_splits)
      then show ?thesis using Cons.IH [OF r] objs errs None False
        by (simp add: map_filter_simps line_ok_def)
    next
      case (Some v)
      then have "json_loads (strip line) = Inr (vo_data v)" "schema (vo_data v) = []"
        "vo_origin v = origin"
        using o by (simp_all add: get_validated_object_Some)
      then have "line_object schema line = Some (vo_data v)" "v = \<lparr>vo_origin = origin, vo_data = vo_data v\<rparr>"
        using False by (simp_all add: line_object_def)
      then show ?thesis using Cons.IH [OF r] objs errs Some
        by (simp add: map_filter_simps line_ok_def)
    qed
  qed
qed (simp add: map_filter_simps)

text \<open>
  A file is sorted line by line: an object comes out for exactly the non-blank lines that
  hold a JSON value without schema errors, in their order and with the configured origin; the
  list of errors is empty exactly when every other line is blank.
\<close>

theorem file_objects:
  assumes "get_validated_objects_from_file it schema origin lines = Inr (objs, errs)"
  shows "objs = map (\<lambda>v. \<lparr>vo_origin = origin, vo_data = v\<rparr>) (List.map_filter (line_object schema) lines)
    \<and> (errs = []) = list_all (line_ok schema) lines"
  using validated_lines_objects [of it schema origin 1 lines objs errs] assms
  by (simp add: get_validated_objects_from_file_def)

lemma file_objects_witness:
  "map (\<lambda>v. \<lparr>vo_origin = lit ''sim'', vo_data = v\<rparr>)
     (List.map_filter (line_object (\<lambda>v. if v = JInt 2 then [([Key (lit ''a''), Index 0], lit ''bad'')] else []))
        [lit '' 1 '', lit '' '', lit ''2'', lit ''[3'', lit ''true''])
   = [\<lparr>vo_origin = lit ''sim'', vo_data = JInt 1\<rparr>, \<lparr>vo_origin = lit ''sim'', vo_data = JBool True\<rparr>]"
  (is "?R = ?O")
proof -
  let ?s = "\<lambda>v. if v = JInt 2 then [([Key (lit ''a''), Index 0], lit ''bad'')] else []"
  let ?l = "[lit '' 1 '', lit '' '', lit ''2'', lit ''[3'', lit ''true'']"
  let ?e = "[\<lparr>ve_path = lit ''a.0'', ve_line_no = 3, ve_message = lit ''bad''\<rparr>,
    \<lparr>ve_path = [], ve_line_no = 4, ve_message = lit ''Invalid JSON: ''\<rparr>]"
  have "get_validated_objects_from_file ascii_interp ?s (lit ''sim'') ?l = Inr (?O, ?e)"
    by code_simp
  from file_objects [OF this] show ?thesis by simp
qed

end
