(* ===== verification/Envelope.thy ===== *)
theory Envelope
  imports Utf8
begin

text \<open>
  \<open>core/envelope\<close>: the versioned wrapper around a payload. A builder is an object with a version
  and a \<open>build\<close> method; the registry finds the builder of a version.
\<close>

record envelope_context =
  ec_schema_version :: pystr
  ec_event_type :: pystr
  ec_origin :: json
  ec_normalized :: bool
  ec_ingested_at_ms :: int

record envelope_builder =
  eb_schema_version :: pystr
  eb_build :: "json \<Rightarrow> envelope_context \<Rightarrow> json dict"

type_synonym registry = "envelope_builder dict"

definition v1_build :: "json \<Rightarrow> envelope_context \<Rightarrow> json dict" where
  "v1_build payload context =
     [(lit ''schema_version'', JStr (lit ''1.0'')),
      (lit ''event_type'', JStr (ec_event_type context)),
      (lit ''origin'', ec_origin context),
      (lit ''normalized'', JBool (ec_normalized context)),
      (lit ''ingested_at_ms'', JInt (ec_ingested_at_ms context)),
      (lit ''payload'', payload)]"

definition v1_builder :: envelope_builder where
  "v1_builder = \<lparr>eb_schema_version = lit ''1.0'', eb_build = v1_build\<rparr>"

definition register :: "registry \<Rightarrow> envelope_builder \<Rightarrow> registry" where
  "register reg builder = dict_set (eb_schema_version builder) builder reg"

text \<open>\<open>EnvelopeRegistry.get\<close>, a \<open>ValueError\<close> for a version that nobody registered.\<close>

definition registry_get :: "registry \<Rightarrow> pystr \<Rightarrow> envelope_builder res" where
  "registry_get reg version =
     (case dict_get reg version of None \<Rightarrow> Inl ValueError | Some b \<Rightarrow> Inr b)"

definition default_registry :: registry where
  "default_registry = register [] v1_builder"

section \<open>Facts\<close>

lemma registry_get_register:
  "registry_get (register reg b) v
   = (if v = eb_schema_version b then Inr b else registry_get reg v)"
  by (auto simp: registry_get_def register_def)

lemma registry_get_default:
  "registry_get default_registry v = (if v = lit ''1.0'' then Inr v1_builder else Inl ValueError)"
  by (simp add: default_registry_def registry_get_register v1_builder_def)
    (simp add: registry_get_def)

lemma v1_build_get [simp]:
  "dict_get (v1_build p c) (lit ''schema_version'') = Some (JStr (lit ''1.0''))"
  "dict_get (v1_build p c) (lit ''event_type'') = Some (JStr (ec_event_type c))"
  "dict_get (v1_build p c) (lit ''origin'') = Some (ec_origin c)"
  "dict_get (v1_build p c) (lit ''normalized'') = Some (JBool (ec_normalized c))"
  "dict_get (v1_build p c) (lit ''ingested_at_ms'') = Some (JInt (ec_ingested_at_ms c))"
  "dict_get (v1_build p c) (lit ''payload'') = Some p"
  by (simp_all add: v1_build_def)

lemma wf_v1_build:
  "wf_json p \<Longrightarrow> valid_str (ec_event_type c) \<Longrightarrow> wf_json (ec_origin c) \<Longrightarrow> wf_json (JObj (v1_build p c))"
  by (simp add: v1_build_def wf_dict_def)

end
