(* ===== verification/Broker.thy ===== *)
theory Broker
  imports Prelude
begin

text \<open>
  \<open>core/broker\<close>: the publisher protocol and its RabbitMQ implementation. The connection and the
  event loop thread are third-party code; \<open>publish\<close> waits for the exchange to accept a message or
  raises, which the argument \<open>failure\<close> tells. The state is what the exchange has accepted, in
  order, and the counter of published messages.
\<close>

record rabbitmq_config =
  rc_url :: pystr
  rc_exchange :: pystr
  rc_exchange_type :: pystr
  rc_queue :: pystr
  rc_routing_key :: pystr

record amqp_message =
  am_body :: bytes
  am_headers :: "pystr dict option"

record exchange =
  ex_accepted :: "(pystr \<times> amqp_message) list"
  ex_messages_total :: nat

text \<open>\<open>_publish\<close>: empty headers are sent as none, an empty topic as the configured routing key.\<close>

definition amqp_of :: "bytes \<Rightarrow> pystr dict option \<Rightarrow> amqp_message" where
  "amqp_of message headers =
     \<lparr>am_body = message,
      am_headers = (case headers of None \<Rightarrow> None | Some h \<Rightarrow> if h = [] then None else Some h)\<rparr>"

definition routing_key_of :: "rabbitmq_config \<Rightarrow> pystr option \<Rightarrow> pystr" where
  "routing_key_of cfg topic =
     (case topic of None \<Rightarrow> rc_routing_key cfg | Some t \<Rightarrow> if t \<noteq> [] then t else rc_routing_key cfg)"

definition publish ::
  "rabbitmq_config \<Rightarrow> py_exc option \<Rightarrow> pystr option \<Rightarrow> bytes \<Rightarrow> pystr dict option \<Rightarrow> exchange \<Rightarrow> exchange res" where
  "publish cfg failure topic message headers ex =
     (case failure of
        Some e \<Rightarrow> Inl e
      | None \<Rightarrow>
          Inr (ex\<lparr>ex_accepted := ex_accepted ex @ [(routing_key_of cfg topic, amqp_of message headers)],
                 ex_messages_total := Suc (ex_messages_total ex)\<rparr>))"

lemma publish_Inr:
  "publish cfg failure topic message headers ex = Inr ex' \<longleftrightarrow>
     failure = None \<and>
     ex' = ex\<lparr>ex_accepted := ex_accepted ex @ [(routing_key_of cfg topic, amqp_of message headers)],
              ex_messages_total := Suc (ex_messages_total ex)\<rparr>"
  by (auto simp: publish_def split: option.splits)

end
