(* ===== verification/Udp_Server.thy ===== *)
theory Udp_Server
  imports Json_Normalizer Tracing Validate Envelope Broker
begin

text \<open>
  \<open>core/udp/server.py\<close>: the loop that turns datagrams into published envelopes. Every step runs
  the code's chain (trace context, LS-1000 parser, JSON payload, envelope, headers, bytes,
  broker); an exception anywhere in it goes to the error handler and the loop goes on. What the
  environment decides for a datagram is part of the datagram here: the readings of the clock, the
  number of its span, and whether the broker refuses the message.
\<close>

section \<open>The server and its input\<close>

record 'ctx server =
  sv_topic :: "pystr option"
  sv_validator :: "(schema \<times> pystr) option"
  sv_parser :: bool
  sv_json_normalizer :: "pystr option"
  sv_envelope_version :: pystr
  sv_envelope_registry :: registry
  sv_event_type :: pystr
  sv_on_decode_error :: bool
  sv_broker :: rabbitmq_config
  sv_interp :: interp
  sv_otel :: "'ctx otel"

record datagram =
  dg_data :: bytes
  dg_ip :: pystr
  dg_port :: int
  dg_normalize_ms :: int
  dg_ingest_ms :: int
  dg_span :: nat
  dg_broker_error :: "py_exc option"

text \<open>\<open>recvfrom\<close> gives a datagram or raises an \<open>OSError\<close>, which ends the loop.\<close>

datatype received = Datagram datagram | SocketError

text \<open>The exchange, and the calls of \<open>on_decode_error\<close>.\<close>

record server_state =
  ss_exchange :: exchange
  ss_errors :: "(bytes \<times> py_exc) list"

section \<open>The chain\<close>

definition extract_trace_context :: "'ctx server \<Rightarrow> bytes \<Rightarrow> 'ctx option" where
  "extract_trace_context sv data =
     (case json_loads_bytes data of
        Inr (JObj obj) \<Rightarrow>
          if has_key traceparent obj
          then (case extract_from_dict (sv_interp sv) (sv_otel sv) obj of
                  Inl _ \<Rightarrow> None | Inr ctx \<Rightarrow> Some ctx)
          else None
      | _ \<Rightarrow> None)"

text \<open>An empty context is false and is not attached.\<close>

definition attached_context :: "'ctx server \<Rightarrow> bytes \<Rightarrow> 'ctx option" where
  "attached_context sv data =
     (case extract_trace_context sv data of
        None \<Rightarrow> None
      | Some ctx \<Rightarrow> if ot_nonempty (sv_otel sv) ctx then Some ctx else None)"

definition try_parse_ls1000 ::
  "'ctx server \<Rightarrow> pystr \<Rightarrow> pystr dict \<Rightarrow> (json dict option \<times> pystr dict) res" where
  "try_parse_ls1000 sv decoded headers =
     (if \<not> sv_parser sv then Inr (None, headers)
      else bind_res (parse_message (sv_interp sv) decoded) (\<lambda>(parsed, parse_error).
        case parsed of
          None \<Rightarrow> Inr (None, headers)
        | Some ev \<Rightarrow>
            Inr (Some (asdict ev),
                 dict_set (lit ''parser'') (lit ''ls1000'')
                   (dict_set (lit ''origin'') (lit ''ls-1000'') headers))))"

definition strip_trace_from_string :: "pystr \<Rightarrow> pystr res" where
  "strip_trace_from_string decoded =
     (case json_loads decoded of
        Inl JSONDecodeError \<Rightarrow> Inr decoded
      | Inl e \<Rightarrow> Inl e
      | Inr (JObj obj) \<Rightarrow> json_dumps (JObj (strip_trace_keys obj))
      | Inr _ \<Rightarrow> Inr decoded)"

definition validate_payload :: "'ctx server \<Rightarrow> pystr \<Rightarrow> (json \<times> pystr) res" where
  "validate_payload sv cleaned =
     (case sv_validator sv of
        Some (schema, origin) \<Rightarrow>
          bind_res (get_validated_object (sv_interp sv) schema origin cleaned 1) (\<lambda>(validated, errors).
            case validated of
              None \<Rightarrow> Inl ValueError
            | Some v \<Rightarrow> Inr (vo_data v, vo_origin v))
      | None \<Rightarrow> bind_res (json_loads cleaned) (\<lambda>v. Inr (v, lit ''json'')))"

definition normalize_json_payload ::
  "'ctx server \<Rightarrow> int \<Rightarrow> pystr \<Rightarrow> pystr dict \<Rightarrow> (json \<times> pystr dict) res" where
  "normalize_json_payload sv now_ms decoded headers =
     bind_res (strip_trace_from_string decoded) (\<lambda>cleaned.
     bind_res (validate_payload sv cleaned) (\<lambda>(raw_json, origin).
       let headers = dict_set (lit ''origin'') origin headers
       in (case sv_json_normalizer sv of
             None \<Rightarrow> Inr (raw_json, headers)
           | Some norm_origin \<Rightarrow>
               bind_res (normalize (sv_interp sv) norm_origin now_ms raw_json decoded) (\<lambda>normalized.
                 case normalized of
                   None \<Rightarrow> Inl ValueError
                 | Some ev \<Rightarrow>
                     Inr (JObj (asdict ev),
                          dict_set (lit ''parser'') (lit ''json-normalizer'') headers)))))"

definition process_datagram ::
  "'ctx server \<Rightarrow> int \<Rightarrow> bytes \<Rightarrow> pystr dict \<Rightarrow> (json \<times> pystr dict) res" where
  "process_datagram sv now_ms data headers =
     bind_res (decode_utf8 data) (\<lambda>decoded.
     bind_res (try_parse_ls1000 sv decoded headers) (\<lambda>(ls1000_obj, headers).
       case ls1000_obj of
         Some d \<Rightarrow> Inr (JObj d, headers)
       | None \<Rightarrow> normalize_json_payload sv now_ms decoded headers))"

definition payload_origin :: "json \<Rightarrow> pystr dict \<Rightarrow> json" where
  "payload_origin payload headers =
     (case payload of
        JObj d \<Rightarrow>
          (case dict_get headers (lit ''origin'') of
             Some o' \<Rightarrow> JStr o'
           | None \<Rightarrow>
               (case dict_get d (lit ''origin'') of Some v \<Rightarrow> v | None \<Rightarrow> JStr (lit ''unknown'')))
      | _ \<Rightarrow> JStr (lit ''unknown''))"

definition is_normalized :: "json \<Rightarrow> bool" where
  "is_normalized payload =
     (case payload of
        JObj d \<Rightarrow> has_key (lit ''tag_id'') d \<and> has_key (lit ''ts_utc_ms'') d
      | _ \<Rightarrow> False)"

definition build_envelope :: "'ctx server \<Rightarrow> int \<Rightarrow> json \<Rightarrow> pystr dict \<Rightarrow> json dict res" where
  "build_envelope sv now_ms payload headers =
     (let context = \<lparr>ec_schema_version = sv_envelope_version sv, ec_event_type = sv_event_type sv,
                     ec_origin = payload_origin payload headers,
                     ec_normalized = is_normalized payload, ec_ingested_at_ms = now_ms\<rparr>
      in bind_res (registry_get (sv_envelope_registry sv) (sv_envelope_version sv))
           (\<lambda>builder. Inr (eb_build builder payload context)))"

definition serialize_message :: "json \<Rightarrow> bytes res" where
  "serialize_message obj = bind_res (json_dumps obj) encode_utf8"

text \<open>The \<open>try\<close> block of the loop up to the bytes: what is published, with its headers.\<close>

definition peer_headers :: "datagram \<Rightarrow> pystr dict" where
  "peer_headers dg = [(lit ''source_ip'', dg_ip dg), (lit ''source_port'', int_repr (dg_port dg))]"

definition prepare_message :: "'ctx server \<Rightarrow> datagram \<Rightarrow> (bytes \<times> pystr dict) res" where
  "prepare_message sv dg =
     (let parent_ctx = attached_context sv (dg_data dg)
      in bind_res (process_datagram sv (dg_normalize_ms dg) (dg_data dg) (peer_headers dg))
           (\<lambda>(obj, headers).
         bind_res (build_envelope sv (dg_ingest_ms dg) obj headers) (\<lambda>envelope.
           let headers = inject_into_headers (sv_otel sv) parent_ctx (dg_span dg) headers
           in bind_res (serialize_message (JObj envelope)) (\<lambda>message. Inr (message, headers)))))"

section \<open>The loop\<close>

definition handle_processing_error :: "'ctx server \<Rightarrow> bytes \<Rightarrow> py_exc \<Rightarrow> server_state \<Rightarrow> server_state" where
  "handle_processing_error sv data exc st =
     (if sv_on_decode_error sv then st\<lparr>ss_errors := ss_errors st @ [(data, exc)]\<rparr> else st)"

definition handle_datagram :: "'ctx server \<Rightarrow> datagram \<Rightarrow> server_state \<Rightarrow> server_state" where
  "handle_datagram sv dg st =
     (case bind_res (prepare_message sv dg) (\<lambda>(message, headers).
        publish (sv_broker sv) (dg_broker_error dg) (sv_topic sv) message (Some headers) (ss_exchange st)) of
        Inl exc \<Rightarrow> handle_processing_error sv (dg_data dg) exc st
      | Inr ex \<Rightarrow> st\<lparr>ss_exchange := ex\<rparr>)"

text \<open>\<open>serve_forever\<close> on what the socket delivers; the part after a socket error is never received.\<close>

fun serve :: "'ctx server \<Rightarrow> received list \<Rightarrow> server_state \<Rightarrow> server_state" where
  "serve sv [] st = st"
| "serve sv (SocketError # rs) st = st"
| "serve sv (Datagram dg # rs) st = serve sv rs (handle_datagram sv dg st)"

end
