(* ===== verification/Udp_Server_Facts.thy ===== *)
theory Udp_Server_Facts
  imports Udp_Server
begin

text \<open>
  Facts about the UDP server: the events of both parsers hold values of their types, so every
  payload can be read back from its bytes; what the loop publishes and reports, as a function of
  the datagrams; the fate of the trace fields.
\<close>

section \<open>The events are well formed\<close>

lemma valid_strip: "valid_str s \<Longrightarrow> valid_str (strip s)"
  by (rule valid_str_subset [OF set_strip])

lemma hex_pad_valid: "0 \<le> c \<Longrightarrow> valid_str (hex_pad n c)"
  by (induction n arbitrary: c) (auto simp: hex_digit_def)

lemma repr_char_valid: "0 \<le> c \<Longrightarrow> c < 1114112 \<Longrightarrow> valid_str (repr_char it q c)"
  by (auto simp: repr_char_def hex_pad_valid lit_def)

lemma str_repr_valid: "valid_str s \<Longrightarrow> valid_str (str_repr it s)"
proof -
  assume s: "valid_str s"
  have "valid_str (concat (map (repr_char it q) s))" for q
    using s by (induction s) (simp_all add: repr_char_valid)
  then show ?thesis by (simp add: str_repr_def Let_def)
qed

lemma plain_valid: "plain_text s \<Longrightarrow> valid_str s"
  by (auto simp: plain_text_def valid_str_def list_all_iff)

lemma py_str_int_valid: "py_str_int i = Inr t \<Longrightarrow> valid_str t"
  using int_repr_plain [of i] by (auto simp: py_str_int_def plain_valid split: if_splits)

lemma join_valid: "valid_str sep \<Longrightarrow> list_all valid_str ts \<Longrightarrow> valid_str (join_with sep ts)"
  by (induction sep ts rule: join_with.induct) auto

lemma map_res_valid:
  "map_res f xs = Inr ts \<Longrightarrow> (\<And>x t. x \<in> set xs \<Longrightarrow> f x = Inr t \<Longrightarrow> valid_str t) \<Longrightarrow> list_all valid_str ts"
proof (induction xs arbitrary: ts)
  case (Cons x xs)
  then obtain t us where t: "f x = Inr t" "map_res f xs = Inr us" "ts = t # us"
    by (auto simp: map_res_Cons_Inr simp del: map_res.simps)
  then show ?case using Cons.IH [OF t(2)] Cons.prems(2) by auto
qed simp

lemma py_repr_valid: "py_repr it v = Inr t \<Longrightarrow> wf_json v \<Longrightarrow> valid_str t"
proof (induction v arbitrary: t)
  case (JArr vs)
  then obtain ts where ts: "map_res (py_repr it) vs = Inr ts" "t = 91 # join_with (lit '', '') ts @ [93]"
    by (auto simp: res_simps)
  have "list_all valid_str ts"
    by (rule map_res_valid [OF ts(1)]) (use JArr in \<open>auto simp: list_all_iff\<close>)
  then show ?case using ts(2) by (simp add: join_valid)
next
  case (JObj kvs)
  then obtain ts where ts: "map_res (\<lambda>kv. bind_res (py_repr it (snd kv))
      (\<lambda>t. Inr (str_repr it (fst kv) @ lit '': '' @ t))) kvs = Inr ts"
    "t = 123 # join_with (lit '', '') ts @ [125]"
    by (auto simp: res_simps)
  have "list_all valid_str ts"
  proof (rule map_res_valid [OF ts(1)])
    fix kv u
    assume kv: "kv \<in> set kvs" and "bind_res (py_repr it (snd kv))
      (\<lambda>t. Inr (str_repr it (fst kv) @ lit '': '' @ t)) = Inr u"
    then obtain w where w: "py_repr it (snd kv) = Inr w" "u = str_repr it (fst kv) @ lit '': '' @ w"
      by (auto simp: res_simps)
    moreover have "valid_str (fst kv)" "wf_json (snd kv)"
      using JObj.prems(2) kv by (auto simp: list_all_iff)
    ultimately show "valid_str u"
      using JObj.IH [OF kv _ w(1)] by (cases kv) (simp add: str_repr_valid)
  qed
  then show ?case using ts(2) by (simp add: join_valid)
qed (auto simp: str_repr_valid py_str_int_valid plain_valid plain_float_repr
    simp del: float_repr.simps split: if_splits)

lemma py_str_valid: "py_str it v = Inr t \<Longrightarrow> wf_json v \<Longrightarrow> valid_str t"
  by (cases v) (auto simp: py_str_def intro: py_repr_valid simp del: py_repr.simps)

lemma wf_get_or_null: "wf_json (JObj d) \<Longrightarrow> wf_json (get_or_null d k)"
  by (cases "dict_get d k") (simp_all only: get_or_null_def option.case wf_json.simps(5) wf_json_dict_get)

lemma ls_parse_float_canonical:
  "ls_parse_float v = Inr (Some f) \<Longrightarrow> wf_json v \<Longrightarrow> canonical f"
  by (cases v) (auto simp: res_simps Let_def on_ValueError_def
      dest: canonical_py_float canonical_float_of_int split: sum.splits if_splits)

lemma ls_first_float_canonical:
  "ls_first_float d ks = Inr r \<Longrightarrow> wf_json (JObj d) \<Longrightarrow> pred_option canonical r"
proof (cases r)
  case (Some f)
  then show "ls_first_float d ks = Inr r \<Longrightarrow> wf_json (JObj d) \<Longrightarrow> ?thesis"
    using wf_get_or_null ls_parse_float_canonical
    by (auto simp: float_reader.read_Some_iff simp del: wf_json.simps)
qed simp

lemma ls_first_str_valid:
  "ls_first_str it d ks = Inr r \<Longrightarrow> wf_json (JObj d) \<Longrightarrow> pred_option valid_str r"
proof (cases r)
  case (Some t)
  then show "ls_first_str it d ks = Inr r \<Longrightarrow> wf_json (JObj d) \<Longrightarrow> ?thesis"
    using wf_get_or_null py_str_valid valid_strip
    by (auto simp: str_reader.read_Some_iff text_of_def res_simps simp del: wf_json.simps
        split: if_splits)
qed simp

definition xyz_canonical :: "xyz \<Rightarrow> bool" where
  "xyz_canonical c \<longleftrightarrow> list_all (pred_option canonical) [fst c, fst (snd c), snd (snd c)]"

lemma top_level_xyz_canonical:
  "top_level_xyz d = Inr c \<Longrightarrow> wf_json (JObj d) \<Longrightarrow> xyz_canonical c"
  by (auto simp: top_level_xyz_def xyz_canonical_def res_simps simp del: wf_json.simps
      intro: ls_first_float_canonical)

lemma extract_xyz_from_json_canonical:
  assumes "extract_xyz_from_json d = Inr c" and wf: "wf_json (JObj d)"
  shows "xyz_canonical c"
proof (cases "get_or_null d (lit ''position'')")
  case (JObj p)
  then have p: "wf_json (get_or_null p k)" for k using wf_get_or_null [OF wf] wf_get_or_null by metis
  have P: "pred_option canonical r" if "ls_parse_float (get_or_null p k) = Inr r" for r k
    using that p ls_parse_float_canonical by (cases r) auto
  from assms(1) JObj consider "top_level_xyz d = Inr c"
    | "ls_parse_float (get_or_null p (lit ''x'')) = Inr (fst c)"
      "ls_parse_float (get_or_null p (lit ''y'')) = Inr (fst (snd c))"
      "ls_parse_float (get_or_null p (lit ''z'')) = Inr (snd (snd c))"
    by (auto simp: extract_xyz_from_json_def res_simps split: if_splits)
  then show ?thesis
  proof cases
    case 2
    then show ?thesis using P by (auto simp: xyz_canonical_def)
  qed (rule top_level_xyz_canonical [OF _ wf])
qed (use assms top_level_xyz_canonical in \<open>auto simp: extract_xyz_from_json_def simp del: wf_json.simps\<close>)

text \<open>Text messages.\<close>

lemma ls_parse_float_str_canonical: "ls_parse_float (JStr s) = Inr r \<Longrightarrow> pred_option canonical r"
  by (auto simp: Let_def on_ValueError_def res_simps dest: canonical_py_float
      split: sum.splits if_splits)

lemma embedded_floats_canonical: "embedded_floats tokens i = Inr c \<Longrightarrow> xyz_canonical c"
  by (auto simp: embedded_floats_def xyz_canonical_def res_simps dest: canonical_py_float
      split: if_splits list.splits)

lemma extract_xyz_from_tokens_canonical:
  "extract_xyz_from_tokens tokens i = Inr c \<Longrightarrow> xyz_canonical c"
  by (auto simp: extract_xyz_from_tokens_def token_floats_def res_simps simp del: ls_parse_float.simps
      dest: embedded_floats_canonical split: if_splits)
    (auto simp: xyz_canonical_def dest: ls_parse_float_str_canonical simp del: ls_parse_float.simps)

definition wf_result :: "parse_result \<Rightarrow> bool" where
  "wf_result r = pred_option wf_event (fst r)"

lemma ls_err_no_event [simp]: "ls_err s t c m \<noteq> (Some ev, err)" "(Some ev, err) \<noteq> ls_err s t c m"
  by (simp_all add: ls_err_def)

lemma wf_result_err [simp]: "wf_result (ls_err s t c m)"
  by (simp add: wf_result_def ls_err_def)

lemma wf_result_event [simp]:
  "wf_result (Some (ls_event s t tag ts xyz layer area status lng lat), None) \<longleftrightarrow>
     valid_str s \<and> valid_str t \<and> valid_str tag \<and> xyz_canonical xyz \<and> pred_option valid_str area
     \<and> pred_option valid_str status \<and> pred_option canonical lng \<and> pred_option canonical lat"
  by (auto simp: wf_result_def wf_event_def ls_event_def xyz_canonical_def)

lemma safe_token_valid: "list_all valid_str tokens \<Longrightarrow> pred_option valid_str (safe_token tokens i)"
  by (auto simp: safe_token_def Let_def list_all_length valid_strip)

lemma xyz_canonical_none [simp]:
  "xyz_canonical (None, None, z) \<longleftrightarrow> pred_option canonical z"
  by (simp add: xyz_canonical_def)

lemma valid_token: "list_all valid_str tokens \<Longrightarrow> i < length tokens \<Longrightarrow> valid_str (tokens ! i)"
  by (simp add: list_all_length)

lemma parse_display_wf:
  assumes "list_all valid_str tokens" and "valid_str s" and r: "parse_display it s tokens = Inr r"
  shows "wf_result r"
proof (cases "length tokens < 5 \<or> ls_parse_int it (JStr (tokens ! 3)) = Inr None")
  case False
  with r obtain ts layer c where "extract_xyz_from_tokens tokens 5 = Inr c" and
    "r = (Some (ls_event s (lit ''display'') (tokens ! 1) ts c layer
            (if fst c = None then safe_token tokens 6 else None) None None None), None)"
    by (auto simp: parse_display_def res_simps simp del: ls_parse_int.simps split: option.splits)
  then show ?thesis
    using assms(2) False extract_xyz_from_tokens_canonical safe_token_valid [OF assms(1)]
      valid_token [OF assms(1), of 1] by simp
qed (use r in \<open>auto simp: parse_display_def simp del: ls_parse_int.simps split: if_splits\<close>)

lemma parse_gpsposi_wf:
  assumes "list_all valid_str tokens" and "valid_str s" and r: "parse_gpsposi it s tokens = Inr r"
  shows "wf_result r"
proof (cases "\<exists>pe. r = (None, pe)")
  case False
  with r obtain ts layer lng lat z where "\<not> length tokens < 7"
    and "ls_parse_float (JStr (tokens ! 5)) = Inr lng" "ls_parse_float (JStr (tokens ! 6)) = Inr lat"
    and z: "(if 7 < length tokens then ls_parse_float (JStr (tokens ! 7)) else Inr None) = Inr z"
    and "r = (Some (ls_event s (lit ''gpsposi'') (tokens ! 1) ts (None, None, z) layer None None lng lat), None)"
    by (auto simp: parse_gpsposi_def res_simps ls_err_def simp del: ls_parse_int.simps
        ls_parse_float.simps split: option.splits if_split_asm)
  moreover have "pred_option canonical z"
    using z ls_parse_float_str_canonical by (simp del: ls_parse_float.simps split: if_splits)
  ultimately show ?thesis
    using assms(2) ls_parse_float_str_canonical valid_token [OF assms(1), of 1] by simp
qed (auto simp: wf_result_def)

lemma parse_status_wf:
  assumes "list_all valid_str tokens" and "valid_str s"
    and "parse_status1 it s tokens = Inr r \<or> parse_status2 it s tokens = Inr r"
  shows "wf_result r"
  using assms(2,3) valid_token [OF assms(1)] safe_token_valid [OF assms(1)]
  by (auto simp: parse_status1_def parse_status2_def res_simps simp del: ls_parse_int.simps
      split: option.splits if_split_asm)

lemma dispatch_type_wf:
  "dispatch_type it s t tokens = Inr r \<Longrightarrow> list_all valid_str tokens \<Longrightarrow> valid_str s \<Longrightarrow> wf_result r"
  by (auto simp: dispatch_type_def split: if_splits
      intro: parse_display_wf parse_gpsposi_wf parse_status_wf)

lemma ls_parse_dict_wf:
  assumes "wf_json (JObj d)" and "valid_str s" and "ls_parse_dict it s d = Inr r"
  shows "wf_result r"
  using assms(2,3)
  by (auto simp: ls_parse_dict_def ls_json_event_def res_simps simp del: split_paired_Ex
      dest!: ls_first_float_canonical [OF _ assms(1)] ls_first_str_valid [OF _ assms(1)]
        extract_xyz_from_json_canonical [OF _ assms(1)]
      split: if_splits option.splits)

lemma ls_parse_json_wf:
  "ls_parse_json it s raw = Inr r \<Longrightarrow> valid_str raw \<Longrightarrow> valid_str s \<Longrightarrow> wf_result r"
  by (auto simp: ls_parse_json_def intro: ls_parse_dict_wf json_loads_wf
      simp del: wf_json.simps split: sum.splits py_exc.splits json.splits)

lemma payload_tokens_valid: "valid_str s \<Longrightarrow> list_all valid_str (payload_tokens (snd (split_first 58 s)))"
proof -
  assume s: "valid_str s"
  have "valid_str (dropWhile (\<lambda>x. x \<noteq> 58) s)"
    by (rule valid_str_subset [OF _ s]) (auto dest: set_dropWhileD)
  then have "valid_str (snd (split_first 58 s))"
    unfolding split_first_def by (cases "dropWhile (\<lambda>x. x \<noteq> 58) s") (simp_all only: snd_conv list.sel valid_str_Cons valid_str_Nil)
  moreover have "list_all valid_str (split_on c t)" if "valid_str t" for c t
    using that by (induction t) (auto split: list.splits)
  ultimately show ?thesis by (auto simp: payload_tokens_def list_all_iff valid_strip)
qed

lemma parse_message_wf:
  assumes "parse_message it s = Inr (Some ev, err)" and "valid_str s"
  shows "wf_event ev"
proof -
  have "wf_result (Some ev, err)"
    using assms payload_tokens_valid [OF valid_strip [OF assms(2)]]
    by (auto simp: parse_message_def Let_def split: if_splits prod.splits
        intro: ls_parse_json_wf dispatch_type_wf valid_strip)
  then show ?thesis by (simp add: wf_result_def)
qed

lemma normalize_wf:
  assumes "normalize it origin now_ms v raw = Inr (Some ev)"
    and "wf_json v" and "valid_str raw" and "valid_str origin"
  shows "wf_event ev"
proof -
  from assms(1) obtain d where v: "v = JObj d" and n: "normalize_dict it origin now_ms d raw = Inr (Some ev)"
    by (cases v) (auto simp: normalize_def)
  have wf: "wf_json (JObj d)" using assms(2) v by simp
  have xyz: "xyz_canonical c" if "jn_extract_xyz d = Inr c" for c
  proof (cases "get_or_null d (lit ''position'')")
    case (JObj p)
    then have "wf_json (JObj p)" using wf_get_or_null [OF wf] by metis
    then show ?thesis using that JObj
      by (auto simp: jn_extract_xyz_def jn_xyz_eq res_simps simp del: wf_json.simps
          dest: top_level_xyz_canonical [OF _ wf] top_level_xyz_canonical split: if_splits)
  qed (use that in \<open>auto simp: jn_extract_xyz_def jn_xyz_eq dest: top_level_xyz_canonical [OF _ wf]\<close>)
  from normalize_dict_event [OF n] obtain tag ts c lng lat layer area status
    where r: "jn_first_str it d jn_tag_keys = Inr (Some tag)" "jn_extract_xyz d = Inr c"
      "jn_first_float d [lit ''lng'', lit ''lon'', lit ''longitude''] = Inr lng"
      "jn_first_float d [lit ''lat'', lit ''latitude''] = Inr lat"
      "jn_first_str it d [lit ''area'', lit ''rgn''] = Inr area"
      "jn_first_str it d [lit ''status''] = Inr status"
      and ev: "ev = jn_event origin now_ms raw tag ts c layer area status lng lat"
    by blast
  note str = ls_first_str_valid [OF _ wf, of it] and flt = ls_first_float_canonical [OF _ wf]
  show ?thesis
    using xyz [OF r(2)] str [OF r(1) [unfolded jn_first_str_eq]] str [OF r(5) [unfolded jn_first_str_eq]]
      str [OF r(6) [unfolded jn_first_str_eq]] flt [OF r(3) [unfolded jn_first_float_eq]]
      flt [OF r(4) [unfolded jn_first_float_eq]] assms(3,4)
    by (simp add: ev wf_event_def jn_event_def xyz_canonical_def ts_warning_def)
qed

section \<open>The payload\<close>

text \<open>A server whose configured names are texts.\<close>

definition wf_server :: "'ctx server \<Rightarrow> bool" where
  "wf_server sv \<longleftrightarrow>
     valid_str (sv_event_type sv) \<and> pred_option valid_str (sv_json_normalizer sv)
     \<and> pred_option (\<lambda>v. valid_str (snd v)) (sv_validator sv)"

lemma try_parse_event:
  "try_parse_ls1000 sv s h = Inr (Some d, h') \<longleftrightarrow>
     sv_parser sv \<and> (\<exists>ev err. parse_message (sv_interp sv) s = Inr (Some ev, err) \<and> d = asdict ev
       \<and> h' = dict_set (lit ''parser'') (lit ''ls1000'') (dict_set (lit ''origin'') (lit ''ls-1000'') h))"
  by (auto simp: try_parse_ls1000_def res_simps split: option.splits)

lemma try_parse_none: "try_parse_ls1000 sv s h = Inr (None, h') \<Longrightarrow> h' = h"
  by (auto simp: try_parse_ls1000_def res_simps split: option.splits if_splits)

lemma strip_trace_valid: "strip_trace_from_string s = Inr t \<Longrightarrow> valid_str s \<Longrightarrow> valid_str t"
  by (auto simp: strip_trace_from_string_def simp del: wf_json.simps
      intro: json_dumps_valid wf_json_strip json_loads_wf
      split: sum.splits py_exc.splits json.splits)

lemma validate_payload_Inr:
  "validate_payload sv t = Inr (v, origin) \<longleftrightarrow> json_loads t = Inr v \<and>
     (case sv_validator sv of
        None \<Rightarrow> origin = lit ''json'' | Some (schema, o') \<Rightarrow> schema v = [] \<and> origin = o')"
proof (cases "sv_validator sv")
  case (Some x)
  obtain schema o' where "x = (schema, o')" by (cases x)
  with Some show ?thesis
    by (auto simp: validate_payload_def res_simps get_validated_object_Some split: option.splits)
      (auto intro!: exI [of _ "Some \<lparr>vo_origin = o', vo_data = v\<rparr>"] simp: get_validated_object_Some)
qed (auto simp: validate_payload_def res_simps)

lemma validate_payload_wf:
  assumes "validate_payload sv t = Inr (v, origin)" and "valid_str t" and "wf_server sv"
  shows "wf_json v \<and> valid_str origin"
proof -
  have "json_loads t = Inr v" using assms(1) by (simp add: validate_payload_Inr)
  then have "wf_json v" using json_loads_wf assms(2) by blast
  moreover have "valid_str origin"
    using assms(1,3) by (auto simp: validate_payload_Inr wf_server_def split: option.splits)
  ultimately show ?thesis by simp
qed

lemma normalize_json_payload_wf:
  assumes "normalize_json_payload sv now s h = Inr (p, h')" and "valid_str s" and "wf_server sv"
  shows "wf_json p"
proof -
  from assms(1) obtain t raw origin where t: "strip_trace_from_string s = Inr t"
    and raw: "validate_payload sv t = Inr (raw, origin)"
    and p: "(case sv_json_normalizer sv of
             None \<Rightarrow> Inr (raw, dict_set (lit ''origin'') origin h)
           | Some norm_origin \<Rightarrow>
               bind_res (normalize (sv_interp sv) norm_origin now raw s) (\<lambda>normalized.
                 case normalized of
                   None \<Rightarrow> Inl ValueError
                 | Some ev \<Rightarrow>
                     Inr (JObj (asdict ev), dict_set (lit ''parser'') (lit ''json-normalizer'')
                       (dict_set (lit ''origin'') origin h)))) = Inr (p, h')"
    by (auto simp: normalize_json_payload_def res_simps Let_def)
  have wf: "wf_json raw"
    using validate_payload_wf [OF raw _ assms(3)] strip_trace_valid [OF t assms(2)] by blast
  show ?thesis
  proof (cases "sv_json_normalizer sv")
    case None
    then show ?thesis using p wf by simp
  next
    case (Some o')
    then obtain ev where n: "normalize (sv_interp sv) o' now raw s = Inr (Some ev)"
      and "p = JObj (asdict ev)" using p by (auto simp: res_simps split: option.splits)
    moreover have "valid_str o'" using assms(3) Some by (simp add: wf_server_def)
    ultimately show ?thesis
      using normalize_wf [OF n wf assms(2)] wf_json_asdict by blast
  qed
qed

lemma process_datagram_wf:
  assumes "process_datagram sv now data h = Inr (p, h')" and "wf_server sv"
  shows "wf_json p"
proof -
  from assms(1) obtain s d h1 where s: "decode_utf8 data = Inr s"
    and t: "try_parse_ls1000 sv s h = Inr (d, h1)"
    and p: "case d of Some x \<Rightarrow> p = JObj x | None \<Rightarrow> normalize_json_payload sv now s h1 = Inr (p, h')"
    by (auto simp: process_datagram_def res_simps split: option.splits)
  have v: "valid_str s" by (rule scalar_valid_str [OF decode_utf8_scalar [OF s]])
  show ?thesis
  proof (cases d)
    case None
    then show ?thesis using p normalize_json_payload_wf [OF _ v assms(2)] by simp
  next
    case (Some x)
    then obtain ev err where "parse_message (sv_interp sv) s = Inr (Some ev, err)" "x = asdict ev"
      using t by (auto simp: try_parse_event)
    then show ?thesis using p Some parse_message_wf [OF _ v] wf_json_asdict by auto
  qed
qed

text \<open>The headers of a processed datagram.\<close>

lemma process_datagram_headers:
  assumes "process_datagram sv now data h = Inr (p, h')"
  shows "dict_get h' (lit ''origin'') \<noteq> None
    \<and> (k \<noteq> lit ''origin'' \<longrightarrow> k \<noteq> lit ''parser'' \<longrightarrow> dict_get h' k = dict_get h k)"
proof -
  from assms obtain s d h1 where t: "try_parse_ls1000 sv s h = Inr (d, h1)"
    and p: "case d of Some x \<Rightarrow> p = JObj x \<and> h' = h1
      | None \<Rightarrow> normalize_json_payload sv now s h1 = Inr (p, h')"
    by (auto simp: process_datagram_def res_simps split: option.splits)
  show ?thesis
  proof (cases d)
    case None
    then have "h1 = h" "normalize_json_payload sv now s h1 = Inr (p, h')"
      using t p try_parse_none by auto
    then show ?thesis
      by (auto simp: normalize_json_payload_def res_simps Let_def split: option.splits)
  next
    case (Some x)
    then show ?thesis using t p by (auto simp: try_parse_event)
  qed
qed

lemma normalize_json_payload_origin:
  assumes "normalize_json_payload sv now s h = Inr (p, h')" and "valid_str s" and "wf_server sv"
  shows "\<exists>o'. dict_get h' (lit ''origin'') = Some o' \<and> valid_str o'"
proof -
  from assms(1) obtain t raw origin where t: "strip_trace_from_string s = Inr t"
    and raw: "validate_payload sv t = Inr (raw, origin)"
    and "dict_get h' (lit ''origin'') = Some origin"
    by (auto simp: normalize_json_payload_def res_simps Let_def split: option.splits)
  then show ?thesis
    using validate_payload_wf [OF raw _ assms(3)] strip_trace_valid [OF t assms(2)] by blast
qed

lemma process_datagram_origin:
  assumes "process_datagram sv now data h = Inr (p, h')" and "wf_server sv"
  shows "\<exists>o'. dict_get h' (lit ''origin'') = Some o' \<and> valid_str o'"
proof -
  from assms(1) obtain s d h1 where s: "decode_utf8 data = Inr s"
    and t: "try_parse_ls1000 sv s h = Inr (d, h1)"
    and p: "case d of Some x \<Rightarrow> h' = h1 | None \<Rightarrow> normalize_json_payload sv now s h1 = Inr (p, h')"
    by (auto simp: process_datagram_def res_simps split: option.splits)
  have v: "valid_str s" by (rule scalar_valid_str [OF decode_utf8_scalar [OF s]])
  show ?thesis
    using p t normalize_json_payload_origin [OF _ v assms(2)]
    by (cases d) (auto simp: try_parse_event)
qed

section \<open>The wire\<close>

lemma prepare_message_Inr:
  assumes "prepare_message sv dg = Inr (m, h)"
  obtains payload h0 builder where
    "process_datagram sv (dg_normalize_ms dg) (dg_data dg) (peer_headers dg) = Inr (payload, h0)"
    and "registry_get (sv_envelope_registry sv) (sv_envelope_version sv) = Inr builder"
    and "h = inject_into_headers (sv_otel sv) (attached_context sv (dg_data dg)) (dg_span dg) h0"
    and "serialize_message (JObj (eb_build builder payload
           \<lparr>ec_schema_version = sv_envelope_version sv, ec_event_type = sv_event_type sv,
            ec_origin = payload_origin payload h0, ec_normalized = is_normalized payload,
            ec_ingested_at_ms = dg_ingest_ms dg\<rparr>)) = Inr m"
  using assms
  by (auto simp: prepare_message_def build_envelope_def res_simps Let_def)

lemma serialize_loads:
  "wf_json (JObj d) \<Longrightarrow> serialize_message (JObj d) = Inr b \<Longrightarrow> json_loads_bytes b = Inr (JObj d)"
  by (auto simp: serialize_message_def res_simps simp del: wf_json.simps intro: json_loads_bytes_dumps)

lemma payload_origin_wf:
  assumes "process_datagram sv now data h = Inr (p, h')" and "wf_server sv"
  shows "wf_json (payload_origin p h')"
  using process_datagram_origin [OF assms] by (auto simp: payload_origin_def split: json.split)

lemma prepared_message_reads_back:
  assumes m: "prepare_message sv dg = Inr (m, h)" and sv: "wf_server sv"
    and reg: "sv_envelope_registry sv = default_registry"
  shows "\<exists>payload h0.
    process_datagram sv (dg_normalize_ms dg) (dg_data dg) (peer_headers dg) = Inr (payload, h0)
    \<and> h = inject_into_headers (sv_otel sv) (attached_context sv (dg_data dg)) (dg_span dg) h0
    \<and> json_loads_bytes m = Inr (JObj (v1_build payload
        \<lparr>ec_schema_version = lit ''1.0'', ec_event_type = sv_event_type sv,
         ec_origin = payload_origin payload h0, ec_normalized = is_normalized payload,
         ec_ingested_at_ms = dg_ingest_ms dg\<rparr>))"
  using m
proof (rule prepare_message_Inr)
  fix payload h0 builder
  assume p: "process_datagram sv (dg_normalize_ms dg) (dg_data dg) (peer_headers dg) = Inr (payload, h0)"
    and b: "registry_get (sv_envelope_registry sv) (sv_envelope_version sv) = Inr builder"
    and h: "h = inject_into_headers (sv_otel sv) (attached_context sv (dg_data dg)) (dg_span dg) h0"
    and s: "serialize_message (JObj (eb_build builder payload
           \<lparr>ec_schema_version = sv_envelope_version sv, ec_event_type = sv_event_type sv,
            ec_origin = payload_origin payload h0, ec_normalized = is_normalized payload,
            ec_ingested_at_ms = dg_ingest_ms dg\<rparr>)) = Inr m"
  have v: "sv_envelope_version sv = lit ''1.0''" "eb_build builder = v1_build"
    using b reg by (auto simp: registry_get_default v1_builder_def split: if_splits)
  have "valid_str (sv_event_type sv)" using sv by (simp add: wf_server_def)
  then have "json_loads_bytes m = Inr (JObj (v1_build payload
        \<lparr>ec_schema_version = lit ''1.0'', ec_event_type = sv_event_type sv,
         ec_origin = payload_origin payload h0, ec_normalized = is_normalized payload,
         ec_ingested_at_ms = dg_ingest_ms dg\<rparr>))"
    using s v process_datagram_wf [OF p sv] payload_origin_wf [OF p sv]
    by (intro serialize_loads wf_v1_build) simp_all
  then show ?thesis using p h by blast
qed

section \<open>The loop\<close>

text \<open>The specification of the server: every datagram has an outcome of its own.\<close>

fun datagrams :: "received list \<Rightarrow> datagram list" where
  "datagrams [] = []"
| "datagrams (SocketError # rs) = []"
| "datagrams (Datagram dg # rs) = dg # datagrams rs"

definition datagram_outcome :: "'ctx server \<Rightarrow> datagram \<Rightarrow> (pystr \<times> amqp_message) res" where
  "datagram_outcome sv dg =
     bind_res (prepare_message sv dg) (\<lambda>(message, headers).
       case dg_broker_error dg of
         Some e \<Rightarrow> Inl e
       | None \<Rightarrow> Inr (routing_key_of (sv_broker sv) (sv_topic sv), amqp_of message (Some headers)))"

definition sent_by :: "'ctx server \<Rightarrow> datagram \<Rightarrow> (pystr \<times> amqp_message) option" where
  "sent_by sv dg = (case datagram_outcome sv dg of Inl _ \<Rightarrow> None | Inr x \<Rightarrow> Some x)"

definition failed_by :: "'ctx server \<Rightarrow> datagram \<Rightarrow> (bytes \<times> py_exc) option" where
  "failed_by sv dg = (case datagram_outcome sv dg of Inl e \<Rightarrow> Some (dg_data dg, e) | Inr _ \<Rightarrow> None)"

lemma sent_failed:
  "datagram_outcome sv dg = Inl e \<Longrightarrow> sent_by sv dg = None"
  "datagram_outcome sv dg = Inr x \<Longrightarrow> sent_by sv dg = Some x"
  "datagram_outcome sv dg = Inl e \<Longrightarrow> failed_by sv dg = Some (dg_data dg, e)"
  "datagram_outcome sv dg = Inr x \<Longrightarrow> failed_by sv dg = None"
  by (simp_all add: sent_by_def failed_by_def)

lemma handle_datagram_outcome:
  "handle_datagram sv dg st =
     (case datagram_outcome sv dg of
        Inl e \<Rightarrow> handle_processing_error sv (dg_data dg) e st
      | Inr x \<Rightarrow> st\<lparr>ss_exchange := (ss_exchange st)\<lparr>
          ex_accepted := ex_accepted (ss_exchange st) @ [x],
          ex_messages_total := Suc (ex_messages_total (ss_exchange st))\<rparr>\<rparr>)"
  by (cases "prepare_message sv dg")
    (auto simp: handle_datagram_def datagram_outcome_def publish_def split: option.split)

lemma serve_outcomes:
  "ex_accepted (ss_exchange (serve sv rs st))
     = ex_accepted (ss_exchange st) @ List.map_filter (sent_by sv) (datagrams rs)
   \<and> ex_messages_total (ss_exchange (serve sv rs st))
     = ex_messages_total (ss_exchange st) + length (List.map_filter (sent_by sv) (datagrams rs))
   \<and> ss_errors (serve sv rs st)
     = ss_errors st @ (if sv_on_decode_error sv then List.map_filter (failed_by sv) (datagrams rs) else [])"
proof (induction sv rs st rule: serve.induct)
  case (3 sv dg rs st)
  then show ?case
    by (cases "datagram_outcome sv dg"; cases "sv_on_decode_error sv")
      (simp_all add: handle_datagram_outcome handle_processing_error_def sent_failed map_filter_simps)
qed (simp_all add: map_filter_simps)

lemma sent_or_failed:
  "length (List.map_filter (sent_by sv) dgs) + length (List.map_filter (failed_by sv) dgs) = length dgs"
proof (induction dgs)
  case (Cons dg dgs)
  then show ?case by (cases "datagram_outcome sv dg") (simp_all add: map_filter_simps sent_failed)
qed (simp add: map_filter_simps)

section \<open>Trace fields\<close>

lemma strip_trace_dumps:
  assumes "wf_json (JObj d)" and "json_dumps (JObj d) = Inr s"
  shows "strip_trace_from_string s = json_dumps (JObj (strip_trace_keys d))"
  using json_loads_dumps [OF assms] by (simp add: strip_trace_from_string_def)

end
