(* ===== verification/Udp_Server_Properties.thy ===== *)
theory Udp_Server_Properties
  imports Udp_Server_Facts
begin

text \<open>
  The properties of the UDP server (\<open>core/udp/server.py\<close>) and of the trace fields it strips
  (\<open>core/tracing.py\<close>), with a sample server for evaluation.
\<close>

definition sample_otel :: "unit otel" where
  "sample_otel = \<lparr>ot_extract = (\<lambda>g. Inr ()), ot_nonempty = (\<lambda>ctx. False),
                  ot_inject = (\<lambda>ctx n. [(traceparent, lit ''00-7-1-01'')])\<rparr>"

definition sample_broker :: rabbitmq_config where
  "sample_broker = \<lparr>rc_url = [], rc_exchange = lit ''rtls'', rc_exchange_type = lit ''direct'',
                    rc_queue = lit ''positions'', rc_routing_key = lit ''rk''\<rparr>"

definition sample_server :: "unit server" where
  "sample_server =
     \<lparr>sv_topic = Some (lit ''raw''), sv_validator = Some (\<lambda>v. [], lit ''sim''), sv_parser = True,
      sv_json_normalizer = Some (lit ''sim''), sv_envelope_version = lit ''1.0'',
      sv_envelope_registry = default_registry, sv_event_type = lit ''position'',
      sv_on_decode_error = True, sv_broker = sample_broker, sv_interp = ascii_interp,
      sv_otel = sample_otel\<rparr>"

definition sample_datagram :: "pystr \<Rightarrow> datagram" where
  "sample_datagram s =
     \<lparr>dg_data = s, dg_ip = lit ''10.0.0.1'', dg_port = 9, dg_normalize_ms = 5, dg_ingest_ms = 6,
      dg_span = 0, dg_broker_error = None\<rparr>"

text \<open>
  C5. The loop implements a specification without a loop: every datagram up to the first socket
  error has an outcome of its own, whatever came before it. The exchange gets the messages of the
  good ones, in order, the counter counts them, and the error callback, where there is one, gets
  the data and the exception of each bad one, in order.
\<close>

theorem serve_refines_outcomes:
  "ex_accepted (ss_exchange (serve sv rs st))
     = ex_accepted (ss_exchange st) @ List.map_filter (sent_by sv) (datagrams rs)
   \<and> ex_messages_total (ss_exchange (serve sv rs st))
     = ex_messages_total (ss_exchange st) + length (List.map_filter (sent_by sv) (datagrams rs))
   \<and> ss_errors (serve sv rs st)
     = ss_errors st @ (if sv_on_decode_error sv then List.map_filter (failed_by sv) (datagrams rs) else [])"
  by (rule serve_outcomes)



text \<open>
  C26. What the server publishes can be read back: the body of every prepared message decodes, with
  \<open>json.loads\<close> on bytes as the consumers use it, to the version 1 envelope of the payload that the
  datagram was processed to, floats and strings included.
\<close>

theorem published_message_reads_back:
  assumes "prepare_message sv dg = Inr (m, h)" and "wf_server sv"
    and "sv_envelope_registry sv = default_registry"
  shows "\<exists>payload h0.
    process_datagram sv (dg_normalize_ms dg) (dg_data dg) (peer_headers dg) = Inr (payload, h0)
    \<and> json_loads_bytes m = Inr (JObj (v1_build payload
        \<lparr>ec_schema_version = lit ''1.0'', ec_event_type = sv_event_type sv,
         ec_origin = payload_origin payload h0, ec_normalized = is_normalized payload,
         ec_ingested_at_ms = dg_ingest_ms dg\<rparr>))"
  using prepared_message_reads_back [OF assms] by blast

lemma published_message_reads_back_witness:
  "\<exists>m h payload h0.
    prepare_message sample_server (sample_datagram (lit ''status2:1,A1,2,3'')) = Inr (m, h)
    \<and> process_datagram sample_server 5 (lit ''status2:1,A1,2,3'')
        (peer_headers (sample_datagram (lit ''status2:1,A1,2,3''))) = Inr (payload, h0)
    \<and> json_loads_bytes m = Inr (JObj (v1_build payload
        \<lparr>ec_schema_version = lit ''1.0'', ec_event_type = lit ''position'',
         ec_origin = payload_origin payload h0, ec_normalized = is_normalized payload,
         ec_ingested_at_ms = 6\<rparr>))"
proof -
  have "case prepare_message sample_server (sample_datagram (lit ''status2:1,A1,2,3'')) of
      Inl e \<Rightarrow> False | Inr x \<Rightarrow> True"
    by code_simp
  then obtain m h where m: "prepare_message sample_server (sample_datagram (lit ''status2:1,A1,2,3''))
      = Inr (m, h)"
    by (auto split: sum.splits)
  have "wf_server sample_server" by (simp add: wf_server_def sample_server_def)
  from published_message_reads_back [OF m this] m show ?thesis
    by (auto simp: sample_server_def sample_datagram_def)
qed

text \<open>
  An LS-1000 message that the parser accepts becomes the payload as it is, with the headers of
  the parser; the JSON path is not taken.
\<close>

theorem ls1000_datagram:
  assumes "sv_parser sv" and "parse_message (sv_interp sv) s = Inr (Some ev, err)"
    and "valid_str s" and "encode_utf8 s = Inr data"
  shows "process_datagram sv now data h = Inr (JObj (asdict ev),
    dict_set (lit ''parser'') (lit ''ls1000'') (dict_set (lit ''origin'') (lit ''ls-1000'') h))"
  using assms decode_encode_utf8 [OF assms(3,4)]
  by (simp add: process_datagram_def try_parse_ls1000_def)

lemma ls1000_datagram_witness:
  "process_datagram sample_server 5 (lit ''status2:1,A1,2,3'') []
   = Inr (JObj (asdict (ls_event (lit ''status2:1,A1,2,3'') (lit ''status2'') (lit ''A1'') (IntVal 3)
         (None, None, None) None None None None None)),
       dict_set (lit ''parser'') (lit ''ls1000'') (dict_set (lit ''origin'') (lit ''ls-1000'') []))"
  by (rule ls1000_datagram [where s = "lit ''status2:1,A1,2,3''" and err = None]) code_simp+

text \<open>
  The published headers name the peer as the socket gave it: the processing and the propagator
  only add fields of their own.
\<close>

theorem published_headers:
  assumes "prepare_message sv dg = Inr (m, h)" and "injects_trace_keys (sv_otel sv)"
  shows "dict_get h (lit ''source_ip'') = Some (dg_ip dg)
    \<and> dict_get h (lit ''source_port'') = Some (int_repr (dg_port dg))
    \<and> dict_get h (lit ''origin'') \<noteq> None"
  using assms(1)
proof (rule prepare_message_Inr)
  fix payload h0
  assume p: "process_datagram sv (dg_normalize_ms dg) (dg_data dg) (peer_headers dg) = Inr (payload, h0)"
    and h: "h = inject_into_headers (sv_otel sv) (attached_context sv (dg_data dg)) (dg_span dg) h0"
  have "lit k \<notin> set trace_keys" if "k \<in> {''source_ip'', ''source_port'', ''origin''}" for k
    using that by (auto simp: trace_keys_def traceparent_def tracestate_def)
  then show ?thesis
    using process_datagram_headers [OF p, of "lit ''source_ip''"]
      process_datagram_headers [OF p, of "lit ''source_port''"]
    by (simp add: h inject_headers_get [OF assms(2)] peer_headers_def)
qed

lemma published_headers_witness:
  "\<exists>h. dict_get h (lit ''source_ip'') = Some (lit ''10.0.0.1'')
    \<and> dict_get h (lit ''source_port'') = Some (int_repr 9) \<and> dict_get h (lit ''origin'') \<noteq> None"
proof -
  have "case prepare_message sample_server (sample_datagram (lit ''status2:1,A1,2,3'')) of
      Inl e \<Rightarrow> False | Inr x \<Rightarrow> True"
    by code_simp
  then obtain m h where m: "prepare_message sample_server (sample_datagram (lit ''status2:1,A1,2,3''))
      = Inr (m, h)"
    by (auto split: sum.splits)
  have "injects_trace_keys (sv_otel sample_server)"
    by (simp add: injects_trace_keys_def sample_server_def sample_otel_def trace_keys_def)
  from published_headers [OF m this] show ?thesis
    by (auto simp: sample_datagram_def simp del: int_repr_def)
qed

text \<open>The text of an object with injected trace fields is stripped to the text of the object.\<close>

lemma strip_injected_text:
  assumes "injects_trace_keys ot" and "wf_json (JObj (inject_into_dict ot ctx n d))"
    and "json_dumps (JObj (inject_into_dict ot ctx n d)) = Inr s"
    and "list_all (\<lambda>k. dict_get d k = None) trace_keys"
  shows "strip_trace_from_string s = json_dumps (JObj d)"
proof -
  have "strip_trace_keys d = d"
    using assms(4) by (simp add: strip_trace_keys_simp trace_keys_def dict_pop_absent)
  then show ?thesis
    using strip_trace_dumps [OF assms(2,3)] strip_inject [OF assms(1)] by simp
qed

text \<open>
  An envelope version that the registry does not know lets nothing through: every datagram
  fails, whatever it holds.
\<close>

theorem unknown_version_blocks:
  assumes "sv_envelope_registry sv = default_registry" and "sv_envelope_version sv \<noteq> lit ''1.0''"
  shows "ex_accepted (ss_exchange (serve sv rs st)) = ex_accepted (ss_exchange st)"
proof -
  have "\<exists>e. prepare_message sv dg = Inl e" for dg
    using assms by (cases "prepare_message sv dg")
      (auto elim!: prepare_message_Inr simp: registry_get_default)
  then have "sent_by sv dg = None" for dg
    by (metis bind_res_Inl datagram_outcome_def sent_failed(1))
  then have "List.map_filter (sent_by sv) dgs = []" for dgs
    by (induction dgs) (simp_all add: map_filter_simps)
  then show ?thesis using serve_outcomes [of sv rs st] by simp
qed

lemma unknown_version_blocks_witness:
  "ex_accepted (ss_exchange (serve (sample_server\<lparr>sv_envelope_version := lit ''2.0''\<rparr>)
      [Datagram (sample_datagram (lit ''status2:1,A1,2,3''))]
      \<lparr>ss_exchange = \<lparr>ex_accepted = [], ex_messages_total = 0\<rparr>, ss_errors = []\<rparr>)) = []"
  by (subst unknown_version_blocks) (simp_all add: sample_server_def)

end
