(* ===== verification/Repository.thy ===== *)
theory Repository
  imports Udp_Server "HOL-Library.List_Lexorder"
begin

text \<open>
  \<open>backend/repository\<close> with its SQL files and \<open>migrations\<close>, and \<open>backend/db.py\<close>: the two tables, the
  statements that write and read them, and the transaction around a write. PostgreSQL and psycopg
  are third-party code; what the statements leave to them is the record \<open>pg\<close>: the conversion of a
  parameter to each column type (\<open>None\<close> is NULL), the collation of text, and the order in which a
  table is scanned, which decides between rows that ORDER BY leaves equal.
\<close>

section \<open>Tables\<close>

text \<open>The columns of both tables (\<open>current_positions\<close> has \<open>tag_id\<close> as its primary key).\<close>

record position_row =
  pr_schema_version :: pystr
  pr_event_type :: pystr
  pr_origin :: pystr
  pr_normalized :: bool
  pr_ingested_at_ms :: int
  pr_tag_id :: pystr
  pr_ts_utc_ms :: int
  pr_source_type :: pystr
  pr_status :: "pystr option"
  pr_layer :: "int option"
  pr_area :: "pystr option"
  pr_x :: "pyfloat option"
  pr_y :: "pyfloat option"
  pr_z :: "pyfloat option"
  pr_lng :: "pyfloat option"
  pr_lat :: "pyfloat option"
  pr_raw_message :: pystr
  pr_parse_warnings :: json

record db =
  db_events :: "position_row list"
  db_current :: "position_row dict"

record pg =
  pg_text :: "json \<Rightarrow> pystr option res"
  pg_boolean :: "json \<Rightarrow> bool option res"
  pg_bigint :: "json \<Rightarrow> int option res"
  pg_integer :: "json \<Rightarrow> int option res"
  pg_double :: "json \<Rightarrow> pyfloat option res"
  pg_jsonb :: "json \<Rightarrow> json option res"
  pg_collate :: "pystr \<Rightarrow> int list"
  pg_scan :: "position_row list \<Rightarrow> position_row list"

section \<open>Parameters\<close>

definition dict_item :: "json dict \<Rightarrow> pystr \<Rightarrow> json res" where
  "dict_item d k = (case dict_get d k of None \<Rightarrow> Inl (KeyError k) | Some v \<Rightarrow> Inr v)"

text \<open>\<open>_extract_params\<close>, the entries in the order of the dict display.\<close>

definition payload_params :: "json dict \<Rightarrow> (pystr \<times> json) list" where
  "payload_params payload =
     [(lit ''source_type'', get_default payload (lit ''source_type'') (JStr (lit ''unknown''))),
      (lit ''status'', get_or_null payload (lit ''status'')),
      (lit ''layer'', get_or_null payload (lit ''layer'')),
      (lit ''area'', get_or_null payload (lit ''area'')),
      (lit ''x'', get_or_null payload (lit ''x'')),
      (lit ''y'', get_or_null payload (lit ''y'')),
      (lit ''z'', get_or_null payload (lit ''z'')),
      (lit ''lng'', get_or_null payload (lit ''lng'')),
      (lit ''lat'', get_or_null payload (lit ''lat'')),
      (lit ''raw_message'', get_default payload (lit ''raw_message'') (JStr []))]"

definition extract_params :: "json dict \<Rightarrow> json dict res" where
  "extract_params envelope =
     (case get_default envelope (lit ''payload'') (JObj []) of
        JObj payload \<Rightarrow>
          let warnings = get_default payload (lit ''parse_warnings'') (JArr [])
          in bind_res (map_res (\<lambda>k. bind_res (dict_item envelope k) (\<lambda>v. Inr (k, v)))
               [lit ''schema_version'', lit ''event_type'', lit ''origin'', lit ''normalized'',
                lit ''ingested_at_ms'']) (\<lambda>head.
             bind_res (map_res (\<lambda>k. bind_res (dict_item payload k) (\<lambda>v. Inr (k, v)))
               [lit ''tag_id'', lit ''ts_utc_ms'']) (\<lambda>key.
             bind_res (json_dumps_default warnings) (\<lambda>w.
               Inr (head @ key @ payload_params payload @ [(lit ''parse_warnings'', JStr w)]))))
      | _ \<Rightarrow> Inl AttributeError)"

text \<open>A row of values, converted to the types of the columns; NOT NULL refuses NULL.\<close>

definition not_null :: "'a option res \<Rightarrow> 'a res" where
  "not_null m = bind_res m (\<lambda>v. case v of None \<Rightarrow> Inl DatabaseError | Some a \<Rightarrow> Inr a)"

definition param :: "json dict \<Rightarrow> string \<Rightarrow> json" where
  "param params name = get_or_null params (lit name)"

definition row_of_params :: "pg \<Rightarrow> json dict \<Rightarrow> position_row res" where
  "row_of_params pg params =
     bind_res (not_null (pg_text pg (param params ''schema_version''))) (\<lambda>schema_version.
     bind_res (not_null (pg_text pg (param params ''event_type''))) (\<lambda>event_type.
     bind_res (not_null (pg_text pg (param params ''origin''))) (\<lambda>origin.
     bind_res (not_null (pg_boolean pg (param params ''normalized''))) (\<lambda>normalized.
     bind_res (not_null (pg_bigint pg (param params ''ingested_at_ms''))) (\<lambda>ingested_at_ms.
     bind_res (not_null (pg_text pg (param params ''tag_id''))) (\<lambda>tag_id.
     bind_res (not_null (pg_bigint pg (param params ''ts_utc_ms''))) (\<lambda>ts_utc_ms.
     bind_res (not_null (pg_text pg (param params ''source_type''))) (\<lambda>source_type.
     bind_res (pg_text pg (param params ''status'')) (\<lambda>status.
     bind_res (pg_integer pg (param params ''layer'')) (\<lambda>layer.
     bind_res (pg_text pg (param params ''area'')) (\<lambda>area.
     bind_res (pg_double pg (param params ''x'')) (\<lambda>x.
     bind_res (pg_double pg (param params ''y'')) (\<lambda>y.
     bind_res (pg_double pg (param params ''z'')) (\<lambda>z.
     bind_res (pg_double pg (param params ''lng'')) (\<lambda>lng.
     bind_res (pg_double pg (param params ''lat'')) (\<lambda>lat.
     bind_res (not_null (pg_text pg (param params ''raw_message''))) (\<lambda>raw_message.
     bind_res (not_null (pg_jsonb pg (param params ''parse_warnings''))) (\<lambda>parse_warnings.
       Inr \<lparr>pr_schema_version = schema_version, pr_event_type = event_type, pr_origin = origin,
            pr_normalized = normalized, pr_ingested_at_ms = ingested_at_ms, pr_tag_id = tag_id,
            pr_ts_utc_ms = ts_utc_ms, pr_source_type = source_type, pr_status = status,
            pr_layer = layer, pr_area = area, pr_x = x, pr_y = y, pr_z = z, pr_lng = lng,
            pr_lat = lat, pr_raw_message = raw_message, pr_parse_warnings = parse_warnings\<rparr>))))))))))))))))))"

section \<open>Writing\<close>

text \<open>\<open>insert_position_event.sql\<close> and \<open>upsert_current_position.sql\<close>.\<close>

definition sql_insert_event :: "position_row \<Rightarrow> db \<Rightarrow> db" where
  "sql_insert_event r db = db\<lparr>db_events := db_events db @ [r]\<rparr>"

definition upsert_row :: "position_row \<Rightarrow> position_row dict \<Rightarrow> position_row dict" where
  "upsert_row r t =
     (case dict_get t (pr_tag_id r) of
        None \<Rightarrow> dict_set (pr_tag_id r) r t
      | Some old \<Rightarrow>
          if pr_ts_utc_ms r \<ge> pr_ts_utc_ms old then dict_set (pr_tag_id r) r t else t)"

definition insert_position_event :: "pg \<Rightarrow> json dict \<Rightarrow> db \<Rightarrow> db res" where
  "insert_position_event pg envelope db =
     bind_res (extract_params envelope) (\<lambda>params.
     bind_res (row_of_params pg params) (\<lambda>r. Inr (sql_insert_event r db)))"

definition upsert_current_position :: "pg \<Rightarrow> json dict \<Rightarrow> db \<Rightarrow> db res" where
  "upsert_current_position pg envelope db =
     bind_res (extract_params envelope) (\<lambda>params.
     bind_res (row_of_params pg params) (\<lambda>r. Inr (db\<lparr>db_current := upsert_row r (db_current db)\<rparr>)))"

definition persist_envelope :: "pg \<Rightarrow> json dict \<Rightarrow> db \<Rightarrow> db res" where
  "persist_envelope pg envelope db =
     bind_res (insert_position_event pg envelope db) (upsert_current_position pg envelope)"

text \<open>
  \<open>_write_to_db\<close>: one transaction on a pooled connection. \<open>fault\<close> is an exception of the pool or of
  the commit; any exception rolls the transaction back.
\<close>

definition write_to_db :: "pg \<Rightarrow> py_exc option \<Rightarrow> json dict \<Rightarrow> db \<Rightarrow> db \<times> unit res" where
  "write_to_db pg fault envelope db =
     (case fault of
        Some e \<Rightarrow> (db, Inl e)
      | None \<Rightarrow>
          (case persist_envelope pg envelope db of
             Inl e \<Rightarrow> (db, Inl e)
           | Inr db' \<Rightarrow> (db', Inr ())))"

section \<open>Reading\<close>

definition current_pos_columns :: "pystr list" where
  "current_pos_columns =
     [lit ''tag_id'', lit ''ts_utc_ms'', lit ''source_type'', lit ''status'', lit ''layer'',
      lit ''area'', lit ''x'', lit ''y'', lit ''z'', lit ''lng'', lit ''lat'', lit ''origin'']"

text \<open>The columns that both SELECT statements list, as Python values.\<close>

definition select_row :: "position_row \<Rightarrow> json list" where
  "select_row r =
     [JStr (pr_tag_id r), JInt (pr_ts_utc_ms r), JStr (pr_source_type r),
      json_opt JStr (pr_status r), json_opt JInt (pr_layer r), json_opt JStr (pr_area r),
      json_opt JFloat (pr_x r), json_opt JFloat (pr_y r), json_opt JFloat (pr_z r),
      json_opt JFloat (pr_lng r), json_opt JFloat (pr_lat r), JStr (pr_origin r)]"

definition row_dict :: "position_row \<Rightarrow> json dict" where
  "row_dict r = zip current_pos_columns (select_row r)"

definition get_all_current_positions :: "pg \<Rightarrow> db \<Rightarrow> json dict list" where
  "get_all_current_positions pg db =
     map row_dict (sort_key (\<lambda>r. pg_collate pg (pr_tag_id r)) (pg_scan pg (map snd (db_current db))))"

text \<open>\<open>_build_time_filters\<close>: the clauses added to the WHERE part, with their parameters.\<close>

datatype time_clause = TsFrom int | TsTo int

definition build_time_filters :: "int option \<Rightarrow> int option \<Rightarrow> time_clause list" where
  "build_time_filters from_ts to_ts =
     (case from_ts of None \<Rightarrow> [] | Some f \<Rightarrow> [TsFrom f])
     @ (case to_ts of None \<Rightarrow> [] | Some t \<Rightarrow> [TsTo t])"

fun clause_holds :: "position_row \<Rightarrow> time_clause \<Rightarrow> bool" where
  "clause_holds r (TsFrom f) = (pr_ts_utc_ms r \<ge> f)"
| "clause_holds r (TsTo t) = (pr_ts_utc_ms r \<le> t)"

definition where_tag :: "pystr \<Rightarrow> time_clause list \<Rightarrow> position_row \<Rightarrow> bool" where
  "where_tag tag clauses r \<longleftrightarrow> pr_tag_id r = tag \<and> list_all (clause_holds r) clauses"

definition select_history ::
  "pg \<Rightarrow> db \<Rightarrow> pystr \<Rightarrow> time_clause list \<Rightarrow> position_row list" where
  "select_history pg db tag clauses =
     sort_key (\<lambda>r. - pr_ts_utc_ms r) (filter (where_tag tag clauses) (pg_scan pg (db_events db)))"

definition get_position_history ::
  "pg \<Rightarrow> db \<Rightarrow> pystr \<Rightarrow> int option \<Rightarrow> int option \<Rightarrow> nat \<Rightarrow> nat \<Rightarrow> json dict list" where
  "get_position_history pg db tag_id from_ts to_ts limit offset =
     map row_dict (take limit (drop offset
       (select_history pg db tag_id (build_time_filters from_ts to_ts))))"

definition count_position_history ::
  "db \<Rightarrow> pystr \<Rightarrow> int option \<Rightarrow> int option \<Rightarrow> nat" where
  "count_position_history db tag_id from_ts to_ts =
     length (filter (where_tag tag_id (build_time_filters from_ts to_ts)) (db_events db))"

text \<open>
  \<open>backend/api/positions.py\<close>: the bounds of the query parameters are checked before the handler
  runs (\<open>None\<close> stands for the answer 422), and one connection serves both statements. Each statement
  sees what is committed when it begins: \<open>db\<close> is the database of the first, \<open>later\<close> of the second.
\<close>

definition position_history ::
  "pg \<Rightarrow> db \<Rightarrow> db \<Rightarrow> pystr \<Rightarrow> int option \<Rightarrow> int option \<Rightarrow> int \<Rightarrow> int \<Rightarrow> (json dict list \<times> nat) option" where
  "position_history pg db later tag_id from_ts to_ts limit offset =
     (if 1 \<le> limit \<and> limit \<le> 1000 \<and> 0 \<le> offset
      then Some (get_position_history pg db tag_id from_ts to_ts (nat limit) (nat offset),
                 count_position_history later tag_id from_ts to_ts)
      else None)"

end
