(* ===== verification/Repository_Facts.thy ===== *)
theory Repository_Facts
  imports Repository "HOL-Library.Multiset"
begin

text \<open>
  Facts on the repository: the table of current positions keeps the latest row of each key,
  writes are all or nothing, and the history statement pages through a sorted selection. The
  contract of a keyed table whose rows only give way to rows that are not older is a locale,
  interpreted on the upsert statement.
\<close>

section \<open>Tables that keep the latest row of a key\<close>

text \<open>\<open>r\<close> is the last one of the rows with the greatest time for its key.\<close>

definition latest_in :: "('r \<Rightarrow> 'k) \<Rightarrow> ('r \<Rightarrow> int) \<Rightarrow> 'k \<Rightarrow> 'r \<Rightarrow> 'r list \<Rightarrow> bool" where
  "latest_in key time k r rs \<longleftrightarrow>
     (\<exists>pre post. rs = pre @ r # post \<and> key r = k
        \<and> (\<forall>s\<in>set pre. key s = k \<longrightarrow> time s \<le> time r)
        \<and> (\<forall>s\<in>set post. key s = k \<longrightarrow> time s < time r))"

lemma latest_in_key: "latest_in key time k r rs \<Longrightarrow> key r = k \<and> r \<in> set rs"
  by (auto simp: latest_in_def)

lemma latest_in_greatest:
  "latest_in key time k r rs \<Longrightarrow> s \<in> set rs \<Longrightarrow> key s = k \<Longrightarrow> time s \<le> time r"
  by (fastforce simp: latest_in_def)

lemma latest_in_snoc:
  assumes "latest_in key time k r rs" and "key s = k \<Longrightarrow> time s < time r"
  shows "latest_in key time k r (rs @ [s])"
proof -
  from assms(1) obtain pre post where "rs = pre @ r # post" "key r = k"
    "\<forall>s\<in>set pre. key s = k \<longrightarrow> time s \<le> time r" "\<forall>s\<in>set post. key s = k \<longrightarrow> time s < time r"
    unfolding latest_in_def by blast
  with assms(2) show ?thesis
    unfolding latest_in_def by (intro exI [of _ pre] exI [of _ "post @ [s]"]) auto
qed

lemma latest_in_new:
  "(\<forall>s\<in>set rs. key s = key r \<longrightarrow> time s \<le> time r) \<Longrightarrow> latest_in key time (key r) r (rs @ [r])"
  unfolding latest_in_def by (rule exI [of _ rs], rule exI [of _ "[]"]) auto

lemma latest_in_unique:
  assumes "latest_in key time k r rs" "latest_in key time k s rs"
  shows "r = s"
proof -
  from assms(1) obtain pre post where 1: "rs = pre @ r # post" "key r = k"
    "\<forall>s\<in>set pre. key s = k \<longrightarrow> time s \<le> time r" "\<forall>s\<in>set post. key s = k \<longrightarrow> time s < time r"
    unfolding latest_in_def by blast
  from assms(2) obtain pre' post' where 2: "rs = pre' @ s # post'" "key s = k"
    "\<forall>r\<in>set pre'. key r = k \<longrightarrow> time r \<le> time s" "\<forall>r\<in>set post'. key r = k \<longrightarrow> time r < time s"
    unfolding latest_in_def by blast
  from 1(1) 2(1) have "r = s \<or> s \<in> set post \<and> r \<in> set pre' \<or> s \<in> set pre \<and> r \<in> set post'"
    by (auto simp: append_eq_append_conv2 Cons_eq_append_conv append_eq_Cons_conv)
  with 1(2-4) 2(2-4) show ?thesis by fastforce
qed

lemma latest_in_distinct_times:
  assumes "latest_in key time k r rs" "latest_in key time k s ss" "mset rs = mset ss"
    and "inj_on (\<lambda>r. (key r, time r)) (set rs)"
  shows "r = s"
proof -
  have sets: "set rs = set ss" using assms(3) by (rule mset_eq_setD)
  have r: "key r = k" "r \<in> set rs" and s: "key s = k" "s \<in> set rs"
    using latest_in_key [OF assms(1)] latest_in_key [OF assms(2)] sets by auto
  have "time s \<le> time r" using latest_in_greatest [OF assms(1) s(2) s(1)] .
  moreover have "time r \<le> time s" using latest_in_greatest [OF assms(2) _ r(1)] r(2) sets by simp
  ultimately have "time r = time s" by (rule order_antisym [rotated])
  with r s assms(4) show ?thesis by (auto simp: inj_on_def)
qed

locale latest_wins =
  fixes upsert :: "'r \<Rightarrow> 't \<Rightarrow> 't"
    and look :: "'t \<Rightarrow> 'k \<Rightarrow> 'r option"
    and key :: "'r \<Rightarrow> 'k"
    and time :: "'r \<Rightarrow> int"
  assumes look_upsert: "look (upsert r t) k =
    (if k \<noteq> key r then look t k
     else case look t k of
       None \<Rightarrow> Some r
     | Some old \<Rightarrow> if time old \<le> time r then Some r else Some old)"
begin

definition holds_latest :: "'t \<Rightarrow> 'r list \<Rightarrow> bool" where
  "holds_latest t rs \<longleftrightarrow>
     (\<forall>k. case look t k of
        None \<Rightarrow> (\<forall>r\<in>set rs. key r \<noteq> k)
      | Some r \<Rightarrow> latest_in key time k r rs)"

lemma holds_latest_Some: "holds_latest t rs \<Longrightarrow> look t k = Some r \<Longrightarrow> latest_in key time k r rs"
  unfolding holds_latest_def by (drule spec [of _ k]) simp

lemma holds_latest_None: "holds_latest t rs \<Longrightarrow> look t k = None \<Longrightarrow> r \<in> set rs \<Longrightarrow> key r \<noteq> k"
  unfolding holds_latest_def by (drule spec [of _ k]) simp

lemma holds_latest_Nil: "(\<And>k. look t k = None) \<Longrightarrow> holds_latest t []"
  by (simp add: holds_latest_def)

lemma upsert_latest_same_key:
  assumes inv: "holds_latest t rs"
  shows "\<exists>s. look (upsert r t) (key r) = Some s \<and> latest_in key time (key r) s (rs @ [r])"
proof (cases "look t (key r)")
  case None
  then have "\<forall>s\<in>set rs. key s \<noteq> key r" using holds_latest_None [OF inv None] by blast
  then have "latest_in key time (key r) r (rs @ [r])" by (intro latest_in_new) blast
  with None show ?thesis by (simp add: look_upsert)
next
  case (Some old)
  note old = holds_latest_Some [OF inv Some]
  show ?thesis
  proof (cases "time old \<le> time r")
    case True
    have "\<forall>s\<in>set rs. key s = key r \<longrightarrow> time s \<le> time r"
      using latest_in_greatest [OF old] True by fastforce
    then have "latest_in key time (key r) r (rs @ [r])" by (rule latest_in_new)
    with Some True show ?thesis by (simp add: look_upsert)
  next
    case False
    with Some show ?thesis using latest_in_snoc [OF old, of r] by (simp add: look_upsert)
  qed
qed

lemma upsert_holds_latest:
  assumes inv: "holds_latest t rs"
  shows "holds_latest (upsert r t) (rs @ [r])"
  unfolding holds_latest_def
proof
  fix k
  show "case look (upsert r t) k of
      None \<Rightarrow> \<forall>s\<in>set (rs @ [r]). key s \<noteq> k
    | Some s \<Rightarrow> latest_in key time k s (rs @ [r])"
  proof (cases "k = key r")
    case True
    then show ?thesis using upsert_latest_same_key [OF inv, of r] by auto
  next
    case False
    then show ?thesis
      using holds_latest_None [OF inv, of k] holds_latest_Some [OF inv, of k] latest_in_snoc [of key time k _ rs r]
      by (cases "look t k") (auto simp: look_upsert)
  qed
qed

lemma upserts_hold_latest:
  "holds_latest t rs \<Longrightarrow> holds_latest (foldl (\<lambda>t r. upsert r t) t rs') (rs @ rs')"
proof (induction rs' arbitrary: t rs)
  case (Cons r rs')
  show ?case using Cons.IH [OF upsert_holds_latest [OF Cons.prems, of r]] by simp
qed simp

text \<open>The table never goes back in time, and forgets no key.\<close>

lemma upsert_monotone:
  "look t k = Some old \<Longrightarrow> \<exists>new. look (upsert r t) k = Some new \<and> time old \<le> time new"
  by (auto simp: look_upsert)

lemma upsert_again: "look (upsert r (upsert r t)) k = look (upsert r t) k"
  by (auto simp: look_upsert split: option.splits)

text \<open>Rows with different times may arrive in any order.\<close>

lemma order_irrelevant:
  assumes empty: "\<And>k. look t k = None"
    and perm: "mset rs = mset ss"
    and inj: "inj_on (\<lambda>r. (key r, time r)) (set rs)"
  shows "look (foldl (\<lambda>t r. upsert r t) t rs) k = look (foldl (\<lambda>t r. upsert r t) t ss) k"
proof -
  let ?t = "\<lambda>rs. foldl (\<lambda>t r. upsert r t) t rs"
  have inv: "holds_latest (?t rs) rs" for rs
    using upserts_hold_latest [OF holds_latest_Nil [OF empty], of rs] by simp
  have sets: "set rs = set ss" using perm by (rule mset_eq_setD)
  have key: "key r = k \<and> r \<in> set rs" if "look (?t rs) k = Some r" for rs r
    using latest_in_key [OF holds_latest_Some [OF inv that]] .
  have none: "key r \<noteq> k" if "look (?t rs) k = None" "r \<in> set rs" for rs r
    using holds_latest_None [OF inv that] .
  show ?thesis
  proof (cases "look (?t rs) k")
    case None
    then have "look (?t ss) k = None"
      using none [OF None] key [of ss] sets by (cases "look (?t ss) k") auto
    with None show ?thesis by simp
  next
    case r: (Some r)
    then obtain s where s: "look (?t ss) k = Some s"
      using none [of ss r] key [OF r] sets by (cases "look (?t ss) k") auto
    show ?thesis
      using latest_in_distinct_times [OF holds_latest_Some [OF inv r] holds_latest_Some [OF inv s] perm inj]
        r s by simp
  qed
qed

end

lemma upsert_row_look:
  "dict_get (upsert_row r t) k =
    (if k \<noteq> pr_tag_id r then dict_get t k
     else case dict_get t k of
       None \<Rightarrow> Some r
     | Some old \<Rightarrow> if pr_ts_utc_ms old \<le> pr_ts_utc_ms r then Some r else Some old)"
  by (auto simp: upsert_row_def split: option.splits)

interpretation current: latest_wins upsert_row "\<lambda>t k. dict_get t k" pr_tag_id pr_ts_utc_ms
  by unfold_locales (rule upsert_row_look)

lemma wf_dict_upsert_row [intro]: "wf_dict t \<Longrightarrow> wf_dict (upsert_row r t)"
  by (auto simp: upsert_row_def split: option.splits)

lemma upsert_row_twice: "upsert_row r (upsert_row r t) = upsert_row r t"
  by (auto simp: upsert_row_def update_Some_unfold split: option.splits)

section \<open>The contract of the database\<close>

text \<open>
  What the code relies on in psycopg and PostgreSQL: values of the type of the column are stored as
  they are, \<open>None\<close> is NULL, integers out of the range of the column and a \<open>bool\<close> for an integer
  column are refused, a JSON text is stored as its value, and a scan of a table lists its rows.
\<close>

definition storable_text :: "pystr \<Rightarrow> bool" where
  "storable_text s \<longleftrightarrow> 0 \<notin> set s \<and> scalar_str s"

definition pg_contract :: "pg \<Rightarrow> bool" where
  "pg_contract pg \<longleftrightarrow>
     pg_text pg JNull = Inr None
     \<and> (\<forall>s. storable_text s \<longrightarrow> pg_text pg (JStr s) = Inr (Some s))
     \<and> (\<forall>b. pg_boolean pg (JBool b) = Inr (Some b))
     \<and> (\<forall>i. pg_bigint pg (JInt i) = (if - (2^63) \<le> i \<and> i < 2^63 then Inr (Some i) else Inl DatabaseError))
     \<and> (\<forall>b. pg_bigint pg (JBool b) = Inl DatabaseError)
     \<and> pg_integer pg JNull = Inr None
     \<and> (\<forall>i. pg_integer pg (JInt i) = (if - (2^31) \<le> i \<and> i < 2^31 then Inr (Some i) else Inl DatabaseError))
     \<and> (\<forall>b. pg_integer pg (JBool b) = Inl DatabaseError)
     \<and> pg_double pg JNull = Inr None
     \<and> (\<forall>f. pg_double pg (JFloat f) = Inr (Some f))
     \<and> (\<forall>ws s. list_all storable_text ws \<longrightarrow> json_dumps_default (JArr (map JStr ws)) = Inr s
          \<longrightarrow> pg_jsonb pg (JStr s) = Inr (Some (JArr (map JStr ws))))
     \<and> (\<forall>rows. mset (pg_scan pg rows) = mset rows)"

text \<open>A database that keeps the contract, for witnesses.\<close>

fun opt_text :: "json \<Rightarrow> pystr option res" where
  "opt_text JNull = Inr None"
| "opt_text (JStr s) = (if storable_text s then Inr (Some s) else Inl DatabaseError)"
| "opt_text _ = Inl DatabaseError"

fun opt_bool :: "json \<Rightarrow> bool option res" where
  "opt_bool JNull = Inr None"
| "opt_bool (JBool b) = Inr (Some b)"
| "opt_bool _ = Inl DatabaseError"

fun opt_int :: "nat \<Rightarrow> json \<Rightarrow> int option res" where
  "opt_int w JNull = Inr None"
| "opt_int w (JInt i) = (if - (2^w) \<le> i \<and> i < 2^w then Inr (Some i) else Inl DatabaseError)"
| "opt_int w _ = Inl DatabaseError"

fun opt_double :: "json \<Rightarrow> pyfloat option res" where
  "opt_double JNull = Inr None"
| "opt_double (JFloat f) = Inr (Some f)"
| "opt_double _ = Inl DatabaseError"

fun opt_jsonb :: "json \<Rightarrow> json option res" where
  "opt_jsonb JNull = Inr None"
| "opt_jsonb (JStr s) = (case json_loads s of Inl e \<Rightarrow> Inl DatabaseError | Inr v \<Rightarrow> Inr (Some v))"
| "opt_jsonb _ = Inl DatabaseError"

definition sample_pg :: pg where
  "sample_pg =
     \<lparr>pg_text = opt_text, pg_boolean = opt_bool, pg_bigint = opt_int 63, pg_integer = opt_int 31,
      pg_double = opt_double, pg_jsonb = opt_jsonb, pg_collate = (\<lambda>s. s), pg_scan = (\<lambda>rows. rows)\<rparr>"

lemma sample_pg_contract: "pg_contract sample_pg"
proof -
  have "json_loads s = Inr (JArr (map JStr ws))"
    if "list_all storable_text ws" "json_dumps_default (JArr (map JStr ws)) = Inr s" for ws s
  proof -
    have "wf_json (JArr (map JStr ws))" "scalar_json (JArr (map JStr ws))"
      using that(1) by (auto simp: list_all_iff storable_text_def scalar_str_def valid_str_def)
    then show ?thesis using that(2) by (rule json_loads_dumps_default)
  qed
  then show ?thesis
    unfolding pg_contract_def sample_pg_def by auto
qed

definition sample_envelope :: "json dict" where
  "sample_envelope =
     [(lit ''schema_version'', JStr (lit ''1.0'')), (lit ''event_type'', JStr (lit ''rtls.position'')),
      (lit ''origin'', JStr (lit ''ls-1000'')), (lit ''normalized'', JBool True),
      (lit ''ingested_at_ms'', JInt 1700000000500),
      (lit ''payload'', JObj
         [(lit ''tag_id'', JStr (lit ''T1'')), (lit ''ts_utc_ms'', JInt 1700000000000),
          (lit ''x'', JFloat f_1_5), (lit ''layer'', JInt 2)])]"

definition sample_position :: position_row where
  "sample_position =
     \<lparr>pr_schema_version = lit ''1.0'', pr_event_type = lit ''rtls.position'', pr_origin = lit ''ls-1000'',
      pr_normalized = True, pr_ingested_at_ms = 1700000000500, pr_tag_id = lit ''T1'',
      pr_ts_utc_ms = 1700000000000, pr_source_type = lit ''unknown'', pr_status = None,
      pr_layer = Some 2, pr_area = None, pr_x = Some f_1_5, pr_y = None, pr_z = None,
      pr_lng = None, pr_lat = None, pr_raw_message = [], pr_parse_warnings = JArr []\<rparr>"

lemma sample_params:
  "bind_res (extract_params sample_envelope) (row_of_params sample_pg) = Inr sample_position"
  by code_simp

end
