(* ===== verification/Repository_Properties.thy ===== *)
theory Repository_Properties
  imports Repository_Facts
begin

text \<open>
  Properties of the repository: what a write does, what the table of current positions holds
  after any sequence of writes, and what the history endpoint returns.
\<close>

section \<open>Sequences of writes\<close>

definition empty_db :: db where
  "empty_db = \<lparr>db_events = [], db_current = []\<rparr>"

definition write_all :: "pg \<Rightarrow> (py_exc option \<times> json dict) list \<Rightarrow> db \<Rightarrow> db" where
  "write_all pg ws db = foldl (\<lambda>db (fault, envelope). fst (write_to_db pg fault envelope db)) db ws"

definition row_of_envelope :: "pg \<Rightarrow> json dict \<Rightarrow> position_row res" where
  "row_of_envelope pg envelope = bind_res (extract_params envelope) (row_of_params pg)"

definition store_row :: "position_row \<Rightarrow> db \<Rightarrow> db" where
  "store_row r db = \<lparr>db_events = db_events db @ [r], db_current = upsert_row r (db_current db)\<rparr>"

definition row_of_write :: "pg \<Rightarrow> py_exc option \<times> json dict \<Rightarrow> position_row option" where
  "row_of_write pg w =
     (case w of
        (Some e, _) \<Rightarrow> None
      | (None, envelope) \<Rightarrow> (case row_of_envelope pg envelope of Inl e \<Rightarrow> None | Inr r \<Rightarrow> Some r))"

lemma sample_row: "row_of_envelope sample_pg sample_envelope = Inr sample_position"
  by (simp add: row_of_envelope_def sample_params)

lemma row_of_empty: "row_of_envelope pg [] = Inl (KeyError (lit ''schema_version''))"
  by (simp add: row_of_envelope_def extract_params_def get_default_def dict_item_def)

lemma persist_envelope_row:
  "persist_envelope pg envelope db = bind_res (row_of_envelope pg envelope) (\<lambda>r. Inr (store_row r db))"
  unfolding persist_envelope_def insert_position_event_def upsert_current_position_def
    row_of_envelope_def
  by (cases "extract_params envelope"; simp; cases "row_of_params pg (projr (extract_params envelope))")
     (simp_all add: sql_insert_event_def store_row_def)

lemma write_to_db_row:
  "fst (write_to_db pg fault envelope db) =
     (case row_of_write pg (fault, envelope) of None \<Rightarrow> db | Some r \<Rightarrow> store_row r db)"
  by (simp add: write_to_db_def row_of_write_def persist_envelope_row split: option.splits sum.splits)

lemma write_all_Nil [simp]: "write_all pg [] db = db"
  by (simp add: write_all_def)

lemma write_all_snoc:
  "write_all pg (ws @ [w]) db =
     (case row_of_write pg w of None \<Rightarrow> write_all pg ws db | Some r \<Rightarrow> store_row r (write_all pg ws db))"
proof -
  have "write_all pg (ws @ [w]) db = fst (write_to_db pg (fst w) (snd w) (write_all pg ws db))"
    by (simp add: write_all_def case_prod_beta)
  then show ?thesis by (simp add: write_to_db_row)
qed

lemma write_all_rows:
  "write_all pg ws empty_db =
     \<lparr>db_events = List.map_filter (row_of_write pg) ws,
      db_current = foldl (\<lambda>t r. upsert_row r t) [] (List.map_filter (row_of_write pg) ws)\<rparr>"
proof (induction ws rule: rev_induct)
  case Nil
  show ?case by (simp add: empty_db_def)
next
  case (snoc w ws)
  have "List.map_filter (row_of_write pg) (ws @ [w]) =
      List.map_filter (row_of_write pg) ws @ (case row_of_write pg w of None \<Rightarrow> [] | Some r \<Rightarrow> [r])"
    by (simp add: List.map_filter_def split: option.splits)
  then show ?case
    by (simp add: write_all_snoc snoc.IH store_row_def split: option.splits)
qed

lemma mset_map_filter:
  "mset ws = mset ws' \<Longrightarrow> mset (List.map_filter f ws) = mset (List.map_filter f ws')"
  by (simp add: List.map_filter_def)

lemma write_all_holds_latest:
  "current.holds_latest (db_current (write_all pg ws empty_db)) (db_events (write_all pg ws empty_db))"
  using current.upserts_hold_latest [OF current.holds_latest_Nil [of "[]"], of "List.map_filter (row_of_write pg) ws"]
  by (simp add: write_all_rows)

lemma wf_dict_upserts: "wf_dict t \<Longrightarrow> wf_dict (foldl (\<lambda>t r. upsert_row r t) t rs)"
  by (induction rs arbitrary: t) auto

lemma upserts_keyed:
  "\<forall>kr\<in>set t. fst kr = pr_tag_id (snd kr) \<Longrightarrow>
    \<forall>kr\<in>set (foldl (\<lambda>t r. upsert_row r t) t rs). fst kr = pr_tag_id (snd kr)"
proof (induction rs arbitrary: t)
  case (Cons r rs)
  have "set (dict_set (pr_tag_id r) r t) \<subseteq> insert (pr_tag_id r, r) (set t)"
    by (induction t) auto
  then have "\<forall>kr\<in>set (upsert_row r t). fst kr = pr_tag_id (snd kr)"
    using Cons.prems by (fastforce simp: upsert_row_def split: option.splits if_splits)
  then show ?case by (simp add: Cons.IH)
qed simp

text \<open>The table that upserts of rows, one after another, leave.\<close>

lemma rebuilt_iff_latest:
  "dict_get (foldl (\<lambda>t r. upsert_row r t) [] rs) tag = Some r \<longleftrightarrow>
     latest_in pr_tag_id pr_ts_utc_ms tag r rs"
proof -
  let ?t = "foldl (\<lambda>t r. upsert_row r t) [] rs"
  have inv: "current.holds_latest ?t rs"
    using current.upserts_hold_latest [OF current.holds_latest_Nil [of "[]"], of rs] by simp
  show ?thesis
  proof
    assume "dict_get ?t tag = Some r"
    then show "latest_in pr_tag_id pr_ts_utc_ms tag r rs"
      by (rule current.holds_latest_Some [OF inv])
  next
    assume l: "latest_in pr_tag_id pr_ts_utc_ms tag r rs"
    then have r: "pr_tag_id r = tag" "r \<in> set rs" by (auto dest: latest_in_key)
    then obtain s where s: "dict_get ?t tag = Some s"
      using current.holds_latest_None [OF inv] by fastforce
    with current.holds_latest_Some [OF inv s] l show "dict_get ?t tag = Some r"
      by (simp add: latest_in_unique [of _ _ _ s _ r])
  qed
qed

lemma current_iff_latest:
  "dict_get (db_current (write_all pg ws empty_db)) tag = Some r \<longleftrightarrow>
     latest_in pr_tag_id pr_ts_utc_ms tag r (db_events (write_all pg ws empty_db))"
  by (simp add: write_all_rows rebuilt_iff_latest)

section \<open>Writing\<close>


text \<open>
  C6. Whatever writes were made, with whatever failures among them, the row of a tag in
  \<open>current_positions\<close> is the latest one in \<open>position_events\<close>: no event of the tag has a greater
  timestamp, and the events stored after it are older. A tag has a row exactly when it has an
  event.
\<close>

theorem current_row_is_latest_event:
  "dict_get (db_current (write_all pg ws empty_db)) tag = Some r \<longleftrightarrow>
     latest_in pr_tag_id pr_ts_utc_ms tag r (db_events (write_all pg ws empty_db))"
  by (rule current_iff_latest)

text \<open>
  C11. The order in which messages arrive does not matter for the current positions, as long as
  no two stored events of a tag carry the same timestamp.
\<close>

theorem arrival_order_irrelevant:
  assumes "mset ws = mset ws'"
    and "inj_on (\<lambda>r. (pr_tag_id r, pr_ts_utc_ms r)) (set (db_events (write_all pg ws empty_db)))"
  shows "dict_get (db_current (write_all pg ws empty_db)) tag =
         dict_get (db_current (write_all pg ws' empty_db)) tag"
proof -
  have "mset (List.map_filter (row_of_write pg) ws) = mset (List.map_filter (row_of_write pg) ws')"
    using assms(1) by (rule mset_map_filter)
  from current.order_irrelevant [OF _ this, of "[]" tag] assms(2) show ?thesis
    by (simp add: write_all_rows)
qed

lemma arrival_order_irrelevant_witness:
  "dict_get (db_current (write_all sample_pg
       [(None, sample_envelope), (Some DatabaseError, []), (None, [])] empty_db)) (lit ''T1'') =
   dict_get (db_current (write_all sample_pg
       [(Some DatabaseError, []), (None, []), (None, sample_envelope)] empty_db)) (lit ''T1'')"
proof (rule arrival_order_irrelevant)
  show "inj_on (\<lambda>r. (pr_tag_id r, pr_ts_utc_ms r)) (set (db_events (write_all sample_pg
      [(None, sample_envelope), (Some DatabaseError, []), (None, [])] empty_db)))"
    by (simp add: write_all_rows List.map_filter_def row_of_write_def sample_row row_of_empty)
qed simp

text \<open>
  A message that is delivered again leaves the current positions exactly as they are, but its
  row is stored a second time in the history.
\<close>

theorem redelivery:
  assumes "write_to_db pg None envelope db = (db', Inr ())"
  shows "\<exists>r. row_of_envelope pg envelope = Inr r \<and> db_events db' = db_events db @ [r] \<and>
    write_to_db pg None envelope db' =
      (\<lparr>db_events = db_events db @ [r, r], db_current = db_current db'\<rparr>, Inr ())"
proof (cases "row_of_envelope pg envelope")
  case (Inr r)
  then have "db' = store_row r db"
    using assms by (simp add: write_to_db_def persist_envelope_row)
  with Inr show ?thesis
    by (simp add: write_to_db_def persist_envelope_row store_row_def upsert_row_twice)
qed (use assms in \<open>simp add: write_to_db_def persist_envelope_row\<close>)


lemma redelivery_witness:
  "\<exists>r. row_of_envelope sample_pg sample_envelope = Inr r
     \<and> db_events (fst (write_to_db sample_pg None sample_envelope empty_db)) = [r]"
proof -
  have "write_to_db sample_pg None sample_envelope empty_db =
      (fst (write_to_db sample_pg None sample_envelope empty_db), Inr ())"
    by (simp add: write_to_db_def persist_envelope_row sample_row)
  from redelivery [OF this] show ?thesis
    by (elim exE conjE) (simp add: sample_row empty_db_def)
qed

section \<open>Reading\<close>

definition sample_history :: db where
  "sample_history =
     \<lparr>db_events = [sample_position, sample_position\<lparr>pr_ts_utc_ms := 1700000000001\<rparr>,
        sample_position\<lparr>pr_tag_id := lit ''T2''\<rparr>, sample_position\<lparr>pr_ts_utc_ms := 1700000000002\<rparr>],
      db_current = []\<rparr>"

lemma sort_key_desc: "sorted_wrt (\<lambda>r s. f r \<ge> f s) (sort_key (\<lambda>r. - f r :: int) rs)"
  using sorted_sort_key [of "\<lambda>r. - f r" rs] by (simp add: sorted_map)

lemma mset_select_history:
  assumes "pg_contract pg"
  shows "mset (select_history pg db tag clauses) = mset (filter (where_tag tag clauses) (db_events db))"
  using assms by (simp add: select_history_def pg_contract_def)

lemma pages:
  "concat (map (\<lambda>i. take l (drop (i * l) xs)) [0..<n]) = take (n * l) xs"
proof (induction n)
  case (Suc n)
  have "take (Suc n * l) xs = take (n * l) xs @ take l (drop (n * l) xs)"
    by (metis add.commute mult_Suc take_add)
  with Suc show ?case by simp
qed simp



lemma snapshot_table:
  assumes "pg_contract pg"
  shows "\<exists>rows. get_all_current_positions pg (write_all pg ws empty_db) = map row_dict rows
     \<and> distinct (map pr_tag_id rows)
     \<and> sorted (map (\<lambda>r. pg_collate pg (pr_tag_id r)) rows)
     \<and> (\<forall>r. r \<in> set rows \<longleftrightarrow>
          latest_in pr_tag_id pr_ts_utc_ms (pr_tag_id r) r (db_events (write_all pg ws empty_db)))"
proof (intro exI conjI allI)
  let ?db = "write_all pg ws empty_db"
  let ?t = "map snd (db_current ?db)"
  let ?rows = "sort_key (\<lambda>r. pg_collate pg (pr_tag_id r)) (pg_scan pg ?t)"
  have scan: "mset (pg_scan pg ?t) = mset ?t" using assms by (simp add: pg_contract_def)
  have keyed: "\<forall>kr\<in>set (db_current ?db). fst kr = pr_tag_id (snd kr)"
    using upserts_keyed [of "[]"] by (simp add: write_all_rows)
  have wf: "wf_dict (db_current ?db)" by (simp add: write_all_rows wf_dict_upserts)
  show "get_all_current_positions pg ?db = map row_dict ?rows"
    by (simp add: get_all_current_positions_def)
  show "sorted (map (\<lambda>r. pg_collate pg (pr_tag_id r)) ?rows)" by (rule sorted_sort_key)
  have "mset (map pr_tag_id ?rows) = mset (map fst (db_current ?db))"
    using scan keyed by (simp add: image_mset.compositionality comp_def) (rule image_mset_cong, simp)
  then show "distinct (map pr_tag_id ?rows)"
    using wf by (metis mset_eq_imp_distinct_iff wf_dict_def)
  fix r
  have "r \<in> set ?rows \<longleftrightarrow> (pr_tag_id r, r) \<in> set (db_current ?db)"
    using keyed mset_eq_setD [OF scan] by (force simp: image_iff)
  also have "\<dots> \<longleftrightarrow> dict_get (db_current ?db) (pr_tag_id r) = Some r"
    using wf by (simp add: wf_dict_def map_of_eq_Some_iff)
  finally show "r \<in> set ?rows \<longleftrightarrow>
      latest_in pr_tag_id pr_ts_utc_ms (pr_tag_id r) r (db_events ?db)"
    by (simp add: current_iff_latest)
qed

text \<open>
  C38. The snapshot of the current positions after any sequence of writes has exactly one row per
  tag, in the order of the tags, and each is the row of the latest event of its tag.
\<close>

theorem snapshot_rows:
  assumes "pg_contract pg"
  shows "\<exists>rows. get_all_current_positions pg (write_all pg ws empty_db) = map row_dict rows
     \<and> distinct (map pr_tag_id rows)
     \<and> sorted (map (\<lambda>r. pg_collate pg (pr_tag_id r)) rows)
     \<and> (\<forall>r. r \<in> set rows \<longleftrightarrow>
          latest_in pr_tag_id pr_ts_utc_ms (pr_tag_id r) r (db_events (write_all pg ws empty_db)))"
  using assms by (rule snapshot_table)

lemma snapshot_rows_witness:
  "\<exists>rows. get_all_current_positions sample_pg (write_all sample_pg [(None, sample_envelope)] empty_db)
     = map row_dict rows \<and> distinct (map pr_tag_id rows)"
  using snapshot_rows [OF sample_pg_contract, of "[(None, sample_envelope)]"] by blast

end
