(* ===== verification/Broadcast.thy ===== *)
theory Broadcast
  imports Prelude "HOL-Library.Sublist" "HOL-Library.Multiset"
begin

text \<open>
  \<open>backend/broadcast.py\<close>: the in-process fan-out of updates to WebSocket clients. Every subscriber
  owns a bounded \<open>asyncio.Queue\<close>; publishing never waits, and a full queue loses the message. Queues
  are objects with an identity that the subscriber keeps after it left, so they live in a store
  indexed by that identity, and the subscriber set holds identities. The contract of a bounded
  FIFO queue is a locale, interpreted on \<open>asyncio.Queue\<close>.
\<close>

section \<open>Queues\<close>

record 'a aqueue =
  aq_maxsize :: int
  aq_items :: "'a list"

text \<open>\<open>put_nowait\<close> (\<open>None\<close> stands for \<open>QueueFull\<close>) and \<open>get\<close> (\<open>None\<close>: the caller waits).\<close>

definition queue_full :: "'a aqueue \<Rightarrow> bool" where
  "queue_full q \<longleftrightarrow> 0 < aq_maxsize q \<and> aq_maxsize q \<le> int (length (aq_items q))"

definition put_nowait :: "'a \<Rightarrow> 'a aqueue \<Rightarrow> 'a aqueue option" where
  "put_nowait a q = (if queue_full q then None else Some (q\<lparr>aq_items := aq_items q @ [a]\<rparr>))"

definition queue_get :: "'a aqueue \<Rightarrow> ('a \<times> 'a aqueue) option" where
  "queue_get q = (case aq_items q of [] \<Rightarrow> None | a # as \<Rightarrow> Some (a, q\<lparr>aq_items := as\<rparr>))"

section \<open>The broadcast\<close>

record 'a broadcast =
  bc_maxsize :: int
  bc_subscribers :: "nat list"
  bc_queues :: "'a aqueue list"

definition new_broadcast :: "int \<Rightarrow> 'a broadcast" where
  "new_broadcast maxsize = \<lparr>bc_maxsize = maxsize, bc_subscribers = [], bc_queues = []\<rparr>"

definition default_maxsize :: int where
  "default_maxsize = 256"

definition subscribe :: "'a broadcast \<Rightarrow> nat \<times> 'a broadcast" where
  "subscribe bc =
     (let q = length (bc_queues bc)
      in (q, bc\<lparr>bc_queues := bc_queues bc @ [\<lparr>aq_maxsize = bc_maxsize bc, aq_items = []\<rparr>],
               bc_subscribers := bc_subscribers bc @ [q]\<rparr>))"

definition unsubscribe :: "nat \<Rightarrow> 'a broadcast \<Rightarrow> 'a broadcast" where
  "unsubscribe q bc = bc\<lparr>bc_subscribers := filter (\<lambda>s. s \<noteq> q) (bc_subscribers bc)\<rparr>"

definition offer :: "'a \<Rightarrow> 'a aqueue list \<Rightarrow> nat \<Rightarrow> 'a aqueue list" where
  "offer a qs q = (case put_nowait a (qs ! q) of None \<Rightarrow> qs | Some q' \<Rightarrow> qs[q := q'])"

definition broadcast_publish :: "'a \<Rightarrow> 'a broadcast \<Rightarrow> 'a broadcast" where
  "broadcast_publish a bc = bc\<lparr>bc_queues := foldl (offer a) (bc_queues bc) (bc_subscribers bc)\<rparr>"

definition subscriber_count :: "'a broadcast \<Rightarrow> nat" where
  "subscriber_count bc = length (bc_subscribers bc)"

text \<open>The reader's side: \<open>get\<close> on the queue of a subscriber.\<close>

definition broadcast_get :: "nat \<Rightarrow> 'a broadcast \<Rightarrow> ('a \<times> 'a broadcast) option" where
  "broadcast_get q bc =
     (case queue_get (bc_queues bc ! q) of
        None \<Rightarrow> None
      | Some (a, q') \<Rightarrow> Some (a, bc\<lparr>bc_queues := (bc_queues bc)[q := q']\<rparr>))"

section \<open>Bounded FIFO queues\<close>

datatype 'a queue_op = Put 'a | Get

locale bounded_fifo =
  fixes put :: "'a \<Rightarrow> 'q \<Rightarrow> 'q option"
    and get :: "'q \<Rightarrow> ('a \<times> 'q) option"
    and content :: "'q \<Rightarrow> 'a list"
    and bound :: "'q \<Rightarrow> nat option"
  assumes put_None: "put a q = None \<longleftrightarrow> (\<exists>n. bound q = Some n \<and> n \<le> length (content q))"
    and put_Some: "put a q = Some q' \<Longrightarrow> content q' = content q @ [a] \<and> bound q' = bound q"
    and get_None: "get q = None \<longleftrightarrow> content q = []"
    and get_Some: "get q = Some (a, q') \<Longrightarrow> content q = a # content q' \<and> bound q' = bound q"
begin

text \<open>A run of operations: what the reader got, and the queue. A full queue drops the element.\<close>

fun queue_run :: "'a queue_op list \<Rightarrow> 'q \<Rightarrow> 'a list \<times> 'q" where
  "queue_run [] q = ([], q)"
| "queue_run (Put a # ops) q = queue_run ops (case put a q of None \<Rightarrow> q | Some q' \<Rightarrow> q')"
| "queue_run (Get # ops) q =
     (case get q of
        None \<Rightarrow> queue_run ops q
      | Some (a, q') \<Rightarrow> (let (out, q'') = queue_run ops q' in (a # out, q'')))"

definition offered :: "'a queue_op list \<Rightarrow> 'a list" where
  "offered ops = List.map_filter (\<lambda>op. case op of Put a \<Rightarrow> Some a | Get \<Rightarrow> None) ops"

lemma offered_simps [simp]:
  "offered [] = []" "offered (Put a # ops) = a # offered ops" "offered (Get # ops) = offered ops"
  by (simp_all add: offered_def List.map_filter_simps)

text \<open>First in, first out: nothing is reordered, repeated or made up.\<close>

lemma queue_run_fifo:
  "queue_run ops q = (out, q') \<Longrightarrow>
    \<exists>acc. out @ content q' = content q @ acc \<and> subseq acc (offered ops) \<and> bound q' = bound q"
proof (induction ops q arbitrary: out q' rule: queue_run.induct)
  case (2 a ops q)
  then show ?case
  proof (cases "put a q")
    case None
    with 2 show ?thesis by fastforce
  next
    case (Some r)
    with 2 obtain acc where "out @ content q' = content r @ acc" "subseq acc (offered ops)"
      "bound q' = bound r" by fastforce
    with put_Some [OF Some] show ?thesis by (intro exI [of _ "a # acc"]) simp
  qed
next
  case (3 ops q)
  show ?case
  proof (cases "get q")
    case None
    with 3 show ?thesis by simp
  next
    case (Some aq)
    then obtain a r where aq: "get q = Some (a, r)" by (cases aq) simp
    with 3(3) obtain rest where "queue_run ops r = (rest, q')" "out = a # rest"
      by (auto split: prod.splits)
    with 3(2) [OF aq refl] get_Some [OF aq] show ?thesis by fastforce
  qed
qed simp

text \<open>Nothing is lost as long as everything offered fits.\<close>

lemma queue_run_lossless:
  assumes "queue_run ops q = (out, q')"
    and "\<forall>n. bound q = Some n \<longrightarrow> length (content q) + length (offered ops) \<le> n"
  shows "out @ content q' = content q @ offered ops"
  using assms
proof (induction ops q arbitrary: out q' rule: queue_run.induct)
  case (2 a ops q)
  then have "put a q \<noteq> None" by (auto simp: put_None)
  then obtain r where r: "put a q = Some r" by auto
  with 2 put_Some [OF r] show ?case by simp
next
  case (3 ops q)
  show ?case
  proof (cases "get q")
    case None
    with 3 show ?thesis by simp
  next
    case (Some aq)
    then obtain a r where aq: "get q = Some (a, r)" by (cases aq) simp
    with 3(3) obtain rest where rest: "queue_run ops r = (rest, q')" "out = a # rest"
      by (auto split: prod.splits)
    have "\<forall>n. bound r = Some n \<longrightarrow> length (content r) + length (offered ops) \<le> n"
      using 3(4) get_Some [OF aq] by auto
    from 3(2) [OF aq refl rest(1) this] get_Some [OF aq] rest(2) show ?thesis by simp
  qed
qed simp

text \<open>The queue never holds more than its bound.\<close>

lemma queue_run_bounded:
  assumes "queue_run ops q = (out, q')" and "bound q = Some n" and "length (content q) \<le> n"
  shows "length (content q') \<le> n"
  using assms
proof (induction ops q arbitrary: out q' rule: queue_run.induct)
  case (2 a ops q)
  show ?case
  proof (cases "put a q")
    case None
    with 2 show ?thesis by simp
  next
    case (Some r)
    with put_None [of a q] 2(3) have "length (content q) < n" by auto
    with 2 Some put_Some [OF Some] show ?thesis by simp
  qed
next
  case (3 ops q)
  show ?case
  proof (cases "get q")
    case None
    with 3 show ?thesis by simp
  next
    case (Some aq)
    then obtain a r where aq: "get q = Some (a, r)" by (cases aq) simp
    with 3(3) obtain rest where rest: "queue_run ops r = (rest, q')" by (auto split: prod.splits)
    from 3(2) [OF aq refl rest] get_Some [OF aq] 3(4-5) show ?thesis by simp
  qed
qed simp

end

definition queue_bound :: "'a aqueue \<Rightarrow> nat option" where
  "queue_bound q = (if 0 < aq_maxsize q then Some (nat (aq_maxsize q)) else None)"

interpretation aq: bounded_fifo put_nowait queue_get aq_items queue_bound
  by unfold_locales
    (auto simp: put_nowait_def queue_full_def queue_get_def queue_bound_def split: list.splits if_splits)

end
