(* ===== verification/Broadcast_Properties.thy ===== *)
theory Broadcast_Properties
  imports Broadcast
begin

text \<open>
  Facts on the broadcast and its properties: publishing acts on every subscribed queue by itself,
  and what a subscriber reads is what was published since it subscribed, in order, less what a
  full queue refused.
\<close>

section \<open>Invariant\<close>

definition bc_ok :: "'a broadcast \<Rightarrow> bool" where
  "bc_ok bc \<longleftrightarrow> distinct (bc_subscribers bc)
     \<and> (\<forall>s\<in>set (bc_subscribers bc). s < length (bc_queues bc))
     \<and> (\<forall>q\<in>set (bc_queues bc). aq_maxsize q = bc_maxsize bc)"

lemma bc_ok_new [simp]: "bc_ok (new_broadcast m)"
  by (simp add: bc_ok_def new_broadcast_def)

lemma bc_ok_subscribe: "bc_ok bc \<Longrightarrow> subscribe bc = (q, bc') \<Longrightarrow> bc_ok bc'"
  by (auto simp: bc_ok_def subscribe_def Let_def less_Suc_eq)

lemma bc_ok_unsubscribe: "bc_ok bc \<Longrightarrow> bc_ok (unsubscribe q bc)"
  by (auto simp: bc_ok_def unsubscribe_def)

lemma length_offers [simp]: "length (foldl (offer a) qs ss) = length qs"
proof (induction ss arbitrary: qs)
  case (Cons s ss)
  have "length (offer a qs s) = length qs" by (simp add: offer_def split: option.splits)
  with Cons show ?case by simp
qed simp

lemma nth_offer:
  "s < length qs \<Longrightarrow> offer a qs s ! q =
     (if q = s then (case put_nowait a (qs ! q) of None \<Rightarrow> qs ! q | Some q' \<Rightarrow> q') else qs ! q)"
  by (auto simp: offer_def nth_list_update split: option.splits)

lemma nth_offers:
  "distinct ss \<Longrightarrow> \<forall>s\<in>set ss. s < length qs \<Longrightarrow> foldl (offer a) qs ss ! q =
     (if q \<in> set ss then (case put_nowait a (qs ! q) of None \<Rightarrow> qs ! q | Some q' \<Rightarrow> q') else qs ! q)"
proof (induction ss arbitrary: qs)
  case (Cons s ss)
  have "length (offer a qs s) = length qs" by (simp add: offer_def split: option.splits)
  with Cons show ?case by (auto simp: nth_offer split: option.splits)
qed simp

lemma put_nowait_maxsize: "put_nowait a q = Some q' \<Longrightarrow> aq_maxsize q' = aq_maxsize q"
  by (auto simp: put_nowait_def split: if_splits)

lemma queue_get_maxsize: "queue_get q = Some (a, q') \<Longrightarrow> aq_maxsize q' = aq_maxsize q"
  by (auto simp: queue_get_def split: list.splits)

lemma publish_frame [simp]:
  "bc_subscribers (broadcast_publish a bc) = bc_subscribers bc"
  "length (bc_queues (broadcast_publish a bc)) = length (bc_queues bc)"
  "bc_maxsize (broadcast_publish a bc) = bc_maxsize bc"
  by (simp_all add: broadcast_publish_def)

lemma publish_nth:
  "bc_ok bc \<Longrightarrow> bc_queues (broadcast_publish a bc) ! q =
     (if q \<in> set (bc_subscribers bc)
      then (case put_nowait a (bc_queues bc ! q) of None \<Rightarrow> bc_queues bc ! q | Some q' \<Rightarrow> q')
      else bc_queues bc ! q)"
  by (simp add: broadcast_publish_def bc_ok_def nth_offers)

lemma bc_ok_publish: "bc_ok bc \<Longrightarrow> bc_ok (broadcast_publish a bc)"
proof -
  assume ok: "bc_ok bc"
  have "aq_maxsize (bc_queues (broadcast_publish a bc) ! q) = bc_maxsize bc"
    if "q < length (bc_queues bc)" for q
  proof -
    have "aq_maxsize (bc_queues bc ! q) = bc_maxsize bc" using ok that by (simp add: bc_ok_def)
    then show ?thesis
      by (auto simp: publish_nth [OF ok] split: option.split dest: put_nowait_maxsize)
  qed
  then have "\<forall>q\<in>set (bc_queues (broadcast_publish a bc)). aq_maxsize q = bc_maxsize bc"
    by (metis in_set_conv_nth publish_frame(2))
  then show ?thesis using ok by (simp add: bc_ok_def)
qed

lemma bc_ok_get:
  assumes "bc_ok bc" "broadcast_get q bc = Some (a, bc')" "q < length (bc_queues bc)"
  shows "bc_ok bc'"
proof -
  obtain q' where q': "queue_get (bc_queues bc ! q) = Some (a, q')"
    "bc' = bc\<lparr>bc_queues := (bc_queues bc)[q := q']\<rparr>"
    using assms(2) by (auto simp: broadcast_get_def split: option.splits)
  have "aq_maxsize q' = bc_maxsize bc"
    using assms(1,3) queue_get_maxsize [OF q'(1)] by (simp add: bc_ok_def)
  moreover have "set (bc_queues bc') \<subseteq> insert q' (set (bc_queues bc))"
    using q'(2) set_update_subset_insert [of "bc_queues bc" q q'] by simp
  ultimately show ?thesis
    using assms(1) q'(2) unfolding bc_ok_def by fastforce
qed

section \<open>Runs\<close>

datatype 'a bc_op = Subscribe | Unsubscribe nat | Publish 'a | Receive nat

text \<open>A reader only asks a queue that exists.\<close>

fun bc_step :: "'a bc_op \<Rightarrow> 'a broadcast \<Rightarrow> (nat \<times> 'a) list \<times> 'a broadcast" where
  "bc_step Subscribe bc = ([], snd (subscribe bc))"
| "bc_step (Unsubscribe q) bc = ([], unsubscribe q bc)"
| "bc_step (Publish a) bc = ([], broadcast_publish a bc)"
| "bc_step (Receive q) bc =
     (if q < length (bc_queues bc)
      then (case broadcast_get q bc of None \<Rightarrow> ([], bc) | Some (a, bc') \<Rightarrow> ([(q, a)], bc'))
      else ([], bc))"

fun bc_run :: "'a bc_op list \<Rightarrow> 'a broadcast \<Rightarrow> (nat \<times> 'a) list \<times> 'a broadcast" where
  "bc_run [] bc = ([], bc)"
| "bc_run (op # ops) bc =
     (let (out, bc1) = bc_step op bc; (out', bc2) = bc_run ops bc1 in (out @ out', bc2))"

definition received :: "nat \<Rightarrow> (nat \<times> 'a) list \<Rightarrow> 'a list" where
  "received q out = map snd (filter (\<lambda>(q', _). q' = q) out)"

definition published :: "'a bc_op list \<Rightarrow> 'a list" where
  "published ops = List.map_filter (\<lambda>op. case op of Publish a \<Rightarrow> Some a | _ \<Rightarrow> None) ops"

definition queue_view :: "nat \<Rightarrow> 'a bc_op \<Rightarrow> 'a queue_op option" where
  "queue_view q op =
     (case op of Publish a \<Rightarrow> Some (Put a) | Receive q' \<Rightarrow> if q' = q then Some Get else None | _ \<Rightarrow> None)"

lemma bc_ok_step: "bc_ok bc \<Longrightarrow> bc_step op bc = (out, bc') \<Longrightarrow> bc_ok bc'"
  by (cases op; cases "subscribe bc")
    (auto simp: bc_ok_unsubscribe bc_ok_publish split: if_splits option.splits
      dest: bc_ok_subscribe bc_ok_get)

lemma offered_view: "aq.offered (List.map_filter (queue_view q) ops) = published ops"
  by (induction ops)
    (auto simp: published_def queue_view_def List.map_filter_simps split: bc_op.splits)

lemma length_bc_step: "bc_step op bc = (out, bc') \<Longrightarrow> length (bc_queues bc) \<le> length (bc_queues bc')"
  by (cases op)
    (auto simp: subscribe_def Let_def unsubscribe_def broadcast_publish_def broadcast_get_def
      split: if_splits option.splits)

text \<open>The queue of a subscriber sees its own operations only, in their order.\<close>

lemma bc_step_view:
  assumes ok: "bc_ok bc" and q: "q \<in> set (bc_subscribers bc)" and op: "op \<noteq> Unsubscribe q"
    and step: "bc_step op bc = (out, bc')"
  shows "q \<in> set (bc_subscribers bc') \<and>
    aq.queue_run (case queue_view q op of None \<Rightarrow> [] | Some v \<Rightarrow> [v]) (bc_queues bc ! q) =
      (received q out, bc_queues bc' ! q)"
proof (cases op)
  case Subscribe
  then show ?thesis
    using step q ok by (auto simp: subscribe_def Let_def queue_view_def received_def bc_ok_def nth_append)
next
  case (Unsubscribe s)
  then show ?thesis
    using step q op by (auto simp: unsubscribe_def queue_view_def received_def)
next
  case (Publish a)
  then have "out = []" "bc' = broadcast_publish a bc" using step by auto
  with Publish show ?thesis
    using q ok by (simp add: queue_view_def received_def publish_nth)
next
  case (Receive s)
  then show ?thesis
    using step q ok
    by (auto simp: broadcast_get_def queue_view_def received_def bc_ok_def nth_list_update
        split: if_splits option.splits)
qed

lemma queue_run_append:
  "aq.queue_run (ops @ ops') q =
     (let (out, q1) = aq.queue_run ops q; (out', q2) = aq.queue_run ops' q1 in (out @ out', q2))"
  by (induction ops q rule: aq.queue_run.induct) (auto split: option.splits prod.splits)

lemma received_append [simp]: "received q (a @ b) = received q a @ received q b"
  by (simp add: received_def)

lemma bc_run_view:
  "bc_ok bc \<Longrightarrow> q \<in> set (bc_subscribers bc) \<Longrightarrow> Unsubscribe q \<notin> set ops \<Longrightarrow>
    bc_run ops bc = (out, bc') \<Longrightarrow>
    aq.queue_run (List.map_filter (queue_view q) ops) (bc_queues bc ! q) =
      (received q out, bc_queues bc' ! q)"
proof (induction ops arbitrary: bc out)
  case Nil
  then show ?case by (simp add: received_def List.map_filter_simps)
next
  case (Cons op ops)
  obtain out1 bc1 where step: "bc_step op bc = (out1, bc1)" by (cases "bc_step op bc") auto
  with Cons.prems(4) obtain out2 where run: "bc_run ops bc1 = (out2, bc')" "out = out1 @ out2"
    by (auto split: prod.splits)
  from Cons.prems have "op \<noteq> Unsubscribe q" by auto
  note view = bc_step_view [OF Cons.prems(1,2) this step]
  have "aq.queue_run (List.map_filter (queue_view q) ops) (bc_queues bc1 ! q) =
      (received q out2, bc_queues bc' ! q)"
    using Cons.IH [OF bc_ok_step [OF Cons.prems(1) step]] view run(1) Cons.prems(3) by simp
  moreover have "List.map_filter (queue_view q) (op # ops) =
      (case queue_view q op of None \<Rightarrow> [] | Some v \<Rightarrow> [v]) @ List.map_filter (queue_view q) ops"
    by (simp add: List.map_filter_simps split: option.splits)
  ultimately show ?case using view run(2) by (simp add: queue_run_append)
qed

section \<open>Properties\<close>

text \<open>
  C17. Publishing treats every subscriber by itself: the queue of a subscriber gets the message at
  its end unless it is full, whatever the others are, a queue that is not subscribed is not
  touched, and neither the set of subscribers nor the order in which it is visited matters.
\<close>

theorem publish_per_subscriber:
  assumes "bc_ok bc" and "mset ss = mset (bc_subscribers bc)"
  shows "bc_subscribers (broadcast_publish a bc) = bc_subscribers bc
     \<and> length (bc_queues (broadcast_publish a bc)) = length (bc_queues bc)
     \<and> (\<forall>q. aq_items (bc_queues (broadcast_publish a bc) ! q) =
           (if q \<in> set (bc_subscribers bc) \<and> \<not> queue_full (bc_queues bc ! q)
            then aq_items (bc_queues bc ! q) @ [a] else aq_items (bc_queues bc ! q)))
     \<and> broadcast_publish a (bc\<lparr>bc_subscribers := ss\<rparr>) = (broadcast_publish a bc)\<lparr>bc_subscribers := ss\<rparr>"
proof (intro conjI allI)
  show "bc_subscribers (broadcast_publish a bc) = bc_subscribers bc"
    and len: "length (bc_queues (broadcast_publish a bc)) = length (bc_queues bc)"
    by simp_all
  show "aq_items (bc_queues (broadcast_publish a bc) ! q) =
      (if q \<in> set (bc_subscribers bc) \<and> \<not> queue_full (bc_queues bc ! q)
       then aq_items (bc_queues bc ! q) @ [a] else aq_items (bc_queues bc ! q))" for q
    using assms(1) by (auto simp: publish_nth put_nowait_def)
  have ok: "bc_ok (bc\<lparr>bc_subscribers := ss\<rparr>)"
    using assms mset_eq_setD [OF assms(2)] mset_eq_imp_distinct_iff [OF assms(2)]
    by (simp add: bc_ok_def)
  have "bc_queues (broadcast_publish a (bc\<lparr>bc_subscribers := ss\<rparr>)) = bc_queues (broadcast_publish a bc)"
    using mset_eq_setD [OF assms(2)]
    by (intro nth_equalityI) (simp_all add: publish_nth [OF ok] publish_nth [OF assms(1)] cong: option.case_cong)
  then show "broadcast_publish a (bc\<lparr>bc_subscribers := ss\<rparr>) = (broadcast_publish a bc)\<lparr>bc_subscribers := ss\<rparr>"
    by (simp add: broadcast_publish_def)
qed

text \<open>
  C20. What a subscriber reads from its queue, followed by what still waits there, is a subsequence
  of the messages published since it subscribed, in their order, whatever other clients do. No
  more than \<open>maxsize\<close> messages wait, and when no more than that were published none is lost.
\<close>

theorem subscriber_stream:
  assumes "bc_ok bc" and "subscribe bc = (q, bc1)" and "Unsubscribe q \<notin> set ops"
    and "bc_run ops bc1 = (out, bc2)"
  shows "subseq (received q out @ aq_items (bc_queues bc2 ! q)) (published ops)
     \<and> (0 < bc_maxsize bc \<longrightarrow> int (length (aq_items (bc_queues bc2 ! q))) \<le> bc_maxsize bc)
     \<and> (bc_maxsize bc \<le> 0 \<or> int (length (published ops)) \<le> bc_maxsize bc \<longrightarrow>
          received q out @ aq_items (bc_queues bc2 ! q) = published ops)"
proof -
  have q: "q \<in> set (bc_subscribers bc1)" "bc_queues bc1 ! q = \<lparr>aq_maxsize = bc_maxsize bc, aq_items = []\<rparr>"
    using assms(2) by (auto simp: subscribe_def Let_def)
  note run = bc_run_view [OF bc_ok_subscribe [OF assms(1,2)] q(1) assms(3,4)]
  have "subseq (received q out @ aq_items (bc_queues bc2 ! q)) (published ops)"
    using aq.queue_run_fifo [OF run] by (auto simp: q(2) offered_view)
  moreover have "int (length (aq_items (bc_queues bc2 ! q))) \<le> bc_maxsize bc" if "0 < bc_maxsize bc"
    using aq.queue_run_bounded [OF run, of "nat (bc_maxsize bc)"] that
    by (simp add: q(2) queue_bound_def)
  moreover have "received q out @ aq_items (bc_queues bc2 ! q) = published ops"
    if "bc_maxsize bc \<le> 0 \<or> int (length (published ops)) \<le> bc_maxsize bc"
    using aq.queue_run_lossless [OF run] that
    by (cases "0 < bc_maxsize bc") (auto simp: q(2) queue_bound_def offered_view)
  ultimately show ?thesis by blast
qed

text \<open>Two subscribers with room for two messages, the second one too slow for three.\<close>

lemma subscriber_stream_witness:
  "subseq [7, 8] [7, 8, 9::int] \<and> bc_run [Publish 7, Receive 0, Publish 8, Publish 9]
        (snd (subscribe (snd (subscribe (new_broadcast 2))))) =
      ([(0, 7)], \<lparr>bc_maxsize = 2, bc_subscribers = [0, 1],
        bc_queues = [\<lparr>aq_maxsize = 2, aq_items = [8, 9]\<rparr>, \<lparr>aq_maxsize = 2, aq_items = [7, 8]\<rparr>]\<rparr>)"
    (is "_ \<and> bc_run ?ops (snd (subscribe ?bc)) = ?r")
proof -
  have sub: "subscribe ?bc = (1, snd (subscribe ?bc))" and ok: "bc_ok ?bc"
    by (simp_all add: bc_ok_def subscribe_def new_broadcast_def Let_def)
  have run: "bc_run ?ops (snd (subscribe ?bc)) = ?r"
    by (simp add: subscribe_def new_broadcast_def broadcast_publish_def offer_def put_nowait_def
        queue_full_def broadcast_get_def queue_get_def Let_def)
  have "Unsubscribe 1 \<notin> set ?ops" by simp
  from subscriber_stream [OF ok sub this run] run show ?thesis
    by (simp add: received_def published_def List.map_filter_simps)
qed

lemma publish_per_subscriber_witness:
  "aq_items (bc_queues (broadcast_publish (7::int) (snd (subscribe (new_broadcast 2)))) ! 0) = [7]"
  using publish_per_subscriber [of "snd (subscribe (new_broadcast 2))" "[0]" "7::int"]
  by (simp add: bc_ok_def subscribe_def new_broadcast_def Let_def queue_full_def)

end
