(* ===== verification/Consumer.thy ===== *)
theory Consumer
  imports Repository Broadcast
begin

text \<open>
  The two consumers of the queue: \<open>_on_message\<close> of \<open>backend/app.py\<close>, which stores a message,
  broadcasts it and counts, and \<open>on_message\<close> of \<open>backend/consumer.py\<close>, which only stores it. A
  message is settled by \<open>message.process(requeue=True)\<close>: it is acknowledged when the handler
  returns and goes back to the queue when the handler raises. Third-party parts are arguments: the
  database adapter, the propagator, and the exceptions of the connection pool.
\<close>

section \<open>Messages and state\<close>

record delivery =
  dl_body :: bytes
  dl_headers :: "json dict option"
  dl_pool_error :: "py_exc option"

datatype settlement = Acked | Requeued py_exc

text \<open>\<open>backend/metrics.py\<close>: the counters that the consumer moves, and the number of latency samples.\<close>

record metrics =
  mt_processed :: nat
  mt_failed :: "nat dict"
  mt_db_writes :: nat

record backend =
  be_db :: db
  be_broadcast :: "json dict broadcast"
  be_metrics :: metrics

definition failures :: "metrics \<Rightarrow> string \<Rightarrow> nat" where
  "failures mt reason = (case dict_get (mt_failed mt) (lit reason) of None \<Rightarrow> 0 | Some n \<Rightarrow> n)"

definition count_failed :: "string \<Rightarrow> backend \<Rightarrow> backend" where
  "count_failed reason st =
     st\<lparr>be_metrics := (be_metrics st)\<lparr>mt_failed :=
          dict_set (lit reason) (Suc (failures (be_metrics st) reason)) (mt_failed (be_metrics st))\<rparr>\<rparr>"

definition count_processed :: "backend \<Rightarrow> backend" where
  "count_processed st =
     st\<lparr>be_metrics := (be_metrics st)\<lparr>mt_processed := Suc (mt_processed (be_metrics st))\<rparr>\<rparr>"

definition observe_write :: "backend \<Rightarrow> backend" where
  "observe_write st =
     st\<lparr>be_metrics := (be_metrics st)\<lparr>mt_db_writes := Suc (mt_db_writes (be_metrics st))\<rparr>\<rparr>"

section \<open>The checks before a message is stored\<close>

datatype checked = Malformed | MissingTag | Raised py_exc | Envelope "json dict"

definition check_payload :: "json \<Rightarrow> checked" where
  "check_payload envelope =
     (case envelope of
        JObj d \<Rightarrow>
          (case get_or_null d (lit ''payload'') of
             JObj payload \<Rightarrow> if has_key (lit ''tag_id'') payload then Envelope d else MissingTag
           | _ \<Rightarrow> MissingTag)
      | _ \<Rightarrow> Raised AttributeError)"

definition check_body :: "bytes \<Rightarrow> checked" where
  "check_body body =
     (case json_loads_bytes body of
        Inl e \<Rightarrow> if e = JSONDecodeError \<or> e = UnicodeDecodeError then Malformed else Raised e
      | Inr envelope \<Rightarrow> check_payload envelope)"

definition extract_from_headers ::
  "interp \<Rightarrow> 'ctx otel \<Rightarrow> json dict \<Rightarrow> 'ctx res" where
  "extract_from_headers it ot headers = ot_extract ot (dict_getter it headers)"

section \<open>The consumer inside the API process\<close>

definition store_and_publish :: "pg \<Rightarrow> py_exc option \<Rightarrow> json dict \<Rightarrow> backend \<Rightarrow> settlement \<times> backend" where
  "store_and_publish pg fault envelope st =
     (let (db, result) = write_to_db pg fault envelope (be_db st)
      in (case result of
            Inl e \<Rightarrow> (Requeued e, count_failed ''db_error'' (st\<lparr>be_db := db\<rparr>))
          | Inr _ \<Rightarrow>
              let st = observe_write (st\<lparr>be_db := db\<rparr>);
                  st = st\<lparr>be_broadcast := broadcast_publish envelope (be_broadcast st)\<rparr>
              in (Acked, count_processed st)))"

definition app_on_message ::
  "pg \<Rightarrow> interp \<Rightarrow> 'ctx otel \<Rightarrow> delivery \<Rightarrow> backend \<Rightarrow> settlement \<times> backend" where
  "app_on_message pg it ot dl st =
     (case check_body (dl_body dl) of
        Malformed \<Rightarrow> (Acked, count_failed ''malformed_json'' st)
      | MissingTag \<Rightarrow> (Acked, count_failed ''missing_tag_id'' st)
      | Raised e \<Rightarrow> (Requeued e, st)
      | Envelope envelope \<Rightarrow>
          (case extract_from_headers it ot (case dl_headers dl of None \<Rightarrow> [] | Some h \<Rightarrow> h) of
             Inl e \<Rightarrow> (Requeued e, st)
           | Inr _ \<Rightarrow> store_and_publish pg (dl_pool_error dl) envelope st))"

section \<open>The stand-alone consumer\<close>

definition on_message :: "pg \<Rightarrow> delivery \<Rightarrow> db \<Rightarrow> settlement \<times> db" where
  "on_message pg dl db =
     (case check_body (dl_body dl) of
        Malformed \<Rightarrow> (Acked, db)
      | MissingTag \<Rightarrow> (Acked, db)
      | Raised e \<Rightarrow> (Requeued e, db)
      | Envelope envelope \<Rightarrow>
          (let (db, result) = write_to_db pg (dl_pool_error dl) envelope db
           in (case result of Inl e \<Rightarrow> (Requeued e, db) | Inr _ \<Rightarrow> (Acked, db))))"

end
