(* ===== verification/Consumer_Properties.thy ===== *)
theory Consumer_Properties
  imports Consumer Repository_Properties Broadcast_Properties Udp_Server_Properties
begin

text \<open>
  Properties of the consumers: how every message is settled and counted, the agreement of the two
  consumers, the messages that no delivery can settle, and the way of a position from a datagram
  to its row.
\<close>

section \<open>What a consumer does with a message\<close>

lemma write_to_db_cases:
  obtains (stored) r where "fault = None" "row_of_envelope pg envelope = Inr r"
    "write_to_db pg fault envelope db = (store_row r db, Inr ())"
  | (refused) e where "write_to_db pg fault envelope db = (db, Inl e)"
  by (cases fault; cases "row_of_envelope pg envelope")
    (auto simp: write_to_db_def persist_envelope_row)

lemma count_failed_simps [simp]:
  "be_db (count_failed r st) = be_db st"
  "be_broadcast (count_failed r st) = be_broadcast st"
  "mt_processed (be_metrics (count_failed r st)) = mt_processed (be_metrics st)"
  "mt_db_writes (be_metrics (count_failed r st)) = mt_db_writes (be_metrics st)"
  "failures (be_metrics (count_failed r st)) r' =
     (if r' = r then Suc (failures (be_metrics st) r) else failures (be_metrics st) r')"
  by (auto simp: count_failed_def failures_def)

lemma count_processed_simps [simp]:
  "be_db (count_processed st) = be_db st"
  "be_broadcast (count_processed st) = be_broadcast st"
  "mt_processed (be_metrics (count_processed st)) = Suc (mt_processed (be_metrics st))"
  "mt_db_writes (be_metrics (count_processed st)) = mt_db_writes (be_metrics st)"
  "failures (be_metrics (count_processed st)) r = failures (be_metrics st) r"
  by (auto simp: count_processed_def failures_def)

lemma observe_write_simps [simp]:
  "be_db (observe_write st) = be_db st"
  "be_broadcast (observe_write st) = be_broadcast st"
  "mt_processed (be_metrics (observe_write st)) = mt_processed (be_metrics st)"
  "mt_db_writes (be_metrics (observe_write st)) = Suc (mt_db_writes (be_metrics st))"
  "failures (be_metrics (observe_write st)) r = failures (be_metrics st) r"
  by (auto simp: observe_write_def failures_def)

text \<open>The five ways a delivery can go.\<close>

inductive settles :: "pg \<Rightarrow> delivery \<Rightarrow> backend \<Rightarrow> settlement \<Rightarrow> backend \<Rightarrow> bool"
  for pg dl st where
  malformed: "check_body (dl_body dl) = Malformed \<Longrightarrow>
    settles pg dl st Acked (count_failed ''malformed_json'' st)"
| missing: "check_body (dl_body dl) = MissingTag \<Longrightarrow>
    settles pg dl st Acked (count_failed ''missing_tag_id'' st)"
| raised: "settles pg dl st (Requeued e) st"
| refused: "check_body (dl_body dl) = Envelope envelope \<Longrightarrow>
    settles pg dl st (Requeued e) (count_failed ''db_error'' st)"
| stored: "check_body (dl_body dl) = Envelope envelope \<Longrightarrow>
    row_of_envelope pg envelope = Inr r \<Longrightarrow>
    settles pg dl st Acked
      (count_processed ((observe_write (st\<lparr>be_db := store_row r (be_db st)\<rparr>))
         \<lparr>be_broadcast := broadcast_publish envelope (be_broadcast st)\<rparr>))"

definition sample_backend :: backend where
  "sample_backend =
     \<lparr>be_db = empty_db, be_broadcast = new_broadcast default_maxsize,
      be_metrics = \<lparr>mt_processed = 0, mt_failed = [], mt_db_writes = 0\<rparr>\<rparr>"

lemma app_on_message_settles:
  "app_on_message pg it ot dl st = (s, st') \<Longrightarrow> settles pg dl st s st'"
proof (cases "check_body (dl_body dl)")
  case (Envelope envelope)
  assume run: "app_on_message pg it ot dl st = (s, st')"
  show ?thesis
  proof (cases "extract_from_headers it ot (case dl_headers dl of None \<Rightarrow> [] | Some h \<Rightarrow> h)")
    case (Inl e)
    with run Envelope show ?thesis by (auto simp: app_on_message_def intro: settles.raised)
  next
    case (Inr ctx)
    show ?thesis
    proof (cases rule: write_to_db_cases [of "dl_pool_error dl" pg envelope "be_db st"])
      case (stored r)
      with run Envelope Inr show ?thesis
        using settles.stored [OF Envelope stored(2), of st]
        by (simp add: app_on_message_def store_and_publish_def Let_def observe_write_def)
    next
      case (refused e)
      with run Envelope Inr show ?thesis
        using settles.refused [OF Envelope, of pg st e]
        by (simp add: app_on_message_def store_and_publish_def)
    qed
  qed
qed (auto simp: app_on_message_def intro: settles.intros)

text \<open>
  C4. Every message is settled consistently with what was done for it. A message that goes back to
  the queue has left both tables and all subscribers as they were, and is not counted as processed.
  An acknowledged message moved exactly one counter: it was stored, broadcast and counted as
  processed, or it was dropped, which changes nothing but the counter of its reason.
\<close>

theorem settlement_consistent:
  assumes "app_on_message pg it ot dl st = (s, st')"
  shows "case s of
      Requeued e \<Rightarrow> be_db st' = be_db st \<and> be_broadcast st' = be_broadcast st
        \<and> mt_processed (be_metrics st') = mt_processed (be_metrics st)
    | Acked \<Rightarrow>
        (\<exists>envelope r. check_body (dl_body dl) = Envelope envelope \<and> row_of_envelope pg envelope = Inr r
           \<and> be_db st' = store_row r (be_db st)
           \<and> be_broadcast st' = broadcast_publish envelope (be_broadcast st)
           \<and> mt_processed (be_metrics st') = Suc (mt_processed (be_metrics st))
           \<and> (\<forall>reason. failures (be_metrics st') reason = failures (be_metrics st) reason))
        \<or> be_db st' = be_db st \<and> be_broadcast st' = be_broadcast st
           \<and> mt_processed (be_metrics st') = mt_processed (be_metrics st)
           \<and> (\<exists>reason\<in>{''malformed_json'', ''missing_tag_id''}.
                \<forall>r. failures (be_metrics st') r =
                  failures (be_metrics st) r + (if r = reason then 1 else 0))"
  using app_on_message_settles [OF assms]
proof (cases rule: settles.cases)
  case (stored envelope r)
  have "\<forall>reason. failures (be_metrics st') reason = failures (be_metrics st) reason"
    unfolding stored(2) by (simp add: failures_def observe_write_def count_processed_def)
  then show ?thesis
    unfolding stored(1) settlement.case
    by (intro disjI1 exI [of _ envelope] exI [of _ r])
      (simp add: stored observe_write_def count_processed_def)
qed auto

lemma settlement_consistent_witness:
  "be_db (snd (app_on_message sample_pg ascii_interp sample_otel
      \<lparr>dl_body = lit ''{}'', dl_headers = None, dl_pool_error = None\<rparr> sample_backend)) = empty_db"
proof -
  let ?r = "app_on_message sample_pg ascii_interp sample_otel
      \<lparr>dl_body = lit ''{}'', dl_headers = None, dl_pool_error = None\<rparr> sample_backend"
  have "check_body (lit ''{}'') = MissingTag" by code_simp
  then have "?r = (Acked, count_failed ''missing_tag_id'' sample_backend)"
    and no: "check_body (lit ''{}'') \<noteq> Envelope envelope" for envelope
    by (simp_all add: app_on_message_def)
  from settlement_consistent [OF this(1)] this(1) no show ?thesis
    by (auto simp: sample_backend_def)
qed

text \<open>
  Both consumers settle a message alike and leave the same tables, as long as reading the trace
  headers does not raise; the one inside the API only broadcasts and counts in addition.
\<close>

theorem consumers_agree:
  assumes "extract_from_headers it ot (case dl_headers dl of None \<Rightarrow> [] | Some h \<Rightarrow> h) = Inr ctx"
  shows "on_message pg dl (be_db st) =
    (fst (app_on_message pg it ot dl st), be_db (snd (app_on_message pg it ot dl st)))"
proof (cases "check_body (dl_body dl)")
  case (Envelope envelope)
  show ?thesis
    by (cases rule: write_to_db_cases [of "dl_pool_error dl" pg envelope "be_db st"])
      (simp_all add: on_message_def app_on_message_def store_and_publish_def Envelope assms Let_def)
qed (simp_all add: on_message_def app_on_message_def)

lemma consumers_agree_witness:
  "on_message sample_pg \<lparr>dl_body = lit ''[1]'', dl_headers = None, dl_pool_error = None\<rparr> empty_db =
     (Requeued AttributeError, empty_db)"
proof -
  let ?dl = "\<lparr>dl_body = lit ''[1]'', dl_headers = None, dl_pool_error = None\<rparr>"
  have "extract_from_headers ascii_interp sample_otel (case dl_headers ?dl of None \<Rightarrow> [] | Some h \<Rightarrow> h) = Inr ()"
    by (simp add: extract_from_headers_def sample_otel_def)
  from consumers_agree [OF this, of sample_pg sample_backend]
  have "on_message sample_pg ?dl (be_db sample_backend) =
      (fst (app_on_message sample_pg ascii_interp sample_otel ?dl sample_backend),
       be_db (snd (app_on_message sample_pg ascii_interp sample_otel ?dl sample_backend)))" .
  moreover have "check_body (lit ''[1]'') = Raised AttributeError" by code_simp
  ultimately show ?thesis by (simp add: app_on_message_def sample_backend_def)
qed

section \<open>Messages that no delivery can settle\<close>

definition unsettleable :: "pg \<Rightarrow> bytes \<Rightarrow> bool" where
  "unsettleable pg body =
     (case check_body body of
        Raised e \<Rightarrow> True
      | Envelope envelope \<Rightarrow> (case row_of_envelope pg envelope of Inl e \<Rightarrow> True | Inr r \<Rightarrow> False)
      | _ \<Rightarrow> False)"

lemma unsettleable_requeued:
  assumes "unsettleable pg (dl_body dl)" and "app_on_message pg it ot dl st = (s, st')"
  shows "(\<exists>e. s = Requeued e) \<and> be_db st' = be_db st \<and> be_broadcast st' = be_broadcast st
    \<and> mt_processed (be_metrics st') = mt_processed (be_metrics st)"
  using app_on_message_settles [OF assms(2)] assms(1)
  by (cases rule: settles.cases) (auto simp: unsettleable_def)

lemma non_object_unsettleable:
  "json_loads_bytes body = Inr v \<Longrightarrow> \<not> is_dict v \<Longrightarrow> unsettleable pg body"
  by (cases v) (simp_all add: unsettleable_def check_body_def check_payload_def)

text \<open>
  A message that the checks raise on, or that has no row, is never settled: however often it is
  delivered, each delivery raises and puts it back, both tables, all subscribers and the counter of
  processed messages stay as they are, and it is delivered again. Every JSON body that is not an
  object is such a message.
\<close>

theorem poison_message_circulates:
  assumes "unsettleable pg (dl_body dl) \<or> (\<exists>v. json_loads_bytes (dl_body dl) = Inr v \<and> \<not> is_dict v)"
    and "st' = ((\<lambda>st. snd (app_on_message pg it ot dl st)) ^^ n) st"
  shows "(\<exists>e. fst (app_on_message pg it ot dl st') = Requeued e)
    \<and> be_db st' = be_db st \<and> be_broadcast st' = be_broadcast st
    \<and> mt_processed (be_metrics st') = mt_processed (be_metrics st)"
proof -
  have bad: "unsettleable pg (dl_body dl)" using assms(1) by (auto intro: non_object_unsettleable)
  note step = unsettleable_requeued [OF bad prod.collapse [symmetric], where it = it and ot = ot]
  have "be_db st' = be_db st \<and> be_broadcast st' = be_broadcast st
      \<and> mt_processed (be_metrics st') = mt_processed (be_metrics st)"
    unfolding assms(2) by (induction n) (simp_all add: step)
  then show ?thesis using step [of st'] by blast
qed

text \<open>A timestamp that is \<open>true\<close> passes the parsers, but no database column takes it.\<close>

definition bool_ts_body :: bytes where
  "bool_ts_body = map (\<lambda>c. if c = 96 then 34 else c)
     (lit ''{`schema_version`:`1.0`,`event_type`:`p`,`origin`:`o`,`normalized`:true,`ingested_at_ms`:1,`payload`:{`tag_id`:`A`,`ts_utc_ms`:true}}'')"

lemma poison_message_circulates_witness:
  "be_db (((\<lambda>st. snd (app_on_message sample_pg ascii_interp sample_otel
      \<lparr>dl_body = bool_ts_body, dl_headers = None, dl_pool_error = None\<rparr> st)) ^^ 1000) sample_backend)
   = be_db sample_backend"
proof -
  have "unsettleable sample_pg (dl_body \<lparr>dl_body = bool_ts_body, dl_headers = None, dl_pool_error = None\<rparr>)"
    by code_simp
  from poison_message_circulates [OF disjI1 [OF this] refl, of ascii_interp sample_otel 1000 sample_backend]
  show ?thesis by (elim conjE)
qed

end
