(* ===== verification/Concurrent_Writes.thy ===== *)
theory Concurrent_Writes
  imports Repository_Properties
begin

text \<open>
  Several writers on one database: the API process handles up to ten messages at a time in executor
  threads, and the standalone consumer may run beside it. Every call of \<open>_write_to_db\<close> is a transaction
  of two statements and a commit, and the statements of different transactions interleave. PostgreSQL
  is third-party code; the steps are what its documentation says of the isolation level READ
  COMMITTED, which the program leaves as it is: a statement sees what was committed before it began,
  \<open>INSERT\<close> of an event meets no other row, and \<open>ON CONFLICT DO UPDATE\<close> waits for a transaction that
  has written the key, decides on the committed row, and keeps the key locked until its transaction
  ends, also when its condition does not hold.
\<close>

section \<open>Transactions\<close>

text \<open>
  \<open>Upserted r w\<close>: the row \<open>r\<close> is inserted, and the second statement writes \<open>w\<close>, if anything, into
  \<open>current_positions\<close>. What a transaction has written is its own until it commits.
\<close>

datatype write_phase =
    Begun
  | Inserted position_row
  | Upserted position_row "position_row option"
  | Committed
  | RolledBack

record write_txn =
  wt_envelope :: "json dict"
  wt_phase :: write_phase

record store =
  st_committed :: db
  st_txns :: "write_txn list"

fun locked_tag :: "write_phase \<Rightarrow> pystr option" where
  "locked_tag (Upserted r w) = Some (pr_tag_id r)"
| "locked_tag _ = None"

definition tag_locked :: "pystr \<Rightarrow> write_txn list \<Rightarrow> bool" where
  "tag_locked tag txns \<longleftrightarrow> list_ex (\<lambda>t. locked_tag (wt_phase t) = Some tag) txns"

text \<open>What the second statement writes, on the committed table that it sees.\<close>

definition upsert_effect :: "position_row \<Rightarrow> position_row dict \<Rightarrow> position_row option" where
  "upsert_effect r t =
     (case dict_get t (pr_tag_id r) of
        None \<Rightarrow> Some r
      | Some old \<Rightarrow> if pr_ts_utc_ms r \<ge> pr_ts_utc_ms old then Some r else None)"

definition commit_row :: "position_row \<Rightarrow> position_row option \<Rightarrow> db \<Rightarrow> db" where
  "commit_row r w db =
     \<lparr>db_events = db_events db @ [r],
      db_current = (case w of None \<Rightarrow> db_current db | Some v \<Rightarrow> dict_set (pr_tag_id r) v (db_current db))\<rparr>"

definition set_phase :: "nat \<Rightarrow> write_phase \<Rightarrow> store \<Rightarrow> store" where
  "set_phase i p s = s\<lparr>st_txns := (st_txns s)[i := (st_txns s ! i)\<lparr>wt_phase := p\<rparr>]\<rparr>"

definition phase_of :: "store \<Rightarrow> nat \<Rightarrow> write_phase" where
  "phase_of s i = wt_phase (st_txns s ! i)"

definition envelope_of :: "store \<Rightarrow> nat \<Rightarrow> json dict" where
  "envelope_of s i = wt_envelope (st_txns s ! i)"

fun finished :: "write_phase \<Rightarrow> bool" where
  "finished Committed = True"
| "finished RolledBack = True"
| "finished _ = False"

section \<open>Steps\<close>

text \<open>
  A transaction begins with the call of \<open>persist_envelope\<close>; its two statements; its commit; and its
  end by an exception, of the parameters, the pool or the commit, at any time.
\<close>

datatype txn_action = Begin "json dict" | Insert nat | Upsert nat | Commit nat | Rollback nat

inductive txn_step :: "pg \<Rightarrow> store \<Rightarrow> txn_action \<Rightarrow> store \<Rightarrow> bool" for pg where
  begun: "txn_step pg s (Begin e) (s\<lparr>st_txns := st_txns s @ [\<lparr>wt_envelope = e, wt_phase = Begun\<rparr>]\<rparr>)"
| inserted: "i < length (st_txns s) \<Longrightarrow> phase_of s i = Begun \<Longrightarrow>
    row_of_envelope pg (envelope_of s i) = Inr r \<Longrightarrow>
    txn_step pg s (Insert i) (set_phase i (Inserted r) s)"
| upserted: "i < length (st_txns s) \<Longrightarrow> phase_of s i = Inserted r \<Longrightarrow>
    \<not> tag_locked (pr_tag_id r) (st_txns s) \<Longrightarrow>
    txn_step pg s (Upsert i) (set_phase i (Upserted r (upsert_effect r (db_current (st_committed s)))) s)"
| committed: "i < length (st_txns s) \<Longrightarrow> phase_of s i = Upserted r w \<Longrightarrow>
    txn_step pg s (Commit i)
      (set_phase i Committed s\<lparr>st_committed := commit_row r w (st_committed s)\<rparr>)"
| rolled_back: "i < length (st_txns s) \<Longrightarrow> \<not> finished (phase_of s i) \<Longrightarrow>
    txn_step pg s (Rollback i) (set_phase i RolledBack s)"

inductive txn_run :: "pg \<Rightarrow> store \<Rightarrow> txn_action list \<Rightarrow> store \<Rightarrow> bool" for pg s0 where
  txn_idle: "txn_run pg s0 [] s0"
| txn_more: "txn_run pg s0 as s \<Longrightarrow> txn_step pg s a s' \<Longrightarrow> txn_run pg s0 (as @ [a]) s'"

inductive_simps txn_step_begin: "txn_step pg s (Begin e) s'"
inductive_cases txn_step_insert: "txn_step pg s (Insert i) s'"
inductive_cases txn_step_upsert: "txn_step pg s (Upsert i) s'"
inductive_cases txn_step_commit: "txn_step pg s (Commit i) s'"

definition quiet_store :: "db \<Rightarrow> store" where
  "quiet_store db = \<lparr>st_committed = db, st_txns = []\<rparr>"

fun commits :: "txn_action list \<Rightarrow> nat list" where
  "commits [] = []"
| "commits (Commit i # as) = i # commits as"
| "commits (_ # as) = commits as"

section \<open>Facts\<close>

lemma commits_append [simp]: "commits (as @ bs) = commits as @ commits bs"
  by (induction as rule: commits.induct) simp_all

lemma txn_run_append: "txn_run pg s bs s' \<Longrightarrow> txn_run pg s0 as s \<Longrightarrow> txn_run pg s0 (as @ bs) s'"
proof (induction rule: txn_run.induct)
  case (txn_more bs t b t')
  then show ?case using txn_run.txn_more [of pg s0 "as @ bs"] by simp
qed simp

lemma txn_run_single: "txn_step pg s a s' \<Longrightarrow> txn_run pg s [a] s'"
  using txn_run.txn_more [OF txn_run.txn_idle] by fastforce

lemma set_phase_simps [simp]:
  "st_committed (set_phase i p s) = st_committed s"
  "length (st_txns (set_phase i p s)) = length (st_txns s)"
  "i < length (st_txns s) \<Longrightarrow> phase_of (set_phase i p s) j = (if j = i then p else phase_of s j)"
  "i < length (st_txns s) \<Longrightarrow> envelope_of (set_phase i p s) j = envelope_of s j"
  by (simp_all add: set_phase_def phase_of_def envelope_of_def nth_list_update)

lemma committed_simps [simp]:
  "phase_of (s\<lparr>st_committed := d\<rparr>) j = phase_of s j"
  "envelope_of (s\<lparr>st_committed := d\<rparr>) j = envelope_of s j"
  by (simp_all add: phase_of_def envelope_of_def)

lemma begin_simps [simp]:
  "j < length (st_txns s) \<Longrightarrow> phase_of (s\<lparr>st_txns := st_txns s @ ts\<rparr>) j = phase_of s j"
  "j < length (st_txns s) \<Longrightarrow> envelope_of (s\<lparr>st_txns := st_txns s @ ts\<rparr>) j = envelope_of s j"
  "phase_of (s\<lparr>st_txns := st_txns s @ [t]\<rparr>) (length (st_txns s)) = wt_phase t"
  "envelope_of (s\<lparr>st_txns := st_txns s @ [t]\<rparr>) (length (st_txns s)) = wt_envelope t"
  by (simp_all add: phase_of_def envelope_of_def nth_append)

lemma tag_locked_iff:
  "tag_locked tag (st_txns s) \<longleftrightarrow> (\<exists>j<length (st_txns s). locked_tag (phase_of s j) = Some tag)"
  by (auto simp: tag_locked_def list_ex_iff phase_of_def in_set_conv_nth) (metis nth_mem)

lemma upsert_effect_row:
  "(case upsert_effect r t of None \<Rightarrow> t | Some v \<Rightarrow> dict_set (pr_tag_id r) v t) = upsert_row r t"
  by (simp add: upsert_effect_def upsert_row_def split: option.split)

lemma upsert_effect_other:
  "pr_tag_id q \<noteq> pr_tag_id r \<Longrightarrow> upsert_effect r (db_current (commit_row q w db)) = upsert_effect r (db_current db)"
  by (cases w) (simp_all add: upsert_effect_def commit_row_def update_conv')

text \<open>The step of an action, computed.\<close>

fun txn_next :: "pg \<Rightarrow> store \<Rightarrow> txn_action \<Rightarrow> store option" where
  "txn_next pg s (Begin e) = Some (s\<lparr>st_txns := st_txns s @ [\<lparr>wt_envelope = e, wt_phase = Begun\<rparr>]\<rparr>)"
| "txn_next pg s (Insert i) =
     (if \<not> i < length (st_txns s) then None
      else (case (phase_of s i, row_of_envelope pg (envelope_of s i)) of
              (Begun, Inr r) \<Rightarrow> Some (set_phase i (Inserted r) s)
            | _ \<Rightarrow> None))"
| "txn_next pg s (Upsert i) =
     (if \<not> i < length (st_txns s) then None
      else (case phase_of s i of
              Inserted r \<Rightarrow>
                if tag_locked (pr_tag_id r) (st_txns s) then None
                else Some (set_phase i (Upserted r (upsert_effect r (db_current (st_committed s)))) s)
            | _ \<Rightarrow> None))"
| "txn_next pg s (Commit i) =
     (if \<not> i < length (st_txns s) then None
      else (case phase_of s i of
              Upserted r w \<Rightarrow> Some (set_phase i Committed s\<lparr>st_committed := commit_row r w (st_committed s)\<rparr>)
            | _ \<Rightarrow> None))"
| "txn_next pg s (Rollback i) =
     (if \<not> i < length (st_txns s) \<or> finished (phase_of s i) then None else Some (set_phase i RolledBack s))"

fun txn_all :: "pg \<Rightarrow> store \<Rightarrow> txn_action list \<Rightarrow> store option" where
  "txn_all pg s [] = Some s"
| "txn_all pg s (a # as) = Option.bind (txn_next pg s a) (\<lambda>s'. txn_all pg s' as)"

lemma txn_next_step: "txn_next pg s a = Some s' \<longleftrightarrow> txn_step pg s a s'"
proof
  show "txn_step pg s a s'" if "txn_next pg s a = Some s'"
    using that by (cases a) (auto intro: txn_step.intros split: if_splits write_phase.splits sum.splits)
  show "txn_next pg s a = Some s'" if "txn_step pg s a s'"
    using that by (cases rule: txn_step.cases) auto
qed

lemma txn_all_run: "txn_all pg s as = Some s' \<Longrightarrow> txn_run pg s as s'"
proof (induction as arbitrary: s)
  case (Cons a as)
  then obtain t where "txn_step pg s a t" "txn_run pg t as s'"
    by (auto simp: Option.bind_eq_Some_conv txn_next_step)
  then show ?case using txn_run_append [OF _ txn_run_single] by fastforce
qed (simp add: txn_run.txn_idle)

text \<open>
  What the lock gives: two open transactions never hold the same key, and what a transaction is
  going to write is still what it would write on the table as it is now.
\<close>

definition locks_hold :: "pg \<Rightarrow> store \<Rightarrow> bool" where
  "locks_hold pg s \<longleftrightarrow>
     (\<forall>i<length (st_txns s). \<forall>r w. phase_of s i = Upserted r w \<longrightarrow>
        w = upsert_effect r (db_current (st_committed s))
        \<and> (\<forall>j<length (st_txns s). locked_tag (phase_of s j) = Some (pr_tag_id r) \<longrightarrow> j = i))
     \<and> (\<forall>i<length (st_txns s). \<forall>r. (phase_of s i = Inserted r \<or> (\<exists>w. phase_of s i = Upserted r w)) \<longrightarrow>
          row_of_envelope pg (envelope_of s i) = Inr r)"

lemma locks_holdD:
  assumes "locks_hold pg s" and "i < length (st_txns s)" and "phase_of s i = Upserted r w"
  shows "w = upsert_effect r (db_current (st_committed s))"
    and "j < length (st_txns s) \<Longrightarrow> locked_tag (phase_of s j) = Some (pr_tag_id r) \<Longrightarrow> j = i"
    and "row_of_envelope pg (envelope_of s i) = Inr r"
  using assms by (auto simp: locks_hold_def)

end
