(* ===== verification/Concurrent_Writes_Properties.thy ===== *)
theory Concurrent_Writes_Properties
  imports Concurrent_Writes
begin

text \<open>
  Properties of concurrent writers: their transactions are serializable, in the order of their
  commits, none of them can be stuck, and what two reads see of a database that others write.
\<close>

section \<open>The invariant of the locks\<close>

lemma locks_hold_quiet: "locks_hold pg (quiet_store db)"
  by (simp add: locks_hold_def quiet_store_def)

lemma locks_hold_begin:
  "locks_hold pg s \<Longrightarrow> locks_hold pg (s\<lparr>st_txns := st_txns s @ [\<lparr>wt_envelope = e, wt_phase = Begun\<rparr>]\<rparr>)"
  by (simp add: locks_hold_def less_Suc_eq all_conj_distrib imp_conjR)

lemma locks_hold_upsert:
  assumes "locks_hold pg s" "i < length (st_txns s)" "phase_of s i = Inserted r"
    and "\<not> tag_locked (pr_tag_id r) (st_txns s)"
  shows "locks_hold pg (set_phase i (Upserted r (upsert_effect r (db_current (st_committed s)))) s)"
  using assms by (auto simp: locks_hold_def tag_locked_iff)

lemma locks_hold_commit:
  assumes "locks_hold pg s" "i < length (st_txns s)" "phase_of s i = Upserted r w"
  shows "locks_hold pg (set_phase i Committed s\<lparr>st_committed := commit_row r w (st_committed s)\<rparr>)"
proof -
  have "upsert_effect q (db_current (commit_row r w (st_committed s))) = upsert_effect q (db_current (st_committed s))"
    if "j < length (st_txns s)" "j \<noteq> i" "phase_of s j = Upserted q v" for j q v
    using locks_holdD(2) [OF assms, of j] that by (intro upsert_effect_other) auto
  with assms show ?thesis by (auto simp: locks_hold_def)
qed

lemma locks_hold_step: "txn_step pg s a s' \<Longrightarrow> locks_hold pg s \<Longrightarrow> locks_hold pg s'"
proof (induction rule: txn_step.induct)
  case (inserted i s r)
  then show ?case by (auto simp: locks_hold_def)
next
  case (rolled_back i s)
  then show ?case by (auto simp: locks_hold_def)
qed (simp_all add: locks_hold_begin locks_hold_upsert locks_hold_commit)

lemma txn_step_frame:
  assumes "txn_step pg s a s'"
  shows "length (st_txns s) \<le> length (st_txns s')"
    and "j < length (st_txns s) \<Longrightarrow> envelope_of s' j = envelope_of s j"
  using assms by (cases rule: txn_step.cases; simp)+

section \<open>Serializability\<close>

definition serial :: "pg \<Rightarrow> db \<Rightarrow> txn_action list \<Rightarrow> store \<Rightarrow> bool" where
  "serial pg db as s \<longleftrightarrow>
     st_committed s = write_all pg (map (\<lambda>i. (None, envelope_of s i)) (commits as)) db
     \<and> distinct (commits as)
     \<and> set (commits as) = {i. i < length (st_txns s) \<and> phase_of s i = Committed}"

lemma serial_committed:
  assumes "serial pg db as s" and "\<forall>j<length (st_txns s). envelope_of s' j = envelope_of s j"
  shows "map (\<lambda>i. (None, envelope_of s' i)) (commits as) = map (\<lambda>i. (None, envelope_of s i)) (commits as)"
  using assms by (auto simp: serial_def)

lemma serial_step:
  assumes step: "txn_step pg s a s'" and s: "serial pg db as s" and locks: "locks_hold pg s"
  shows "serial pg db (as @ [a]) s'"
proof -
  have env: "map (\<lambda>i. (None, envelope_of s' i)) (commits as) = map (\<lambda>i. (None, envelope_of s i)) (commits as)"
    using serial_committed [OF s] txn_step_frame(2) [OF step] by blast
  show ?thesis
  proof (cases "\<exists>i. a = Commit i")
    case True
    then obtain i r w where i: "a = Commit i" "i < length (st_txns s)" "phase_of s i = Upserted r w"
      and s': "s' = set_phase i Committed s\<lparr>st_committed := commit_row r w (st_committed s)\<rparr>"
      using step by (auto elim: txn_step_commit)
    have row: "row_of_envelope pg (envelope_of s i) = Inr r" and w: "w = upsert_effect r (db_current (st_committed s))"
      using locks_holdD [OF locks i(2,3)] by simp_all
    have "commit_row r w (st_committed s) = store_row r (st_committed s)"
      by (simp add: commit_row_def store_row_def w upsert_effect_row)
    moreover have "i \<notin> set (commits as)" using s i(3) by (auto simp: serial_def)
    ultimately show ?thesis
      using s env i row unfolding serial_def s'
      by (auto simp: write_all_snoc row_of_write_def)
  next
    case False
    have "st_committed s' = st_committed s" using step False by (cases rule: txn_step.cases) auto
    moreover have "{i. i < length (st_txns s') \<and> phase_of s' i = Committed} =
        {i. i < length (st_txns s) \<and> phase_of s i = Committed}"
      using step False by (cases rule: txn_step.cases) (auto simp: less_Suc_eq)
    moreover have "commits [a] = []" using False by (cases a) auto
    ultimately show ?thesis using s unfolding serial_def by (simp only: env commits_append append_Nil2 simp_thms)
  qed
qed

lemma run_serial:
  "txn_run pg (quiet_store db) as s \<Longrightarrow> serial pg db as s \<and> locks_hold pg s"
proof (induction rule: txn_run.induct)
  case txn_idle
  then show ?case by (simp add: serial_def locks_hold_quiet) (simp add: quiet_store_def)
next
  case (txn_more as s a s')
  then show ?case using serial_step locks_hold_step by blast
qed

text \<open>
  C2. Concurrent writes are serializable: however the statements of the transactions interleave, and
  whichever of them are rolled back, the tables are those that the committed calls of \<open>_write_to_db\<close>
  leave when they are made one after another in the order of the commits. No update is lost to
  another writer.
\<close>

theorem writes_serializable:
  assumes "txn_run pg (quiet_store db) as s"
  shows "st_committed s = write_all pg (map (\<lambda>i. (None, envelope_of s i)) (commits as)) db
    \<and> distinct (commits as)
    \<and> set (commits as) = {i. i < length (st_txns s) \<and> phase_of s i = Committed}"
  using run_serial [OF assms] by (simp add: serial_def)

definition sample_interleaving :: "txn_action list" where
  "sample_interleaving =
     [Begin sample_envelope, Begin sample_envelope, Begin [], Insert 0, Insert 1, Upsert 1, Rollback 2,
      Commit 1, Upsert 0, Commit 0]"

lemma sample_interleaving_runs: "\<exists>s. txn_run sample_pg (quiet_store db) sample_interleaving s"
proof -
  have "txn_all sample_pg (quiet_store db) sample_interleaving \<noteq> None"
    by (simp add: sample_interleaving_def quiet_store_def phase_of_def envelope_of_def sample_row
        set_phase_def tag_locked_def)
  then show ?thesis using txn_all_run by blast
qed

lemma writes_serializable_witness:
  "\<exists>s. txn_run sample_pg (quiet_store empty_db) sample_interleaving s
     \<and> set (commits sample_interleaving) = {i. i < length (st_txns s) \<and> phase_of s i = Committed}"
proof -
  obtain s where s: "txn_run sample_pg (quiet_store empty_db) sample_interleaving s"
    using sample_interleaving_runs by blast
  from writes_serializable [OF this] s show ?thesis by blast
qed

section \<open>Progress\<close>

fun steps_left :: "write_phase \<Rightarrow> nat" where
  "steps_left Begun = 3"
| "steps_left (Inserted r) = 2"
| "steps_left (Upserted r w) = 1"
| "steps_left _ = 0"

definition work_left :: "store \<Rightarrow> nat" where
  "work_left s = sum_list (map (\<lambda>t. steps_left (wt_phase t)) (st_txns s))"

lemma work_left_set_phase:
  assumes "i < length (st_txns s)"
  shows "work_left (set_phase i p s) + steps_left (phase_of s i) = work_left s + steps_left p"
proof -
  have "steps_left (phase_of s i) \<le> work_left s"
    unfolding work_left_def phase_of_def using assms by (intro member_le_sum_list) auto
  then show ?thesis
    using assms by (simp add: work_left_def set_phase_def map_update sum_list_update phase_of_def)
qed

lemma steps_left_zero: "steps_left p = 0 \<longleftrightarrow> finished p"
  by (cases p) simp_all

lemma work_left_step:
  assumes "txn_step pg s a s'" and "\<forall>e. a \<noteq> Begin e"
  shows "work_left s' < work_left s"
proof -
  have less: "work_left (set_phase i p s) < work_left s"
    if "i < length (st_txns s)" "steps_left p < steps_left (phase_of s i)" for i p
    using work_left_set_phase [of i s p] that by simp
  have committed: "work_left (t\<lparr>st_committed := d\<rparr>) = work_left t" for t d by (simp add: work_left_def)
  show ?thesis using assms
  proof (cases rule: txn_step.cases)
    case (rolled_back i)
    then have "0 < steps_left (phase_of s i)" using steps_left_zero [of "phase_of s i"] by simp
    with rolled_back show ?thesis by (simp add: less)
  qed (simp_all add: less committed)
qed

text \<open>Where a transaction ends that goes on without an exception of its own making.\<close>

definition outcome_of :: "pg \<Rightarrow> store \<Rightarrow> nat \<Rightarrow> write_phase" where
  "outcome_of pg s i =
     (case phase_of s i of
        RolledBack \<Rightarrow> RolledBack
      | Begun \<Rightarrow> (case row_of_envelope pg (envelope_of s i) of Inl e \<Rightarrow> RolledBack | Inr r \<Rightarrow> Committed)
      | _ \<Rightarrow> Committed)"

text \<open>A step that every state with an unfinished transaction allows, and that keeps all outcomes.\<close>

definition advances :: "pg \<Rightarrow> store \<Rightarrow> txn_action \<Rightarrow> store \<Rightarrow> bool" where
  "advances pg s a s' \<longleftrightarrow>
     txn_step pg s a s' \<and> (\<forall>e. a \<noteq> Begin e) \<and> length (st_txns s') = length (st_txns s)
     \<and> (\<forall>j<length (st_txns s). outcome_of pg s' j = outcome_of pg s j)"

lemma some_step_advances:
  assumes "i < length (st_txns s)" and "\<not> finished (phase_of s i)"
  shows "\<exists>a s'. advances pg s a s'"
proof (cases "\<exists>j<length (st_txns s). \<exists>r w. phase_of s j = Upserted r w")
  case True
  then obtain j r w where j: "j < length (st_txns s)" "phase_of s j = Upserted r w" by blast
  from txn_step.committed [OF this, of pg] j
  have "advances pg s (Commit j) (set_phase j Committed s\<lparr>st_committed := commit_row r w (st_committed s)\<rparr>)"
    by (auto simp: advances_def outcome_of_def split: write_phase.split)
  then show ?thesis by blast
next
  case False
  then have free: "\<not> tag_locked tag (st_txns s)" for tag
    by (auto simp: tag_locked_iff elim!: locked_tag.elims)
  show ?thesis
  proof (cases "phase_of s i")
    case Begun
    show ?thesis
    proof (cases "row_of_envelope pg (envelope_of s i)")
      case (Inl e)
      from txn_step.rolled_back [OF assms, of pg] Inl assms Begun
      have "advances pg s (Rollback i) (set_phase i RolledBack s)" by (auto simp: advances_def outcome_of_def split: write_phase.split)
      then show ?thesis by blast
    next
      case (Inr r)
      from txn_step.inserted [OF assms(1) Begun Inr] Inr assms Begun
      have "advances pg s (Insert i) (set_phase i (Inserted r) s)" by (auto simp: advances_def outcome_of_def split: write_phase.split)
      then show ?thesis by blast
    qed
  next
    case (Inserted r)
    let ?w = "upsert_effect r (db_current (st_committed s))"
    from txn_step.upserted [OF assms(1) Inserted free, of pg] assms Inserted
    have "advances pg s (Upsert i) (set_phase i (Upserted r ?w) s)" by (auto simp: advances_def outcome_of_def split: write_phase.split)
    then show ?thesis by blast
  next
    case (Upserted r w)
    with False assms(1) show ?thesis by blast
  qed (use assms(2) in simp_all)
qed

lemma all_finish:
  "\<exists>bs s'. txn_run pg s bs s' \<and> length (st_txns s') = length (st_txns s)
     \<and> (\<forall>i<length (st_txns s). phase_of s' i = outcome_of pg s i)"
proof (induction "work_left s" arbitrary: s rule: less_induct)
  case less
  show ?case
  proof (cases "\<exists>i<length (st_txns s). \<not> finished (phase_of s i)")
    case True
    then obtain a t where a: "txn_step pg s a t" "\<forall>e. a \<noteq> Begin e" "length (st_txns t) = length (st_txns s)"
      and out: "\<forall>j<length (st_txns s). outcome_of pg t j = outcome_of pg s j"
      using some_step_advances unfolding advances_def by blast
    obtain bs s' where "txn_run pg t bs s'" "length (st_txns s') = length (st_txns t)"
      "\<forall>i<length (st_txns t). phase_of s' i = outcome_of pg t i"
      using less [OF work_left_step [OF a(1,2)]] by blast
    then show ?thesis
      using txn_run_append [OF _ txn_run_single [OF a(1)]] out a(3) by (metis append_Cons append_Nil)
  next
    case False
    then have "\<forall>i<length (st_txns s). phase_of s i = outcome_of pg s i"
      by (auto simp: outcome_of_def split: write_phase.split)
    then show ?thesis using txn_run.txn_idle by blast
  qed
qed

lemma run_bounded:
  "txn_run pg s bs s' \<Longrightarrow> \<forall>e. Begin e \<notin> set bs \<Longrightarrow> length bs + work_left s' \<le> work_left s"
proof (induction rule: txn_run.induct)
  case (txn_more bs t b t')
  then show ?case using work_left_step [OF txn_more.hyps(2)] by fastforce
qed simp

text \<open>
  C37. Writers neither deadlock nor run for ever: from any state, once no new transaction begins, at
  most as many steps follow as the open transactions have left, three at most for each, and there
  is a way to end them all in which every one commits whose envelope has a row and that was not
  rolled back before.
\<close>

theorem writers_finish:
  "(\<exists>bs s'. txn_run pg s bs s' \<and> length (st_txns s') = length (st_txns s)
      \<and> (\<forall>i<length (st_txns s). phase_of s' i = outcome_of pg s i \<and> finished (phase_of s' i)))
   \<and> (\<forall>bs s'. txn_run pg s bs s' \<and> (\<forall>e. Begin e \<notin> set bs) \<longrightarrow> length bs \<le> 3 * length (st_txns s))"
proof (intro conjI allI impI)
  have "finished (outcome_of pg s i)" for i
    by (auto simp: outcome_of_def split: write_phase.split sum.split)
  then show "\<exists>bs s'. txn_run pg s bs s' \<and> length (st_txns s') = length (st_txns s)
      \<and> (\<forall>i<length (st_txns s). phase_of s' i = outcome_of pg s i \<and> finished (phase_of s' i))"
    using all_finish [of pg s] by force
  have "steps_left p \<le> 3" for p by (cases p) simp_all
  then have "work_left s \<le> sum_list (map (\<lambda>t. 3) (st_txns s))"
    unfolding work_left_def by (intro sum_list_mono) simp
  then show "length bs \<le> 3 * length (st_txns s)"
    if "txn_run pg s bs s' \<and> (\<forall>e. Begin e \<notin> set bs)" for bs s'
    using run_bounded [of pg s bs s'] that by (simp add: sum_list_triv)
qed

definition sample_store :: store where
  "sample_store =
     \<lparr>st_committed = empty_db,
      st_txns = [\<lparr>wt_envelope = sample_envelope, wt_phase = Begun\<rparr>, \<lparr>wt_envelope = [], wt_phase = Begun\<rparr>]\<rparr>"

lemma writers_finish_witness:
  "(\<exists>bs s'. txn_run sample_pg sample_store bs s' \<and> phase_of s' 0 = Committed \<and> phase_of s' 1 = RolledBack)
   \<and> length [Insert 0, Upsert 0] \<le> 3 * length (st_txns sample_store)"
proof
  have out: "outcome_of sample_pg sample_store 0 = Committed" "outcome_of sample_pg sample_store 1 = RolledBack"
    by (simp_all add: outcome_of_def phase_of_def envelope_of_def sample_store_def sample_row row_of_empty)
  have len: "0 < length (st_txns sample_store)" "1 < length (st_txns sample_store)" by (simp_all add: sample_store_def)
  show "\<exists>bs s'. txn_run sample_pg sample_store bs s' \<and> phase_of s' 0 = Committed \<and> phase_of s' 1 = RolledBack"
    using conjunct1 [OF writers_finish [of sample_pg sample_store]] out len by metis
  have "txn_all sample_pg sample_store [Insert 0, Upsert 0] \<noteq> None"
    by (simp add: sample_store_def phase_of_def envelope_of_def sample_row set_phase_def tag_locked_def)
  then obtain s' where "txn_run sample_pg sample_store [Insert 0, Upsert 0] s'" using txn_all_run by blast
  moreover have "\<forall>e. Begin e \<notin> set [Insert 0, Upsert 0]" by simp
  ultimately show "length [Insert 0, Upsert 0] \<le> 3 * length (st_txns sample_store)"
    using conjunct2 [OF writers_finish [of sample_pg sample_store]] by blast
qed

section \<open>Reading beside writers\<close>

lemma txn_step_events: "txn_step pg s a s' \<Longrightarrow> \<exists>new. db_events (st_committed s') = db_events (st_committed s) @ new"
  by (cases rule: txn_step.cases) (auto simp: commit_row_def)

lemma txn_run_events: "txn_run pg s as s' \<Longrightarrow> \<exists>new. db_events (st_committed s') = db_events (st_committed s) @ new"
proof (induction rule: txn_run.induct)
  case (txn_more as t a t')
  then show ?case using txn_step_events [OF txn_more.hyps(2)] by auto
qed simp

lemma txn_step_reads_same: "txn_step pg s a s' \<Longrightarrow> commits [a] = [] \<Longrightarrow> st_committed s' = st_committed s"
  by (cases rule: txn_step.cases) auto

lemma txn_run_reads_same: "txn_run pg s as s' \<Longrightarrow> commits as = [] \<Longrightarrow> st_committed s' = st_committed s"
  by (induction rule: txn_run.induct) (auto dest: txn_step_reads_same)

text \<open>
  C36. The two statements of the history endpoint, between which others may commit: the \<open>total\<close> that is
  answered never falls short of the page, so that a client that pages until it has seen \<open>total\<close> rows
  misses none of the page it holds; and it is exact when nothing is committed in between.
\<close>

theorem history_total_covers_page:
  assumes "pg_contract pg" and "txn_run pg s as s'"
    and "position_history pg (st_committed s) (st_committed s') tag from_ts to_ts limit offset = Some (items, found)"
  shows "length items \<le> nat limit
    \<and> (items \<noteq> [] \<longrightarrow> nat offset + length items \<le> found)
    \<and> (commits as = [] \<longrightarrow> length items = min (nat limit) (found - nat offset))"
proof -
  let ?cs = "build_time_filters from_ts to_ts"
  let ?rows = "select_history pg (st_committed s) tag ?cs"
  have items: "items = map row_dict (take (nat limit) (drop (nat offset) ?rows))"
    and found: "found = count_position_history (st_committed s') tag from_ts to_ts"
    using assms(3) by (auto simp: position_history_def get_position_history_def split: if_splits)
  have rows: "length ?rows = count_position_history (st_committed s) tag from_ts to_ts"
    using mset_eq_length [OF mset_select_history [OF assms(1), of "st_committed s" tag ?cs]]
    by (simp add: count_position_history_def)
  have "length ?rows \<le> found"
    using txn_run_events [OF assms(2)] unfolding rows found count_position_history_def by fastforce
  moreover have "commits as = [] \<Longrightarrow> found = length ?rows"
    using txn_run_reads_same [OF assms(2)] by (simp add: rows found)
  ultimately show ?thesis by (auto simp: items)
qed

lemma history_total_covers_page_witness:
  "\<exists>s items found. txn_run sample_pg (quiet_store sample_history) sample_interleaving s
     \<and> position_history sample_pg sample_history (st_committed s) (lit ''T1'') None None 1 2 = Some (items, found)
     \<and> items \<noteq> [] \<and> 2 + length items \<le> found"
proof -
  obtain s where s: "txn_run sample_pg (quiet_store sample_history) sample_interleaving s"
    using sample_interleaving_runs by blast
  obtain items found where
    h: "position_history sample_pg (st_committed (quiet_store sample_history)) (st_committed s)
      (lit ''T1'') None None 1 2 = Some (items, found)"
    by (auto simp: position_history_def)
  have "length (select_history sample_pg sample_history (lit ''T1'') []) = 3"
    using mset_eq_length [OF mset_select_history [OF sample_pg_contract, of sample_history "lit ''T1''" "[]"]]
    by (simp add: sample_history_def sample_position_def where_tag_def)
  then have "items \<noteq> []"
    using h by (auto simp: position_history_def get_position_history_def build_time_filters_def quiet_store_def)
  with history_total_covers_page [OF sample_pg_contract s h] s h show ?thesis
    by (auto simp: quiet_store_def)
qed

end
