(* ===== verification/Pipeline.thy ===== *)
theory Pipeline
  imports Consumer_Properties
begin

text \<open>
  The way of a position through the system: the datagram that the UDP server processes to an event,
  the message it publishes, the consumer that stores it, and the columns of the row.
\<close>

section \<open>Values that the columns take\<close>

definition fits :: "nat \<Rightarrow> int \<Rightarrow> bool" where
  "fits w i \<longleftrightarrow> - (2 ^ w) \<le> i \<and> i < 2 ^ w"

definition storable_event :: "normalized_event \<Rightarrow> bool" where
  "storable_event ev \<longleftrightarrow>
     list_all storable_text [ev_tag_id ev, ev_source_type ev, ev_raw_message ev]
     \<and> list_all (pred_option storable_text) [ev_area ev, ev_status ev]
     \<and> list_all storable_text (ev_parse_warnings ev)"

text \<open>The row that stands for an event.\<close>

definition event_row ::
  "pystr \<Rightarrow> pystr \<Rightarrow> int \<Rightarrow> int \<Rightarrow> int option \<Rightarrow> normalized_event \<Rightarrow> position_row" where
  "event_row event_type origin ingested_at_ms ts layer ev =
     \<lparr>pr_schema_version = lit ''1.0'', pr_event_type = event_type, pr_origin = origin,
      pr_normalized = True, pr_ingested_at_ms = ingested_at_ms, pr_tag_id = ev_tag_id ev,
      pr_ts_utc_ms = ts, pr_source_type = ev_source_type ev, pr_status = ev_status ev,
      pr_layer = layer, pr_area = ev_area ev, pr_x = ev_x ev, pr_y = ev_y ev, pr_z = ev_z ev,
      pr_lng = ev_lng ev, pr_lat = ev_lat ev, pr_raw_message = ev_raw_message ev,
      pr_parse_warnings = JArr (map JStr (ev_parse_warnings ev))\<rparr>"

section \<open>Columns under the contract of the database\<close>

named_theorems column_simps \<open>what a column makes of a parameter\<close>

lemma column_text [column_simps]:
  "pg_contract pg \<Longrightarrow> storable_text s \<Longrightarrow> pg_text pg (JStr s) = Inr (Some s)"
  by (simp add: pg_contract_def)

lemma column_opt_text [column_simps]:
  "pg_contract pg \<Longrightarrow> pred_option storable_text s \<Longrightarrow> pg_text pg (json_opt JStr s) = Inr s"
  by (cases s) (simp_all add: pg_contract_def)

lemma column_boolean [column_simps]: "pg_contract pg \<Longrightarrow> pg_boolean pg (JBool b) = Inr (Some b)"
  by (simp add: pg_contract_def)

lemma column_bigint [column_simps]:
  "pg_contract pg \<Longrightarrow> fits 63 i \<Longrightarrow> pg_bigint pg (JInt i) = Inr (Some i)"
  by (simp add: pg_contract_def fits_def)

lemma column_integer [column_simps]:
  "pg_contract pg \<Longrightarrow> pred_option (fits 31) i \<Longrightarrow>
    pg_integer pg (json_opt json_of_pyint (map_option IntVal i)) = Inr i"
  by (cases i) (simp_all add: pg_contract_def fits_def)

lemma column_double [column_simps]: "pg_contract pg \<Longrightarrow> pg_double pg (json_opt JFloat f) = Inr f"
  by (cases f) (simp_all add: pg_contract_def)

lemma column_jsonb [column_simps]:
  "pg_contract pg \<Longrightarrow> list_all storable_text ws \<Longrightarrow> json_dumps_default (JArr (map JStr ws)) = Inr s \<Longrightarrow>
    pg_jsonb pg (JStr s) = Inr (Some (JArr (map JStr ws)))"
  by (simp add: pg_contract_def)

lemma not_null_Some [simp]: "not_null (Inr (Some a)) = Inr a"
  by (simp add: not_null_def)

lemma dumps_strings: "\<exists>s. json_dumps_default (JArr (map JStr ws)) = Inr s"
proof -
  have "\<exists>ts. map_res (json_text asc i k) (map JStr ws) = Inr ts" for asc i k
    by (induction ws) auto
  then show ?thesis unfolding json_dumps_default_def json_text.simps by (metis bind_res_Inr)
qed

section \<open>The row of an event\<close>

lemma storable_version: "storable_text (lit ''1.0'')"
  by code_simp

lemma extract_params_event:
  assumes "json_dumps_default (JArr (map JStr (ev_parse_warnings ev))) = Inr w"
    and "ev_ts_utc_ms ev = IntVal ts" and "ec_origin c = JStr origin"
  shows "extract_params (v1_build (JObj (asdict ev)) c) = Inr
    [(lit ''schema_version'', JStr (lit ''1.0'')), (lit ''event_type'', JStr (ec_event_type c)),
     (lit ''origin'', JStr origin), (lit ''normalized'', JBool (ec_normalized c)),
     (lit ''ingested_at_ms'', JInt (ec_ingested_at_ms c)),
     (lit ''tag_id'', JStr (ev_tag_id ev)), (lit ''ts_utc_ms'', JInt ts),
     (lit ''source_type'', JStr (ev_source_type ev)),
     (lit ''status'', json_opt JStr (ev_status ev)),
     (lit ''layer'', json_opt json_of_pyint (ev_layer ev)),
     (lit ''area'', json_opt JStr (ev_area ev)),
     (lit ''x'', json_opt JFloat (ev_x ev)), (lit ''y'', json_opt JFloat (ev_y ev)),
     (lit ''z'', json_opt JFloat (ev_z ev)), (lit ''lng'', json_opt JFloat (ev_lng ev)),
     (lit ''lat'', json_opt JFloat (ev_lat ev)), (lit ''raw_message'', JStr (ev_raw_message ev)),
     (lit ''parse_warnings'', JStr w)]"
  using assms
  by (simp add: extract_params_def get_default_def dict_item_def payload_params_def get_or_null_def)

lemma event_row_stored:
  assumes pg: "pg_contract pg" and ev: "storable_event ev"
    and ts: "ev_ts_utc_ms ev = IntVal ts" "fits 63 ts"
    and layer: "ev_layer ev = map_option IntVal layer" "pred_option (fits 31) layer"
    and ctx: "ec_origin c = JStr origin" "ec_normalized c" "fits 63 (ec_ingested_at_ms c)"
      "storable_text origin" "storable_text (ec_event_type c)"
  shows "row_of_envelope pg (v1_build (JObj (asdict ev)) c) =
    Inr (event_row (ec_event_type c) origin (ec_ingested_at_ms c) ts layer ev)"
proof -
  obtain w where w: "json_dumps_default (JArr (map JStr (ev_parse_warnings ev))) = Inr w"
    using dumps_strings by blast
  have texts: "storable_text (ev_tag_id ev)" "storable_text (ev_source_type ev)"
    "storable_text (ev_raw_message ev)" "pred_option storable_text (ev_area ev)"
    "pred_option storable_text (ev_status ev)" "list_all storable_text (ev_parse_warnings ev)"
    using ev by (simp_all add: storable_event_def)
  show ?thesis
    unfolding row_of_envelope_def extract_params_event [OF w ts(1) ctx(1)] bind_res_Inr
      row_of_params_def event_row_def
    by (simp add: param_def get_or_null_def layer(1) column_jsonb [OF pg texts(6) w] column_simps pg
        texts ts(2) layer(2) ctx storable_version)
qed

lemma check_event_envelope:
  "json_loads_bytes body = Inr (JObj (v1_build (JObj (asdict ev)) c)) \<Longrightarrow>
    check_body body = Envelope (v1_build (JObj (asdict ev)) c)"
  by (simp add: check_body_def check_payload_def get_or_null_def has_key_def)

section \<open>From the datagram to the row\<close>

text \<open>
  C21. A position reaches the tables unchanged. When the server processes a datagram to an event and
  publishes it, the consumer that is handed the published body stores exactly one row, whose
  columns are the fields of the event bit for bit, broadcasts the envelope to all subscribers and
  acknowledges the message.
\<close>

theorem datagram_to_row:
  assumes msg: "prepare_message sv dg = Inr (dl_body dl, h)"
    and sv: "wf_server sv" "sv_envelope_registry sv = default_registry" "storable_text (sv_event_type sv)"
    and ev: "process_datagram sv (dg_normalize_ms dg) (dg_data dg) (peer_headers dg) = Inr (JObj (asdict ev), h0)"
    and origin: "dict_get h0 (lit ''origin'') = Some origin" "storable_text origin"
    and fields: "storable_event ev" "ev_ts_utc_ms ev = IntVal ts" "fits 63 ts"
      "ev_layer ev = map_option IntVal layer" "pred_option (fits 31) layer" "fits 63 (dg_ingest_ms dg)"
    and env: "pg_contract pg" "dl_pool_error dl = None"
      "extract_from_headers it ot (case dl_headers dl of None \<Rightarrow> [] | Some h \<Rightarrow> h) = Inr ctx"
    and r: "r = event_row (sv_event_type sv) origin (dg_ingest_ms dg) ts layer ev"
  shows "\<exists>envelope st'. app_on_message pg it ot dl st = (Acked, st')
    \<and> be_db st' = \<lparr>db_events = db_events (be_db st) @ [r], db_current = upsert_row r (db_current (be_db st))\<rparr>
    \<and> dict_get envelope (lit ''payload'') = Some (JObj (asdict ev))
    \<and> be_broadcast st' = broadcast_publish envelope (be_broadcast st)
    \<and> mt_processed (be_metrics st') = Suc (mt_processed (be_metrics st))"
proof -
  define c where "c = \<lparr>ec_schema_version = lit ''1.0'', ec_event_type = sv_event_type sv,
    ec_origin = JStr origin, ec_normalized = True, ec_ingested_at_ms = dg_ingest_ms dg\<rparr>"
  have "payload_origin (JObj (asdict ev)) h0 = JStr origin" "is_normalized (JObj (asdict ev))"
    using origin(1) by (simp_all add: payload_origin_def is_normalized_def has_key_def)
  with prepared_message_reads_back [OF msg sv(1,2)] ev
  have "json_loads_bytes (dl_body dl) = Inr (JObj (v1_build (JObj (asdict ev)) c))"
    by (auto simp: c_def)
  then have check: "check_body (dl_body dl) = Envelope (v1_build (JObj (asdict ev)) c)"
    by (rule check_event_envelope)
  have "row_of_envelope pg (v1_build (JObj (asdict ev)) c) = Inr r"
    using event_row_stored [OF env(1) fields(1-5), of c origin] origin(2) sv(3) fields(6)
    by (simp add: r c_def)
  then have "write_to_db pg None (v1_build (JObj (asdict ev)) c) (be_db st) = (store_row r (be_db st), Inr ())"
    by (simp add: write_to_db_def persist_envelope_row)
  then show ?thesis
    by (intro exI [of _ "v1_build (JObj (asdict ev)) c"])
      (simp add: app_on_message_def check env store_and_publish_def Let_def,
       simp add: store_row_def count_processed_def observe_write_def)
qed

definition sample_event :: normalized_event where
  "sample_event = ls_event (lit ''status2:1,A1,2,3'') (lit ''status2'') (lit ''A1'') (IntVal 3)
     (None, None, None) None None None None None"

lemma datagram_to_row_witness:
  "\<exists>m h st'. prepare_message sample_server (sample_datagram (lit ''status2:1,A1,2,3'')) = Inr (m, h)
     \<and> app_on_message sample_pg ascii_interp sample_otel
         \<lparr>dl_body = m, dl_headers = None, dl_pool_error = None\<rparr> sample_backend = (Acked, st')
     \<and> db_events (be_db st') = [event_row (lit ''position'') (lit ''ls-1000'') 6 3 None sample_event]"
proof -
  let ?dg = "sample_datagram (lit ''status2:1,A1,2,3'')"
  have "case prepare_message sample_server ?dg of Inl e \<Rightarrow> False | Inr x \<Rightarrow> True" by code_simp
  then obtain m h where m: "prepare_message sample_server ?dg
      = Inr (dl_body \<lparr>dl_body = m, dl_headers = None, dl_pool_error = None\<rparr>, h)"
    by (auto split: sum.splits)
  have p: "process_datagram sample_server (dg_normalize_ms ?dg) (dg_data ?dg) (peer_headers ?dg)
      = Inr (JObj (asdict sample_event), dict_set (lit ''parser'') (lit ''ls1000'')
          (dict_set (lit ''origin'') (lit ''ls-1000'') (peer_headers ?dg)))"
    by code_simp
  have "storable_event sample_event" "storable_text (sv_event_type sample_server)"
    "storable_text (lit ''ls-1000'')" "wf_server sample_server"
    "ev_ts_utc_ms sample_event = IntVal 3" "ev_layer sample_event = map_option IntVal None"
    "fits 63 (dg_ingest_ms ?dg)" "sv_envelope_registry sample_server = default_registry"
    by (simp_all add: storable_event_def sample_event_def ls_event_def storable_text_def scalar_str_def
        lit_def is_surrogate_def sample_server_def wf_server_def sample_datagram_def fits_def)
  note facts = this
  have "extract_from_headers ascii_interp sample_otel
      (case dl_headers \<lparr>dl_body = m, dl_headers = None, dl_pool_error = None\<rparr> of None \<Rightarrow> [] | Some h \<Rightarrow> h) = Inr ()"
    by (simp add: extract_from_headers_def sample_otel_def)
  from datagram_to_row [OF m facts(4,8,2) p _ facts(3,1,5) _ facts(6) _ facts(7) sample_pg_contract _ this refl,
      of sample_backend]
  show ?thesis using m
    by (auto simp: fits_def sample_backend_def empty_db_def sample_server_def sample_datagram_def)
qed

end
