(* ===== verification/Delivery.thy ===== *)
theory Delivery
  imports Pipeline
begin

text \<open>
  The composition of the receiver, the broker and the API process: datagrams come in, the exchange
  routes what the receiver publishes to the queue, and the consumer settles the messages of the
  queue. The broker is third-party code; what the program relies on is modelled as the broker's
  documentation has it: a message leaves the queue when its acknowledgement arrives and not before,
  and a message that is given back, or whose acknowledgement is lost with the connection, is
  delivered again. Any message of the queue may be the next. Which routing keys a binding takes is
  the argument \<open>pl_routes\<close>.
\<close>

section \<open>The plant\<close>

record 'ctx plant =
  pl_server :: "'ctx server"
  pl_consumer :: rabbitmq_config
  pl_routes :: "pystr \<Rightarrow> pystr \<Rightarrow> pystr \<Rightarrow> bool"
  pl_pg :: pg
  pl_interp :: interp
  pl_otel :: "'ctx otel"

record plant_state =
  ps_server :: server_state
  ps_queue :: "amqp_message list"
  ps_backend :: backend

text \<open>The queue is bound to the exchange of the publisher, by a key that takes the routing key.\<close>

definition bound :: "'ctx plant \<Rightarrow> pystr \<Rightarrow> bool" where
  "bound pl key \<longleftrightarrow>
     rc_exchange (sv_broker (pl_server pl)) = rc_exchange (pl_consumer pl)
     \<and> pl_routes pl (rc_exchange_type (pl_consumer pl)) (rc_routing_key (pl_consumer pl)) key"

definition delivery_of :: "amqp_message \<Rightarrow> py_exc option \<Rightarrow> delivery" where
  "delivery_of m fault =
     \<lparr>dl_body = am_body m,
      dl_headers = map_option (map (\<lambda>(k, v). (k, JStr v))) (am_headers m),
      dl_pool_error = fault\<rparr>"

definition consume ::
  "'ctx plant \<Rightarrow> amqp_message \<Rightarrow> py_exc option \<Rightarrow> backend \<Rightarrow> settlement \<times> backend" where
  "consume pl m fault b =
     app_on_message (pl_pg pl) (pl_interp pl) (pl_otel pl) (delivery_of m fault) b"

text \<open>The receiver handles a datagram; the exchange routes what it has accepted.\<close>

definition receive :: "'ctx plant \<Rightarrow> datagram \<Rightarrow> plant_state \<Rightarrow> plant_state" where
  "receive pl dg s =
     (let st = handle_datagram (pl_server pl) dg (ps_server s);
          new = drop (length (ex_accepted (ss_exchange (ps_server s)))) (ex_accepted (ss_exchange st))
      in s\<lparr>ps_server := st, ps_queue := ps_queue s @ map snd (filter (\<lambda>x. bound pl (fst x)) new)\<rparr>)"

text \<open>The API process starts on the tables it finds, without clients and with its counters at zero.\<close>

definition fresh_backend :: "db \<Rightarrow> backend" where
  "fresh_backend db =
     \<lparr>be_db = db, be_broadcast = new_broadcast default_maxsize,
      be_metrics = \<lparr>mt_processed = 0, mt_failed = [], mt_db_writes = 0\<rparr>\<rparr>"

definition plant_start :: plant_state where
  "plant_start =
     \<lparr>ps_server = \<lparr>ss_exchange = \<lparr>ex_accepted = [], ex_messages_total = 0\<rparr>, ss_errors = []\<rparr>,
      ps_queue = [], ps_backend = fresh_backend empty_db\<rparr>"

definition remove_nth :: "nat \<Rightarrow> 'a list \<Rightarrow> 'a list" where
  "remove_nth i xs = take i xs @ drop (Suc i) xs"

text \<open>
  The actions of a run: a datagram arrives; message \<open>i\<close> of the queue is delivered, and its
  settlement reaches the broker; it is delivered and handled, but the acknowledgement is lost; the
  API process starts anew. \<open>fault\<close> is what the connection pool raises.
\<close>

datatype plant_action =
    Receive datagram
  | Deliver nat "py_exc option"
  | LoseAck nat "py_exc option"
  | Restart

inductive plant_step :: "'ctx plant \<Rightarrow> plant_state \<Rightarrow> plant_action \<Rightarrow> plant_state \<Rightarrow> bool" for pl where
  received: "plant_step pl s (Receive dg) (receive pl dg s)"
| acked: "i < length (ps_queue s) \<Longrightarrow> consume pl (ps_queue s ! i) fault (ps_backend s) = (Acked, b) \<Longrightarrow>
    plant_step pl s (Deliver i fault) (s\<lparr>ps_queue := remove_nth i (ps_queue s), ps_backend := b\<rparr>)"
| given_back: "i < length (ps_queue s) \<Longrightarrow>
    consume pl (ps_queue s ! i) fault (ps_backend s) = (Requeued e, b) \<Longrightarrow>
    plant_step pl s (Deliver i fault) (s\<lparr>ps_backend := b\<rparr>)"
| ack_lost: "i < length (ps_queue s) \<Longrightarrow>
    consume pl (ps_queue s ! i) fault (ps_backend s) = (Acked, b) \<Longrightarrow>
    plant_step pl s (LoseAck i fault) (s\<lparr>ps_backend := b\<rparr>)"
| restarted: "plant_step pl s Restart (s\<lparr>ps_backend := fresh_backend (be_db (ps_backend s))\<rparr>)"

inductive plant_run :: "'ctx plant \<Rightarrow> plant_state \<Rightarrow> plant_action list \<Rightarrow> plant_state \<Rightarrow> bool"
  for pl s0 where
  idle: "plant_run pl s0 [] s0"
| further: "plant_run pl s0 as s \<Longrightarrow> plant_step pl s a s' \<Longrightarrow> plant_run pl s0 (as @ [a]) s'"

inductive_simps plant_step_receive: "plant_step pl s (Receive dg) s'"
inductive_simps plant_step_restart: "plant_step pl s Restart s'"
inductive_cases plant_step_deliver: "plant_step pl s (Deliver i fault) s'"
inductive_cases plant_step_lose_ack: "plant_step pl s (LoseAck i fault) s'"

section \<open>What the messages stand for\<close>

text \<open>The message that a datagram puts into the queue, and the row that a message puts into the tables.\<close>

definition queued_by :: "'ctx plant \<Rightarrow> datagram \<Rightarrow> amqp_message option" where
  "queued_by pl dg =
     (case sent_by (pl_server pl) dg of
        None \<Rightarrow> None
      | Some (key, m) \<Rightarrow> if bound pl key then Some m else None)"

definition row_of_message :: "'ctx plant \<Rightarrow> amqp_message \<Rightarrow> position_row option" where
  "row_of_message pl m =
     (case check_body (am_body m) of
        Envelope envelope \<Rightarrow>
          (case row_of_envelope (pl_pg pl) envelope of Inl e \<Rightarrow> None | Inr r \<Rightarrow> Some r)
      | _ \<Rightarrow> None)"

fun datagram_in :: "plant_action \<Rightarrow> datagram option" where
  "datagram_in (Receive dg) = Some dg"
| "datagram_in _ = None"

definition received_in :: "plant_action list \<Rightarrow> datagram list" where
  "received_in as = List.map_filter datagram_in as"

fun loses_ack :: "plant_action \<Rightarrow> bool" where
  "loses_ack (LoseAck i fault) = True"
| "loses_ack _ = False"

lemma received_in_snoc [simp]:
  "received_in (as @ [a]) = received_in as @ (case datagram_in a of None \<Rightarrow> [] | Some dg \<Rightarrow> [dg])"
  by (simp add: received_in_def List.map_filter_def split: option.split)

lemma map_filter_snoc:
  "List.map_filter f (xs @ [x]) = List.map_filter f xs @ (case f x of None \<Rightarrow> [] | Some y \<Rightarrow> [y])"
  by (simp add: List.map_filter_def split: option.split)

lemma mset_remove_nth: "i < length xs \<Longrightarrow> add_mset (xs ! i) (mset (remove_nth i xs)) = mset xs"
  unfolding remove_nth_def by (metis add_mset_add_single id_take_nth_drop mset.simps(2) mset_append
      union_mset_add_mset_right)

lemma set_remove_nth: "i < length xs \<Longrightarrow> set xs = insert (xs ! i) (set (remove_nth i xs))"
  using mset_remove_nth [of i xs] by (metis set_mset_add_mset_insert set_mset_mset)

lemma receive_queue:
  "ps_queue (receive pl dg s) =
     ps_queue s @ (case queued_by pl dg of None \<Rightarrow> [] | Some m \<Rightarrow> [m])"
  "ps_backend (receive pl dg s) = ps_backend s"
  by (cases "datagram_outcome (pl_server pl) dg")
    (auto simp: receive_def Let_def handle_datagram_outcome handle_processing_error_def queued_by_def
      sent_failed split: prod.split)

text \<open>What an acknowledged delivery has done.\<close>

lemma consume_acked:
  assumes "consume pl m fault b = (Acked, b')"
  shows "be_db b' = (case row_of_message pl m of None \<Rightarrow> be_db b | Some r \<Rightarrow> store_row r (be_db b))
    \<and> \<not> unsettleable (pl_pg pl) (am_body m)"
  using app_on_message_settles [OF assms [unfolded consume_def]]
  by (cases rule: settles.cases)
    (auto simp: row_of_message_def unsettleable_def delivery_of_def)

lemma consume_requeued:
  assumes "consume pl m fault b = (Requeued e, b')"
  shows "be_db b' = be_db b"
  using app_on_message_settles [OF assms [unfolded consume_def]]
  by (cases rule: settles.cases) simp_all

lemma consume_settleable:
  assumes "\<not> unsettleable (pl_pg pl) (am_body m)"
    and "\<And>h. \<exists>c. extract_from_headers (pl_interp pl) (pl_otel pl) (map (\<lambda>(k, v). (k, JStr v)) h) = Inr c"
  shows "\<exists>b'. consume pl m None b = (Acked, b')"
proof -
  let ?h = "case dl_headers (delivery_of m None) of None \<Rightarrow> [] | Some h \<Rightarrow> h"
  obtain c where c: "extract_from_headers (pl_interp pl) (pl_otel pl) ?h = Inr c"
    using assms(2) [of "[]"] assms(2) [of "the (am_headers m)"]
    by (cases "am_headers m") (auto simp: delivery_of_def)
  show ?thesis
  proof (cases "check_body (am_body m)")
    case (Envelope envelope)
    then obtain r where "row_of_envelope (pl_pg pl) envelope = Inr r"
      using assms(1) by (auto simp: unsettleable_def split: sum.splits)
    then have "write_to_db (pl_pg pl) None envelope (be_db b) = (store_row r (be_db b), Inr ())"
      by (simp add: write_to_db_def persist_envelope_row)
    with Envelope c show ?thesis
      by (simp add: consume_def app_on_message_def delivery_of_def store_and_publish_def Let_def)
  qed (use assms(1) in \<open>simp_all add: consume_def app_on_message_def delivery_of_def unsettleable_def\<close>)
qed

end
