(* ===== verification/Ws_Session.thy ===== *)
theory Ws_Session
  imports Consumer
begin

text \<open>
  \<open>backend/api/ws.py\<close>: what a WebSocket client is sent. A session subscribes, reads a snapshot of the
  current positions, sends it, and then forwards the updates of its queue that are not older than
  the snapshot. The frames are the values given to \<open>send_json\<close>; the transport is third-party code.
\<close>

section \<open>Comparison of values\<close>

text \<open>\<open>a < b\<close> on values of unknown type: numbers compare by value, text by code points.\<close>

datatype number = NotANumber | Infinite bool | Scaled int int

fun number_of :: "json \<Rightarrow> number option" where
  "number_of (JBool b) = Some (Scaled (if b then 1 else 0) 0)"
| "number_of (JInt i) = Some (Scaled i 0)"
| "number_of (JFloat FNan) = Some NotANumber"
| "number_of (JFloat (FInf neg)) = Some (Infinite neg)"
| "number_of (JFloat (Fin neg m e)) = Some (Scaled (signed neg m) e)"
| "number_of _ = None"

text \<open>\<open>Scaled a e\<close> is \<open>a * 2 ^ e\<close>.\<close>

fun number_less :: "number \<Rightarrow> number \<Rightarrow> bool" where
  "number_less (Scaled a e) (Scaled b f) =
     (let m = min e f in a * 2 ^ nat (e - m) < b * 2 ^ nat (f - m))"
| "number_less (Infinite neg) (Scaled b f) = neg"
| "number_less (Scaled a e) (Infinite neg) = (\<not> neg)"
| "number_less (Infinite neg) (Infinite neg') = (neg \<and> \<not> neg')"
| "number_less _ _ = False"

definition py_less :: "json \<Rightarrow> json \<Rightarrow> bool res" where
  "py_less a b =
     (case (number_of a, number_of b) of
        (Some x, Some y) \<Rightarrow> Inr (number_less x y)
      | _ \<Rightarrow> (case (a, b) of (JStr s, JStr t) \<Rightarrow> Inr (s < t) | _ \<Rightarrow> Inl TypeError))"

lemma py_less_int [simp]: "py_less (JInt a) (JInt b) = Inr (a < b)"
  by (simp add: py_less_def)

fun hashable :: "json \<Rightarrow> bool" where
  "hashable (JArr vs) = False"
| "hashable (JObj d) = False"
| "hashable _ = True"

section \<open>Snapshot and staleness\<close>

text \<open>
  A Python dict whose keys are values. The keys that a snapshot brings are strings and the values
  integers, as the columns have it, so that equality of keys is equality of values.
\<close>

type_synonym ts_map = "(json \<times> json) list"

definition add_timestamp :: "ts_map \<Rightarrow> json dict \<Rightarrow> ts_map res" where
  "add_timestamp m row =
     (if has_key (lit ''tag_id'') row
      then bind_res (dict_item row (lit ''tag_id'')) (\<lambda>tag_id.
           bind_res (dict_item row (lit ''ts_utc_ms'')) (\<lambda>ts.
             if hashable tag_id then Inr (AList.update tag_id ts m) else Inl TypeError))
      else Inr m)"

fun add_timestamps :: "ts_map \<Rightarrow> json dict list \<Rightarrow> ts_map res" where
  "add_timestamps m [] = Inr m"
| "add_timestamps m (row # rows) = bind_res (add_timestamp m row) (\<lambda>m. add_timestamps m rows)"

definition snapshot_timestamps :: "json dict list \<Rightarrow> ts_map res" where
  "snapshot_timestamps snapshot = add_timestamps [] snapshot"

definition is_stale :: "json dict \<Rightarrow> ts_map \<Rightarrow> bool res" where
  "is_stale envelope snapshot_ts =
     (case get_default envelope (lit ''payload'') (JObj []) of
        JObj payload \<Rightarrow>
          let tag_id = get_or_null payload (lit ''tag_id'');
              ts = get_or_null payload (lit ''ts_utc_ms'')
          in if tag_id = JNull \<or> ts = JNull then Inr False
             else if \<not> hashable tag_id then Inl TypeError
             else py_less ts (case map_of snapshot_ts tag_id of None \<Rightarrow> JInt 0 | Some v \<Rightarrow> v)
      | _ \<Rightarrow> Inl AttributeError)"

section \<open>Sessions\<close>

datatype ws_phase =
    Subscribed
  | HasSnapshot "json dict list"
  | Streaming ts_map
  | Closed

record ws_session =
  ws_queue :: nat
  ws_phase :: ws_phase
  ws_sent :: "json list"

text \<open>The API process: its database, the broadcast, the gauge of connections and the sessions.\<close>

record api =
  api_db :: db
  api_broadcast :: "json dict broadcast"
  api_ws_active :: int
  api_sessions :: "ws_session list"

definition set_session :: "nat \<Rightarrow> ws_session \<Rightarrow> api \<Rightarrow> api" where
  "set_session i w st = st\<lparr>api_sessions := (api_sessions st)[i := w]\<rparr>"

text \<open>\<open>accept\<close>, \<open>WS_ACTIVE_CONNECTIONS.inc()\<close> and \<open>subscribe\<close>.\<close>

definition ws_open :: "api \<Rightarrow> api" where
  "ws_open st =
     (let (q, bc) = subscribe (api_broadcast st)
      in st\<lparr>api_broadcast := bc, api_ws_active := api_ws_active st + 1,
            api_sessions := api_sessions st @ [\<lparr>ws_queue = q, ws_phase = Subscribed, ws_sent = []\<rparr>]\<rparr>)"

text \<open>The \<open>finally\<close> clause, which every way out of the session runs.\<close>

definition ws_close :: "nat \<Rightarrow> api \<Rightarrow> api" where
  "ws_close i st =
     (let w = api_sessions st ! i
      in set_session i (w\<lparr>ws_phase := Closed\<rparr>)
           (st\<lparr>api_broadcast := unsubscribe (ws_queue w) (api_broadcast st),
               api_ws_active := api_ws_active st - 1\<rparr>))"

text \<open>\<open>_snapshot\<close>, run in an executor thread.\<close>

definition ws_read_snapshot :: "pg \<Rightarrow> nat \<Rightarrow> api \<Rightarrow> api" where
  "ws_read_snapshot pg i st =
     set_session i ((api_sessions st ! i)\<lparr>ws_phase := HasSnapshot (get_all_current_positions pg (api_db st))\<rparr>) st"

definition ws_send_snapshot :: "nat \<Rightarrow> json dict list \<Rightarrow> api \<Rightarrow> api" where
  "ws_send_snapshot i rows st =
     (let w = api_sessions st ! i; w = w\<lparr>ws_sent := ws_sent w @ [JArr (map JObj rows)]\<rparr>
      in (case snapshot_timestamps rows of
            Inl e \<Rightarrow> ws_close i (set_session i w st)
          | Inr m \<Rightarrow> set_session i (w\<lparr>ws_phase := Streaming m\<rparr>) st))"

text \<open>One round of the loop, for a queue that has an update; otherwise the session waits (\<open>None\<close>).\<close>

definition ws_forward :: "nat \<Rightarrow> ts_map \<Rightarrow> api \<Rightarrow> api option" where
  "ws_forward i m st =
     (let w = api_sessions st ! i
      in (case broadcast_get (ws_queue w) (api_broadcast st) of
            None \<Rightarrow> None
          | Some (envelope, bc) \<Rightarrow>
              let st = st\<lparr>api_broadcast := bc\<rparr>
              in (case is_stale envelope m of
                    Inl e \<Rightarrow> Some (ws_close i st)
                  | Inr True \<Rightarrow> Some st
                  | Inr False \<Rightarrow> Some (set_session i (w\<lparr>ws_sent := ws_sent w @ [JObj envelope]\<rparr>) st))))"

end
