(* ===== verification/Live_Updates.thy ===== *)
theory Live_Updates
  imports Ws_Session Pipeline
begin

text \<open>
  The API process as a labelled transition system: consumers that commit rows in executor threads
  and publish them later in the event loop, and WebSocket sessions that come and go, interleaved in
  any order. The label of a publication names the queues that were full, as the code logs it. This
  theory has the steps, the runs, and the invariants behind the properties of
  \<open>Live_Updates_Properties\<close>.
\<close>

section \<open>Steps\<close>

record system =
  sy_api :: api
  sy_inflight :: "json dict list"

datatype action =
    Write "json dict"
  | Publication "json dict" "nat list"
  | Open
  | ReadSnapshot nat
  | SendSnapshot nat
  | Forward nat
  | Close nat

definition sessions :: "system \<Rightarrow> ws_session list" where
  "sessions s = api_sessions (sy_api s)"

definition queue_items :: "system \<Rightarrow> nat \<Rightarrow> json dict list" where
  "queue_items s q = aq_items (bc_queues (api_broadcast (sy_api s)) ! q)"

definition with_api :: "api \<Rightarrow> system \<Rightarrow> system" where
  "with_api a s = s\<lparr>sy_api := a\<rparr>"

definition publish_update :: "json dict \<Rightarrow> api \<Rightarrow> api" where
  "publish_update e a = a\<lparr>api_broadcast := broadcast_publish e (api_broadcast a)\<rparr>"

definition full_queues :: "api \<Rightarrow> nat list" where
  "full_queues a =
     filter (\<lambda>q. queue_full (bc_queues (api_broadcast a) ! q)) (bc_subscribers (api_broadcast a))"

inductive step :: "pg \<Rightarrow> system \<Rightarrow> action \<Rightarrow> system \<Rightarrow> bool" for pg where
  committed: "write_to_db pg None e (api_db (sy_api s)) = (db', Inr ()) \<Longrightarrow>
    step pg s (Write e) \<lparr>sy_api = (sy_api s)\<lparr>api_db := db'\<rparr>, sy_inflight = sy_inflight s @ [e]\<rparr>"
| publication: "e \<in> set (sy_inflight s) \<Longrightarrow>
    step pg s (Publication e (full_queues (sy_api s)))
      \<lparr>sy_api = publish_update e (sy_api s), sy_inflight = remove1 e (sy_inflight s)\<rparr>"
| accepted: "step pg s Open (with_api (ws_open (sy_api s)) s)"
| read_snapshot: "i < length (sessions s) \<Longrightarrow> ws_phase (sessions s ! i) = Subscribed \<Longrightarrow>
    step pg s (ReadSnapshot i) (with_api (ws_read_snapshot pg i (sy_api s)) s)"
| send_snapshot: "i < length (sessions s) \<Longrightarrow> ws_phase (sessions s ! i) = HasSnapshot rows \<Longrightarrow>
    step pg s (SendSnapshot i) (with_api (ws_send_snapshot i rows (sy_api s)) s)"
| forward: "i < length (sessions s) \<Longrightarrow> ws_phase (sessions s ! i) = Streaming m \<Longrightarrow>
    ws_forward i m (sy_api s) = Some a \<Longrightarrow> step pg s (Forward i) (with_api a s)"
| close: "i < length (sessions s) \<Longrightarrow> ws_phase (sessions s ! i) \<noteq> Closed \<Longrightarrow>
    step pg s (Close i) (with_api (ws_close i (sy_api s)) s)"

inductive_cases step_write: "step pg s (Write e) s'"
inductive_cases step_publication: "step pg s (Publication e qs) s'"
inductive_cases step_forward: "step pg s (Forward i) s'"

inductive run :: "pg \<Rightarrow> system \<Rightarrow> action list \<Rightarrow> system \<Rightarrow> bool" for pg s0 where
  run_nil: "run pg s0 [] s0"
| run_snoc: "run pg s0 as s \<Longrightarrow> step pg s a s' \<Longrightarrow> run pg s0 (as @ [a]) s'"

text \<open>The process starts on the tables that earlier writes have left, without clients.\<close>

definition start :: "pg \<Rightarrow> int \<Rightarrow> (py_exc option \<times> json dict) list \<Rightarrow> system" where
  "start pg maxsize ws =
     \<lparr>sy_api = \<lparr>api_db = write_all pg ws empty_db, api_broadcast = new_broadcast maxsize,
                api_ws_active = 0, api_sessions = []\<rparr>,
      sy_inflight = []\<rparr>"

section \<open>Accounting of connections\<close>

definition is_open :: "ws_session \<Rightarrow> bool" where
  "is_open w \<longleftrightarrow> ws_phase w \<noteq> Closed"

definition accounted :: "api \<Rightarrow> bool" where
  "accounted a \<longleftrightarrow>
     bc_ok (api_broadcast a)
     \<and> distinct (map ws_queue (api_sessions a))
     \<and> (\<forall>w\<in>set (api_sessions a). ws_queue w < length (bc_queues (api_broadcast a)))
     \<and> bc_subscribers (api_broadcast a) = map ws_queue (filter is_open (api_sessions a))
     \<and> api_ws_active a = int (length (filter is_open (api_sessions a)))"

lemma unsubscribe_frame:
  "bc_subscribers (unsubscribe q bc) = filter (\<lambda>s. s \<noteq> q) (bc_subscribers bc)"
  "bc_queues (unsubscribe q bc) = bc_queues bc"
  by (simp_all add: unsubscribe_def)

lemma map_queue_update:
  "ws_queue w = ws_queue (ws ! i) \<Longrightarrow> map ws_queue (ws[i := w]) = map ws_queue ws"
  by (simp add: map_update list_update_same_conv) (metis list_update_id map_update)

lemma filter_open_update:
  assumes "i < length ws" "is_open w = is_open (ws ! i)" "ws_queue w = ws_queue (ws ! i)"
  shows "map ws_queue (filter is_open (ws[i := w])) = map ws_queue (filter is_open ws)"
proof -
  have "ws = take i ws @ ws ! i # drop (Suc i) ws" using assms(1) by (rule id_take_nth_drop)
  then have "map ws_queue (filter is_open ws) =
      map ws_queue (filter is_open (take i ws @ ws ! i # drop (Suc i) ws))" by simp
  then show ?thesis using assms by (simp add: upd_conv_take_nth_drop)
qed

lemma filter_open_close:
  assumes i: "i < length ws" and op: "is_open (ws ! i)" and d: "distinct (map ws_queue ws)"
    and w: "\<not> is_open w"
  shows "map ws_queue (filter is_open (ws[i := w])) =
    filter (\<lambda>q. q \<noteq> ws_queue (ws ! i)) (map ws_queue (filter is_open ws))"
proof -
  let ?a = "take i ws" and ?b = "drop (Suc i) ws"
  have ws: "ws = ?a @ ws ! i # ?b" using i by (rule id_take_nth_drop)
  have "distinct (map ws_queue (?a @ ws ! i # ?b))" using d ws by simp
  then have "filter (\<lambda>q. q \<noteq> ws_queue (ws ! i)) (map ws_queue (filter is_open ?a)) = map ws_queue (filter is_open ?a)"
    and "filter (\<lambda>q. q \<noteq> ws_queue (ws ! i)) (map ws_queue (filter is_open ?b)) = map ws_queue (filter is_open ?b)"
    by (auto simp: filter_id_conv) (metis imageI)+
  moreover have "map ws_queue (filter is_open ws) =
      map ws_queue (filter is_open (?a @ ws ! i # ?b))" using ws by simp
  ultimately show ?thesis using i w op by (simp add: upd_conv_take_nth_drop)
qed

lemma accounted_set_session:
  assumes "accounted a" "i < length (api_sessions a)"
    and "is_open w = is_open (api_sessions a ! i)" "ws_queue w = ws_queue (api_sessions a ! i)"
  shows "accounted (set_session i w a)"
proof -
  have "\<forall>v\<in>set ((api_sessions a)[i := w]). ws_queue v < length (bc_queues (api_broadcast a))"
    using assms set_update_subset_insert [of "api_sessions a" i w]
    by (auto simp: accounted_def)
  moreover have "length (filter is_open ((api_sessions a)[i := w])) = length (filter is_open (api_sessions a))"
    using arg_cong [OF filter_open_update [OF assms(2-4)], of length] by simp
  ultimately show ?thesis
    using assms filter_open_update [OF assms(2-4)]
    by (simp add: accounted_def set_session_def map_queue_update)
qed

lemma accounted_close:
  assumes a: "accounted a" and i: "i < length (api_sessions a)" and op: "is_open (api_sessions a ! i)"
  shows "accounted (ws_close i a)"
proof -
  let ?w = "(api_sessions a ! i)\<lparr>ws_phase := Closed\<rparr>"
  have d: "distinct (map ws_queue (api_sessions a))" using a by (simp add: accounted_def)
  have w: "\<not> is_open ?w" by (simp add: is_open_def)
  note close = filter_open_close [OF i op d w]
  have q: "\<forall>v\<in>set ((api_sessions a)[i := ?w]). ws_queue v < length (bc_queues (api_broadcast a))"
    using a i set_update_subset_insert [of "api_sessions a" i ?w] by (auto simp: accounted_def)
  have mem: "ws_queue (api_sessions a ! i) \<in> set (bc_subscribers (api_broadcast a))"
    using a i op by (auto simp: accounted_def)
  have subs: "distinct (bc_subscribers (api_broadcast a))" using a unfolding accounted_def bc_ok_def by blast
  have eq: "map ws_queue (filter is_open ((api_sessions a)[i := ?w])) =
      filter (\<lambda>q. q \<noteq> ws_queue (api_sessions a ! i)) (bc_subscribers (api_broadcast a))"
    using close a by (simp add: accounted_def)
  also have "\<dots> = remove1 (ws_queue (api_sessions a ! i)) (bc_subscribers (api_broadcast a))"
    using subs by (simp add: distinct_remove1_removeAll removeAll_filter_not_eq neq_commute)
  finally have "length (filter is_open ((api_sessions a)[i := ?w]))
      = length (bc_subscribers (api_broadcast a)) - 1"
    using mem by (metis length_map length_remove1)
  moreover have "int (length (bc_subscribers (api_broadcast a))) = api_ws_active a"
    using a by (simp add: accounted_def)
  moreover have "0 < length (bc_subscribers (api_broadcast a))" using mem by (rule length_pos_if_in_set)
  ultimately have active: "api_ws_active a - 1 = int (length (filter is_open ((api_sessions a)[i := ?w])))"
    by linarith
  have "bc_ok (unsubscribe (ws_queue (api_sessions a ! i)) (api_broadcast a))"
    using a by (simp add: accounted_def bc_ok_unsubscribe)
  then show ?thesis
    using a q eq active
    by (simp add: accounted_def ws_close_def set_session_def Let_def map_queue_update unsubscribe_frame)
qed

lemma accounted_get:
  assumes "accounted a" and "i < length (api_sessions a)"
    and "broadcast_get (ws_queue (api_sessions a ! i)) (api_broadcast a) = Some (e, bc)"
  shows "accounted (a\<lparr>api_broadcast := bc\<rparr>)"
proof -
  have q: "ws_queue (api_sessions a ! i) < length (bc_queues (api_broadcast a))"
    using assms(1,2) by (simp add: accounted_def)
  have "bc_ok bc" using bc_ok_get [OF _ assms(3) q] assms(1) by (simp add: accounted_def)
  moreover have "bc_subscribers bc = bc_subscribers (api_broadcast a)"
    "length (bc_queues bc) = length (bc_queues (api_broadcast a))"
    using assms(3) by (auto simp: broadcast_get_def split: option.splits)
  ultimately show ?thesis using assms(1) by (simp add: accounted_def)
qed

lemma accounted_open: "accounted a \<Longrightarrow> accounted (ws_open a)"
proof -
  assume a: "accounted a"
  obtain q bc where s: "subscribe (api_broadcast a) = (q, bc)" by (cases "subscribe (api_broadcast a)")
  have "bc_ok bc" using bc_ok_subscribe [OF _ s] a by (simp add: accounted_def)
  moreover have "q = length (bc_queues (api_broadcast a))"
    "bc_subscribers bc = bc_subscribers (api_broadcast a) @ [q]"
    "length (bc_queues bc) = Suc (length (bc_queues (api_broadcast a)))"
    using s by (auto simp: subscribe_def Let_def)
  moreover have "\<forall>w\<in>set (api_sessions a). ws_queue w \<noteq> length (bc_queues (api_broadcast a))"
    using a by (auto simp: accounted_def)
  ultimately show ?thesis
    using a by (auto simp: accounted_def ws_open_def s is_open_def less_Suc_eq)
qed

lemma accounted_forward:
  assumes a: "accounted a" and i: "i < length (api_sessions a)"
    and m: "ws_phase (api_sessions a ! i) = Streaming m" and f: "ws_forward i m a = Some a'"
  shows "accounted a'"
proof -
  have op: "is_open (api_sessions a ! i)" using m by (simp add: is_open_def)
  obtain e bc where g: "broadcast_get (ws_queue (api_sessions a ! i)) (api_broadcast a) = Some (e, bc)"
    using f by (auto simp: ws_forward_def Let_def split: option.splits)
  note ok = accounted_get [OF a i g]
  show ?thesis
  proof (cases "is_stale e m")
    case (Inl x)
    then have "a' = ws_close i (a\<lparr>api_broadcast := bc\<rparr>)" using f g by (simp add: ws_forward_def Let_def)
    moreover have "accounted (ws_close i (a\<lparr>api_broadcast := bc\<rparr>))"
      using i op by (intro accounted_close ok) simp_all
    ultimately show ?thesis by simp
  next
    case (Inr b)
    then show ?thesis using f g ok accounted_set_session [OF ok] i op
      by (cases b) (auto simp: ws_forward_def Let_def is_open_def)
  qed
qed

lemma accounted_send:
  assumes a: "accounted a" and i: "i < length (api_sessions a)"
    and m: "ws_phase (api_sessions a ! i) = HasSnapshot rows"
  shows "accounted (ws_send_snapshot i rows a)"
proof -
  let ?w = "(api_sessions a ! i)\<lparr>ws_sent := ws_sent (api_sessions a ! i) @ [JArr (map JObj rows)]\<rparr>"
  have "accounted (set_session i ?w a)" using m by (intro accounted_set_session a i) (simp_all add: is_open_def)
  then have "accounted (ws_close i (set_session i ?w a))"
    using i m by (intro accounted_close) (simp_all add: set_session_def is_open_def)
  moreover have "accounted (set_session i (?w\<lparr>ws_phase := Streaming ts\<rparr>) a)" for ts
    using m by (intro accounted_set_session a i) (simp_all add: is_open_def)
  ultimately show ?thesis by (simp add: ws_send_snapshot_def Let_def split: sum.split)
qed

lemma step_accounted: "step pg s a s' \<Longrightarrow> accounted (sy_api s) \<Longrightarrow> accounted (sy_api s')"
proof (induction rule: step.induct)
  case (publication e s)
  then show ?case by (simp add: accounted_def publish_update_def bc_ok_publish)
next
  case (read_snapshot i s)
  then show ?case
    by (simp add: with_api_def ws_read_snapshot_def accounted_set_session sessions_def is_open_def)
qed (simp_all add: with_api_def sessions_def accounted_open accounted_forward accounted_send
    accounted_close is_open_def, simp_all add: accounted_def)

lemma start_accounted: "accounted (sy_api (start pg maxsize ws))"
  by (simp add: accounted_def start_def new_broadcast_def bc_ok_def)

lemma run_accounted:
  "run pg (start pg maxsize ws) as s \<Longrightarrow> accounted (sy_api s)"
  by (induction rule: run.induct) (auto intro: start_accounted step_accounted)

end
