(* ===== verification/Update_Coverage.thy ===== *)
theory Update_Coverage
  imports Live_Updates
begin

text \<open>
  The invariant behind the claim that a client misses nothing: once a session has read its snapshot,
  every committed envelope is covered by the snapshot, or was sent, or waits in the queue of the
  session, or is still to be published, or was refused by the full queue.
\<close>

section \<open>The timestamps of a snapshot\<close>

lemma lookup_row_dict:
  "dict_get (row_dict r) (lit ''tag_id'') = Some (JStr (pr_tag_id r))"
  "dict_get (row_dict r) (lit ''ts_utc_ms'') = Some (JInt (pr_ts_utc_ms r))"
  by (simp_all add: row_dict_def current_pos_columns_def select_row_def)

lemma add_timestamp_row:
  "add_timestamp m (row_dict r) = Inr (AList.update (JStr (pr_tag_id r)) (JInt (pr_ts_utc_ms r)) m)"
  by (simp add: add_timestamp_def has_key_def lookup_row_dict dict_item_def)

lemma add_timestamps_rows:
  "distinct (map pr_tag_id rs) \<Longrightarrow>
    \<exists>m'. add_timestamps m (map row_dict rs) = Inr m' \<and>
      (\<forall>k. map_of m' k =
         (case find (\<lambda>r. JStr (pr_tag_id r) = k) rs of
            None \<Rightarrow> map_of m k | Some r \<Rightarrow> Some (JInt (pr_ts_utc_ms r))))"
proof (induction rs arbitrary: m)
  case (Cons r rs)
  then obtain m' where m': "add_timestamps (AList.update (JStr (pr_tag_id r)) (JInt (pr_ts_utc_ms r)) m)
      (map row_dict rs) = Inr m'"
    and look: "\<forall>k. map_of m' k = (case find (\<lambda>r. JStr (pr_tag_id r) = k) rs of
      None \<Rightarrow> map_of (AList.update (JStr (pr_tag_id r)) (JInt (pr_ts_utc_ms r)) m) k
      | Some r \<Rightarrow> Some (JInt (pr_ts_utc_ms r)))" by fastforce
  have "find (\<lambda>s. JStr (pr_tag_id s) = JStr (pr_tag_id r)) rs = None"
    using Cons.prems by (auto simp: find_None_iff) (metis imageI)
  then have "\<forall>k. map_of m' k = (case find (\<lambda>r. JStr (pr_tag_id r) = k) (r # rs) of
      None \<Rightarrow> map_of m k | Some r \<Rightarrow> Some (JInt (pr_ts_utc_ms r)))"
    using look by (auto simp: update_conv' split: option.splits)
  with m' show ?case by (simp add: add_timestamp_row)
qed simp

definition int_valued :: "ts_map \<Rightarrow> bool" where
  "int_valued m \<longleftrightarrow> (\<forall>k v. map_of m k = Some v \<longrightarrow> (\<exists>i. v = JInt i))"

lemma snapshot_covers:
  assumes "pg_contract pg"
  shows "\<exists>m. snapshot_timestamps (get_all_current_positions pg (write_all pg ws empty_db)) = Inr m
    \<and> int_valued m
    \<and> (\<forall>r\<in>set (db_events (write_all pg ws empty_db)).
         \<exists>t. map_of m (JStr (pr_tag_id r)) = Some (JInt t) \<and> pr_ts_utc_ms r \<le> t)"
proof -
  let ?db = "write_all pg ws empty_db"
  obtain rows where rows: "get_all_current_positions pg ?db = map row_dict rows"
    "distinct (map pr_tag_id rows)"
    "\<forall>r. r \<in> set rows \<longleftrightarrow> latest_in pr_tag_id pr_ts_utc_ms (pr_tag_id r) r (db_events ?db)"
    using snapshot_table [OF assms, of ws] by blast
  obtain m where m: "snapshot_timestamps (map row_dict rows) = Inr m"
    and look: "\<forall>k. map_of m k = (case find (\<lambda>r. JStr (pr_tag_id r) = k) rows of
      None \<Rightarrow> map_of [] k | Some r \<Rightarrow> Some (JInt (pr_ts_utc_ms r)))"
    using add_timestamps_rows [OF rows(2), of "[]"] unfolding snapshot_timestamps_def by blast
  have "int_valued m" by (auto simp: int_valued_def look split: option.splits)
  moreover have "\<exists>t. map_of m (JStr (pr_tag_id r)) = Some (JInt t) \<and> pr_ts_utc_ms r \<le> t"
    if r: "r \<in> set (db_events ?db)" for r
  proof -
    obtain s where s: "dict_get (db_current ?db) (pr_tag_id r) = Some s"
      using current.holds_latest_None [OF write_all_holds_latest _ r] by fastforce
    then have latest: "latest_in pr_tag_id pr_ts_utc_ms (pr_tag_id r) s (db_events ?db)"
      by (simp add: current_iff_latest)
    then have tag: "pr_tag_id s = pr_tag_id r" by (auto dest: latest_in_key)
    then have "s \<in> set rows" using rows(3) latest by metis
    then obtain s' where s': "find (\<lambda>x. JStr (pr_tag_id x) = JStr (pr_tag_id r)) rows = Some s'"
      using tag by (cases "find (\<lambda>x. JStr (pr_tag_id x) = JStr (pr_tag_id r)) rows")
        (auto simp: find_None_iff)
    then have "s' \<in> set rows" "pr_tag_id s' = pr_tag_id r" by (auto simp: find_Some_iff)
    then have "s' = s" using rows(2) \<open>s \<in> set rows\<close> tag by (metis distinct_map inj_onD)
    then show ?thesis using look s' latest_in_greatest [OF latest r] by simp
  qed
  ultimately show ?thesis using m rows(1) by auto
qed

section \<open>Timestamped envelopes\<close>

text \<open>An envelope for the tag \<open>t\<close> at the time \<open>k\<close>, both of the types the server publishes.\<close>

definition stamped :: "json dict \<Rightarrow> pystr \<Rightarrow> int \<Rightarrow> bool" where
  "stamped e t k \<longleftrightarrow>
     (\<exists>payload. dict_get e (lit ''payload'') = Some (JObj payload)
        \<and> dict_get payload (lit ''tag_id'') = Some (JStr t)
        \<and> dict_get payload (lit ''ts_utc_ms'') = Some (JInt k)) \<and> storable_text t"

lemma stamped_unique: "stamped e t k \<Longrightarrow> stamped e t' k' \<Longrightarrow> t' = t \<and> k' = k"
  by (auto simp: stamped_def)

lemma stamped_row:
  assumes pg: "pg_contract pg" and e: "stamped e t k" and r: "row_of_envelope pg e = Inr r"
  shows "pr_tag_id r = t \<and> pr_ts_utc_ms r = k"
proof -
  obtain payload where p: "dict_get e (lit ''payload'') = Some (JObj payload)"
    "dict_get payload (lit ''tag_id'') = Some (JStr t)"
    "dict_get payload (lit ''ts_utc_ms'') = Some (JInt k)" "storable_text t"
    using e by (auto simp: stamped_def)
  obtain params where params: "extract_params e = Inr params" and row: "row_of_params pg params = Inr r"
    using r by (auto simp: row_of_envelope_def res_simps)
  have "param params ''tag_id'' = JStr t" "param params ''ts_utc_ms'' = JInt k"
    using params p(1-3)
    by (auto simp: extract_params_def get_default_def dict_item_def param_def get_or_null_def res_simps
        split: option.splits)
  then have "not_null (pg_text pg (JStr t)) = Inr (pr_tag_id r)"
    "not_null (pg_bigint pg (JInt k)) = Inr (pr_ts_utc_ms r)"
    using row by (auto simp: row_of_params_def res_simps)
  then show ?thesis using pg p(4)
    by (auto simp: pg_contract_def not_null_def res_simps split: if_splits option.splits)
qed

lemma stale_stamped:
  assumes "stamped e t k" and "int_valued m"
  shows "is_stale e m = Inr (k < (case map_of m (JStr t) of Some (JInt i) \<Rightarrow> i | _ \<Rightarrow> 0))"
proof -
  obtain payload where p: "dict_get e (lit ''payload'') = Some (JObj payload)"
    "dict_get payload (lit ''tag_id'') = Some (JStr t)"
    "dict_get payload (lit ''ts_utc_ms'') = Some (JInt k)"
    using assms(1) by (auto simp: stamped_def)
  note payload = p
  show ?thesis
  proof (cases "map_of m (JStr t)")
    case None
    then show ?thesis by (simp add: payload is_stale_def get_default_def get_or_null_def)
  next
    case (Some v)
    with assms(2) obtain i where "v = JInt i" by (auto simp: int_valued_def)
    with Some show ?thesis by (simp add: payload is_stale_def get_default_def get_or_null_def)
  qed
qed

section \<open>Coverage\<close>

definition reaches :: "system \<Rightarrow> action list \<Rightarrow> nat \<Rightarrow> ts_map \<Rightarrow> json dict \<Rightarrow> bool" where
  "reaches s as i m e \<longleftrightarrow>
     (\<exists>t k t'. stamped e t k \<and> map_of m (JStr t) = Some (JInt t') \<and> k \<le> t')
     \<or> JObj e \<in> set (ws_sent (sessions s ! i))
     \<or> e \<in> set (queue_items s (ws_queue (sessions s ! i)))
     \<or> e \<in> set (sy_inflight s)
     \<or> (\<exists>qs. Publication e qs \<in> set as \<and> ws_queue (sessions s ! i) \<in> set qs)"

text \<open>Every committed update with a timestamp of this era reaches the session.\<close>

definition all_reach :: "system \<Rightarrow> action list \<Rightarrow> nat \<Rightarrow> ts_map \<Rightarrow> bool" where
  "all_reach s as i m \<longleftrightarrow>
     int_valued m \<and> (\<forall>e t k. Write e \<in> set as \<longrightarrow> stamped e t k \<longrightarrow> 0 \<le> k \<longrightarrow> reaches s as i m e)"

text \<open>The snapshot was sent first, and no update that was sent after it is older than it.\<close>

definition sent_fresh :: "ws_session \<Rightarrow> ts_map \<Rightarrow> bool" where
  "sent_fresh w m \<longleftrightarrow>
     (\<exists>rows rest. ws_sent w = JArr (map JObj rows) # rest \<and> snapshot_timestamps rows = Inr m)
     \<and> (\<forall>e t k t'. JObj e \<in> set (ws_sent w) \<longrightarrow> stamped e t k \<longrightarrow> map_of m (JStr t) = Some (JInt t') \<longrightarrow> t' \<le> k)"

definition session_ok :: "system \<Rightarrow> action list \<Rightarrow> nat \<Rightarrow> bool" where
  "session_ok s as i \<longleftrightarrow>
     (case ws_phase (sessions s ! i) of
        Subscribed \<Rightarrow> ws_sent (sessions s ! i) = []
      | HasSnapshot rows \<Rightarrow>
          ws_sent (sessions s ! i) = [] \<and> (\<exists>m. snapshot_timestamps rows = Inr m \<and> all_reach s as i m)
      | Streaming m \<Rightarrow> all_reach s as i m \<and> sent_fresh (sessions s ! i) m
      | Closed \<Rightarrow> True)"

definition coverage :: "pg \<Rightarrow> (py_exc option \<times> json dict) list \<Rightarrow> action list \<Rightarrow> system \<Rightarrow> bool" where
  "coverage pg ws as s \<longleftrightarrow>
     (\<exists>ws'. api_db (sy_api s) = write_all pg (ws @ ws') empty_db)
     \<and> (\<forall>e. Write e \<in> set as \<longrightarrow>
          (\<exists>r. row_of_envelope pg e = Inr r \<and> r \<in> set (db_events (api_db (sy_api s)))))
     \<and> (\<forall>i < length (sessions s). session_ok s as i)"

lemma reaches_mono:
  assumes "reaches s as i m e"
    and "set (ws_sent (sessions s ! i)) \<subseteq> set (ws_sent (sessions s' ! i))"
    and "ws_queue (sessions s' ! i) = ws_queue (sessions s ! i)"
    and "set (queue_items s (ws_queue (sessions s ! i))) \<subseteq> set (queue_items s' (ws_queue (sessions s ! i)))"
    and "set (sy_inflight s) \<subseteq> set (sy_inflight s')" and "set as \<subseteq> set as'"
  shows "reaches s' as' i m e"
  using assms unfolding reaches_def by auto

text \<open>A step that commits nothing and takes nothing from a session keeps what reaches it.\<close>

lemma all_reach_mono:
  assumes "all_reach s as i m"
    and "\<And>e. Write e \<in> set as' \<longleftrightarrow> Write e \<in> set as"
    and "\<And>e. reaches s as i m e \<Longrightarrow> reaches s' as' i m e"
  shows "all_reach s' as' i m"
  using assms unfolding all_reach_def by auto

lemma session_ok_lift:
  assumes ok: "session_ok s as i" and same: "sessions s' ! i = sessions s ! i"
    and lift: "\<And>m. is_open (sessions s ! i) \<Longrightarrow> all_reach s as i m \<Longrightarrow> all_reach s' as' i m"
  shows "session_ok s' as' i"
proof (cases "ws_phase (sessions s ! i)")
  case (HasSnapshot rows)
  then obtain m where "snapshot_timestamps rows = Inr m" "all_reach s as i m" "ws_sent (sessions s ! i) = []"
    using ok by (auto simp: session_ok_def)
  moreover have "all_reach s' as' i m" by (rule lift) (simp_all add: is_open_def HasSnapshot calculation)
  ultimately show ?thesis using HasSnapshot same by (simp add: session_ok_def)
next
  case (Streaming m)
  then have "all_reach s as i m" "sent_fresh (sessions s ! i) m" using ok by (auto simp: session_ok_def)
  moreover have "all_reach s' as' i m" by (rule lift) (simp_all add: is_open_def Streaming calculation)
  ultimately show ?thesis using Streaming same by (simp add: session_ok_def)
qed (use ok same in \<open>simp_all add: session_ok_def\<close>)

lemma session_ok_mono:
  assumes "session_ok s as i" and "sessions s' ! i = sessions s ! i"
    and "\<And>e. Write e \<in> set as' \<longleftrightarrow> Write e \<in> set as"
    and "\<And>m e. is_open (sessions s ! i) \<Longrightarrow> reaches s as i m e \<Longrightarrow> reaches s' as' i m e"
  shows "session_ok s' as' i"
  using assms(1,2)
proof (rule session_ok_lift)
  show "all_reach s' as' i m" if "is_open (sessions s ! i)" "all_reach s as i m" for m
    using that(2) assms(3) assms(4) [OF that(1)] by (rule all_reach_mono)
qed

section \<open>Every step keeps the coverage\<close>

lemma write_to_db_Inr:
  "write_to_db pg None e db = (db', Inr ()) \<longleftrightarrow>
     (\<exists>r. row_of_envelope pg e = Inr r \<and> db' = store_row r db)"
  by (cases "row_of_envelope pg e") (auto simp: write_to_db_def persist_envelope_row)

lemma coverage_write:
  assumes cov: "coverage pg ws as s" and w: "write_to_db pg None e (api_db (sy_api s)) = (db', Inr ())"
  shows "coverage pg ws (as @ [Write e])
    \<lparr>sy_api = (sy_api s)\<lparr>api_db := db'\<rparr>, sy_inflight = sy_inflight s @ [e]\<rparr>" (is "coverage pg ws ?as ?s")
proof -
  obtain r where r: "row_of_envelope pg e = Inr r" "db' = store_row r (api_db (sy_api s))"
    using w by (auto simp: write_to_db_Inr)
  obtain ws' where ws': "api_db (sy_api s) = write_all pg (ws @ ws') empty_db"
    using cov by (auto simp: coverage_def)
  have "db' = write_all pg ((ws @ ws') @ [(None, e)]) empty_db"
    by (simp only: write_all_snoc) (simp add: r ws' row_of_write_def)
  then have "\<exists>ws'. db' = write_all pg (ws @ ws') empty_db" by auto
  moreover have "\<exists>r. row_of_envelope pg e' = Inr r \<and> r \<in> set (db_events db')"
    if "Write e' \<in> set ?as" for e'
    using that cov r by (auto simp: coverage_def store_row_def)
  moreover have "session_ok ?s ?as i" if "i < length (sessions s)" for i
  proof -
    have same: "sessions ?s = sessions s" "queue_items ?s = queue_items s"
      by (simp_all add: sessions_def queue_items_def fun_eq_iff)
    have old: "reaches ?s ?as i m e'" if "reaches s as i m e'" for m e'
      by (rule reaches_mono [OF that]) (auto simp: same)
    have new: "reaches ?s ?as i m e" for m by (simp add: reaches_def)
    have "session_ok s as i" using cov that by (simp add: coverage_def)
    then show ?thesis
    proof (rule session_ok_lift)
      show "all_reach ?s ?as i m" if "all_reach s as i m" for m
        using that old new by (auto simp: all_reach_def)
    qed (simp add: same)
  qed
  ultimately show ?thesis by (auto simp: coverage_def sessions_def)
qed

lemma session_ok_publication:
  assumes acc: "accounted (sy_api s)" and i: "i < length (sessions s)" and ok: "session_ok s as i"
  shows "session_ok \<lparr>sy_api = publish_update e (sy_api s), sy_inflight = remove1 e (sy_inflight s)\<rparr>
    (as @ [Publication e (full_queues (sy_api s))]) i" (is "session_ok ?s ?as i")
proof (rule session_ok_mono [OF ok])
  show "sessions ?s ! i = sessions s ! i" by (simp add: sessions_def publish_update_def)
  show "Write e' \<in> set ?as \<longleftrightarrow> Write e' \<in> set as" for e' by simp
next
  fix m e'
  assume op: "is_open (sessions s ! i)" and r: "reaches s as i m e'"
  let ?q = "ws_queue (sessions s ! i)" and ?bc = "api_broadcast (sy_api s)"
  have ses: "sessions ?s = sessions s" by (simp add: sessions_def publish_update_def)
  have sub: "?q \<in> set (bc_subscribers ?bc)"
    using acc i op by (auto simp: accounted_def sessions_def)
  have bc: "bc_ok ?bc" using acc by (simp add: accounted_def)
  have items: "queue_items ?s ?q = (if queue_full (bc_queues ?bc ! ?q) then queue_items s ?q
      else queue_items s ?q @ [e])"
    using sub by (simp add: queue_items_def publish_update_def publish_nth [OF bc] put_nowait_def)
  have "queue_full (bc_queues ?bc ! ?q) \<Longrightarrow> ?q \<in> set (full_queues (sy_api s))"
    using sub by (simp add: full_queues_def)
  with r items show "reaches ?s ?as i m e'"
    by (cases "e' = e") (auto simp: reaches_def ses split: if_splits)
qed

lemma coverage_sessions:
  assumes "coverage pg ws as s" and "api_db (sy_api s') = api_db (sy_api s)"
    and "\<And>e. Write e \<in> set as' \<longleftrightarrow> Write e \<in> set as"
    and "\<And>i. i < length (sessions s') \<Longrightarrow> session_ok s' as' i"
  shows "coverage pg ws as' s'"
  using assms by (simp add: coverage_def)

text \<open>A session that does not move is not touched by another one that does.\<close>

lemma session_ok_other:
  assumes "session_ok s as i" and "sessions s' ! i = sessions s ! i"
    and "queue_items s' (ws_queue (sessions s ! i)) = queue_items s (ws_queue (sessions s ! i))"
    and "sy_inflight s' = sy_inflight s" and "\<And>e. a \<noteq> Write e"
  shows "session_ok s' (as @ [a]) i"
  using assms(1,2)
proof (rule session_ok_mono)
  show "Write e \<in> set (as @ [a]) \<longleftrightarrow> Write e \<in> set as" for e
    using assms(5) [of e] by auto
  show "reaches s' (as @ [a]) i m e" if "reaches s as i m e" for m e
    by (rule reaches_mono [OF that]) (use assms in auto)
qed

lemma coverage_read:
  assumes cov: "coverage pg ws as s" and pg: "pg_contract pg" and i: "i < length (sessions s)"
    and sub: "ws_phase (sessions s ! i) = Subscribed"
  shows "coverage pg ws (as @ [ReadSnapshot i]) (with_api (ws_read_snapshot pg i (sy_api s)) s)"
    (is "coverage pg ws ?as ?s")
proof (rule coverage_sessions [OF cov])
  show "api_db (sy_api ?s) = api_db (sy_api s)"
    by (simp add: with_api_def ws_read_snapshot_def set_session_def)
  show "Write e \<in> set ?as \<longleftrightarrow> Write e \<in> set as" for e by simp
next
  fix j assume j: "j < length (sessions ?s)"
  let ?rows = "get_all_current_positions pg (api_db (sy_api s))"
  have ses: "sessions ?s = (sessions s)[i := (sessions s ! i)\<lparr>ws_phase := HasSnapshot ?rows\<rparr>]"
    by (simp add: sessions_def with_api_def ws_read_snapshot_def set_session_def)
  show "session_ok ?s ?as j"
  proof (cases "j = i")
    case False
    with cov j ses show ?thesis
      by (intro session_ok_other [of s])
        (simp_all add: coverage_def with_api_def queue_items_def ws_read_snapshot_def set_session_def)
  next
    case True
    obtain ws' where "api_db (sy_api s) = write_all pg (ws @ ws') empty_db"
      using cov by (auto simp: coverage_def)
    then obtain m where m: "snapshot_timestamps ?rows = Inr m" "int_valued m"
      "\<forall>r\<in>set (db_events (api_db (sy_api s))).
         \<exists>t. map_of m (JStr (pr_tag_id r)) = Some (JInt t) \<and> pr_ts_utc_ms r \<le> t"
      using snapshot_covers [OF pg] by metis
    have "reaches ?s ?as i m e" if e: "Write e \<in> set as" "stamped e t k" for e t k
    proof -
      obtain r where r: "row_of_envelope pg e = Inr r" "r \<in> set (db_events (api_db (sy_api s)))"
        using cov e(1) by (auto simp: coverage_def)
      with stamped_row [OF pg e(2) r(1)] m(3) e(2) show ?thesis by (fastforce simp: reaches_def)
    qed
    then have "all_reach ?s ?as i m" using m(2) by (auto simp: all_reach_def)
    moreover have "ws_sent (sessions s ! i) = []"
      using cov i sub by (auto simp: coverage_def session_ok_def)
    ultimately show ?thesis using True ses i m(1) by (simp add: session_ok_def)
  qed
qed

lemma coverage_send:
  assumes cov: "coverage pg ws as s" and i: "i < length (sessions s)"
    and snap: "ws_phase (sessions s ! i) = HasSnapshot rows"
  shows "coverage pg ws (as @ [SendSnapshot i]) (with_api (ws_send_snapshot i rows (sy_api s)) s)"
    (is "coverage pg ws ?as ?s")
proof -
  have "session_ok s as i" using cov i by (simp add: coverage_def)
  then obtain m where m: "snapshot_timestamps rows = Inr m" "all_reach s as i m"
    and sent: "ws_sent (sessions s ! i) = []"
    using snap by (auto simp: session_ok_def)
  let ?w = "(sessions s ! i)\<lparr>ws_sent := [JArr (map JObj rows)], ws_phase := Streaming m\<rparr>"
  have s': "?s = with_api (set_session i ?w (sy_api s)) s"
    using m(1) sent by (simp add: ws_send_snapshot_def sessions_def Let_def)
  have ses: "sessions ?s = (sessions s)[i := ?w]"
    unfolding s' by (simp add: with_api_def sessions_def set_session_def)
  have rest: "queue_items ?s = queue_items s" "sy_inflight ?s = sy_inflight s"
    unfolding s' by (simp_all add: with_api_def queue_items_def set_session_def fun_eq_iff)
  have db: "api_db (sy_api ?s) = api_db (sy_api s)"
    unfolding s' by (simp add: with_api_def set_session_def)
  show ?thesis
  proof (rule coverage_sessions [OF cov db])
    fix j assume j: "j < length (sessions ?s)"
    show "session_ok ?s ?as j"
    proof (cases "j = i")
      case False
      with cov j ses rest show ?thesis
        by (intro session_ok_other [of s]) (simp_all add: coverage_def)
    next
      case True
      have "reaches ?s ?as i m e" if "reaches s as i m e" for e
        by (rule reaches_mono [OF that]) (use ses rest i sent in auto)
      then have "all_reach ?s ?as i m" using all_reach_mono [OF m(2), of ?as ?s] by auto
      then show ?thesis using True ses i by (auto simp: session_ok_def sent_fresh_def m(1))
    qed
  qed simp
qed

lemma coverage_close:
  assumes cov: "coverage pg ws as s" and i: "i < length (sessions s)" and a: "\<And>e. a \<noteq> Write e"
    and s': "sessions s' = (sessions s)[i := w]" "ws_phase w = Closed"
      "api_db (sy_api s') = api_db (sy_api s)" "sy_inflight s' = sy_inflight s"
      "\<And>j. j < length (sessions s) \<Longrightarrow> j \<noteq> i \<Longrightarrow>
         queue_items s' (ws_queue (sessions s ! j)) = queue_items s (ws_queue (sessions s ! j))"
  shows "coverage pg ws (as @ [a]) s'"
proof (rule coverage_sessions [OF cov s'(3)])
  show "Write e \<in> set (as @ [a]) \<longleftrightarrow> Write e \<in> set as" for e using a [of e] by auto
  fix j assume "j < length (sessions s')"
  then have j: "j < length (sessions s)" by (simp add: s'(1))
  show "session_ok s' (as @ [a]) j"
  proof (cases "j = i")
    case True
    then show ?thesis using i by (simp add: session_ok_def s'(1,2))
  next
    case False
    have "session_ok s as j" using cov j by (simp add: coverage_def)
    then show ?thesis
      by (rule session_ok_other) (use False j s' a in simp_all)
  qed
qed

lemma coverage_open:
  assumes cov: "coverage pg ws as s" and acc: "accounted (sy_api s)"
  shows "coverage pg ws (as @ [Open]) (with_api (ws_open (sy_api s)) s)" (is "coverage pg ws ?as ?s")
proof (rule coverage_sessions [OF cov])
  show "api_db (sy_api ?s) = api_db (sy_api s)"
    by (simp add: with_api_def ws_open_def split: prod.split)
  fix j assume j: "j < length (sessions ?s)"
  obtain q bc where sub: "subscribe (api_broadcast (sy_api s)) = (q, bc)"
    by (cases "subscribe (api_broadcast (sy_api s))")
  then have ses: "sessions ?s = sessions s @ [\<lparr>ws_queue = q, ws_phase = Subscribed, ws_sent = []\<rparr>]"
    by (simp add: sessions_def with_api_def ws_open_def)
  show "session_ok ?s ?as j"
  proof (cases "j < length (sessions s)")
    case True
    then have "session_ok s as j" using cov by (simp add: coverage_def)
    then show ?thesis
    proof (rule session_ok_other)
      have "ws_queue (sessions s ! j) < length (bc_queues (api_broadcast (sy_api s)))"
        using acc True by (simp add: accounted_def sessions_def)
      then show "queue_items ?s (ws_queue (sessions s ! j)) = queue_items s (ws_queue (sessions s ! j))"
        by (simp add: queue_items_def with_api_def ws_open_def subscribe_def Let_def nth_append)
    qed (use True ses in \<open>simp_all add: nth_append with_api_def\<close>)
  next
    case False
    with j ses show ?thesis by (simp add: session_ok_def nth_append)
  qed
qed simp

lemma queues_apart:
  "accounted a \<Longrightarrow> i < length (api_sessions a) \<Longrightarrow> j < length (api_sessions a) \<Longrightarrow> j \<noteq> i \<Longrightarrow>
    ws_queue (api_sessions a ! j) \<noteq> ws_queue (api_sessions a ! i)"
  by (auto simp: accounted_def distinct_conv_nth)

text \<open>A session after it has taken the first message of its queue.\<close>

definition took :: "nat \<Rightarrow> json dict list \<Rightarrow> api \<Rightarrow> api" where
  "took q es st = st\<lparr>api_broadcast := (api_broadcast st)\<lparr>bc_queues :=
     (bc_queues (api_broadcast st))[q := (bc_queues (api_broadcast st) ! q)\<lparr>aq_items := es\<rparr>]\<rparr>\<rparr>"

lemma ws_forward_Some:
  assumes "ws_forward i m st = Some a"
  obtains e es where
    "aq_items (bc_queues (api_broadcast st) ! ws_queue (api_sessions st ! i)) = e # es"
    and "case is_stale e m of
        Inl x \<Rightarrow> a = ws_close i (took (ws_queue (api_sessions st ! i)) es st)
      | Inr stale \<Rightarrow> a = set_session i
          (if stale then api_sessions st ! i
           else (api_sessions st ! i)\<lparr>ws_sent := ws_sent (api_sessions st ! i) @ [JObj e]\<rparr>)
          (took (ws_queue (api_sessions st ! i)) es st)"
proof -
  let ?q = "ws_queue (api_sessions st ! i)"
  obtain e bc where "broadcast_get ?q (api_broadcast st) = Some (e, bc)"
    using assms by (auto simp: ws_forward_def Let_def split: option.splits)
  moreover from this obtain es where "aq_items (bc_queues (api_broadcast st) ! ?q) = e # es"
    "st\<lparr>api_broadcast := bc\<rparr> = took ?q es st"
    by (auto simp: broadcast_get_def queue_get_def took_def split: option.splits list.splits)
  ultimately show thesis using assms that [of e es]
    by (auto simp: ws_forward_def Let_def set_session_def split: sum.splits bool.splits)
qed

lemma stale_covered:
  assumes "is_stale e m = Inr True" and "int_valued m" and "stamped e t k" and "0 \<le> k"
  shows "\<exists>t'. map_of m (JStr t) = Some (JInt t') \<and> k \<le> t'"
proof -
  have "k < (case map_of m (JStr t) of Some (JInt i) \<Rightarrow> i | _ \<Rightarrow> 0)"
    using assms(1) stale_stamped [OF assms(3,2)] by simp
  then show ?thesis using assms(2,4) by (auto simp: int_valued_def split: option.splits json.splits)
qed

lemma fresh_sent:
  assumes "is_stale e m = Inr False" and "int_valued m" and "sent_fresh w m"
  shows "sent_fresh (w\<lparr>ws_sent := ws_sent w @ [JObj e]\<rparr>) m"
proof -
  have "\<not> k < (case map_of m (JStr t) of Some (JInt i) \<Rightarrow> i | _ \<Rightarrow> 0)" if "stamped e t k" for t k
    using assms(1) stale_stamped [OF that assms(2)] by simp
  then show ?thesis using assms(3) by (fastforce simp: sent_fresh_def)
qed

lemma coverage_forward_closed:
  assumes cov: "coverage pg ws as s" and acc: "accounted (sy_api s)" and i: "i < length (sessions s)"
    and a: "a = ws_close i (took (ws_queue (sessions s ! i)) es (sy_api s))"
  shows "coverage pg ws (as @ [Forward i]) (with_api a s)" (is "coverage pg ws ?as ?s")
proof -
  have frame: "sessions ?s = (sessions s)[i := (sessions s ! i)\<lparr>ws_phase := Closed\<rparr>]"
    "api_db (sy_api ?s) = api_db (sy_api s)" "sy_inflight ?s = sy_inflight s"
    and queues: "bc_queues (api_broadcast (sy_api ?s)) = (bc_queues (api_broadcast (sy_api s)))
      [ws_queue (sessions s ! i) := (bc_queues (api_broadcast (sy_api s)) ! ws_queue (sessions s ! i))
         \<lparr>aq_items := es\<rparr>]"
    by (simp_all add: a took_def with_api_def ws_close_def set_session_def Let_def sessions_def
        unsubscribe_frame)
  show ?thesis
  proof (rule coverage_close [OF cov i _ frame(1) _ frame(2,3)])
    show "queue_items ?s (ws_queue (sessions s ! j)) = queue_items s (ws_queue (sessions s ! j))"
      if "j < length (sessions s)" "j \<noteq> i" for j
      using not_sym [OF queues_apart [OF acc, of i j]] that i
      by (simp add: queue_items_def queues sessions_def)
  qed simp_all
qed

lemma coverage_forward_taken:
  assumes cov: "coverage pg ws as s" and acc: "accounted (sy_api s)" and i: "i < length (sessions s)"
    and m: "ws_phase (sessions s ! i) = Streaming m"
    and es: "queue_items s (ws_queue (sessions s ! i)) = e # es" and st: "is_stale e m = Inr stale"
    and v: "v = (if stale then sessions s ! i
        else (sessions s ! i)\<lparr>ws_sent := ws_sent (sessions s ! i) @ [JObj e]\<rparr>)"
    and a: "a = set_session i v (took (ws_queue (sessions s ! i)) es (sy_api s))"
  shows "coverage pg ws (as @ [Forward i]) (with_api a s)" (is "coverage pg ws ?as ?s")
proof -
  let ?q = "ws_queue (sessions s ! i)"
  have ok: "all_reach s as i m" "sent_fresh (sessions s ! i) m"
    using cov i m by (auto simp: coverage_def session_ok_def)
  have int: "int_valued m" using ok(1) by (simp add: all_reach_def)
  have ses: "sessions ?s = (sessions s)[i := v]" and db: "api_db (sy_api ?s) = api_db (sy_api s)"
    and inf: "sy_inflight ?s = sy_inflight s"
    by (simp_all add: a took_def with_api_def sessions_def set_session_def)
  have "?q < length (bc_queues (api_broadcast (sy_api s)))"
    using acc i by (simp add: accounted_def sessions_def)
  then have items: "queue_items ?s q' = (if q' = ?q then es else queue_items s q')" for q'
    by (simp add: a took_def with_api_def set_session_def queue_items_def)
  have old: "reaches ?s ?as i m e'" if "reaches s as i m e'" "e' \<noteq> e" for e'
    using that es items ses i inf v by (auto simp: reaches_def)
  have this_one: "reaches ?s ?as i m e" if "stamped e t k" "0 \<le> k" for t k
    using stale_covered [OF _ int that] that(1) st ses i v by (cases stale) (auto simp: reaches_def)
  have "all_reach ?s ?as i m" using ok(1) old this_one unfolding all_reach_def by fastforce
  moreover have "sent_fresh v m" using fresh_sent [OF _ int ok(2)] st v ok(2) by (cases stale) simp_all
  ultimately have mine: "session_ok ?s ?as i" using ses i m v by (cases stale) (simp_all add: session_ok_def)
  have other: "session_ok ?s ?as j" if j: "j < length (sessions s)" "j \<noteq> i" for j
  proof -
    have "session_ok s as j" using cov j(1) by (simp add: coverage_def)
    then show ?thesis
      by (rule session_ok_other) (use j ses items inf queues_apart [OF acc, of i j] i in
        \<open>simp_all add: sessions_def\<close>)
  qed
  show ?thesis
    by (rule coverage_sessions [OF cov db]) (use mine other ses in auto)
qed

lemma coverage_forward:
  assumes cov: "coverage pg ws as s" and acc: "accounted (sy_api s)" and i: "i < length (sessions s)"
    and m: "ws_phase (sessions s ! i) = Streaming m" and f: "ws_forward i m (sy_api s) = Some a"
  shows "coverage pg ws (as @ [Forward i]) (with_api a s)"
  using f
proof (rule ws_forward_Some)
  fix e es
  assume es: "aq_items (bc_queues (api_broadcast (sy_api s)) ! ws_queue (api_sessions (sy_api s) ! i)) = e # es"
    and a: "case is_stale e m of
        Inl x \<Rightarrow> a = ws_close i (took (ws_queue (api_sessions (sy_api s) ! i)) es (sy_api s))
      | Inr stale \<Rightarrow> a = set_session i
          (if stale then api_sessions (sy_api s) ! i
           else (api_sessions (sy_api s) ! i)\<lparr>ws_sent := ws_sent (api_sessions (sy_api s) ! i) @ [JObj e]\<rparr>)
          (took (ws_queue (api_sessions (sy_api s) ! i)) es (sy_api s))"
  show ?thesis
  proof (cases "is_stale e m")
    case (Inl x)
    show ?thesis
      by (rule coverage_forward_closed [OF cov acc i, where es = es])
        (use a Inl in \<open>simp add: sessions_def\<close>)
  next
    case (Inr stale)
    show ?thesis
      by (rule coverage_forward_taken [OF cov acc i m _ Inr refl, where es = es])
        (use es a Inr in \<open>simp_all add: sessions_def queue_items_def\<close>)
  qed
qed

lemma step_coverage:
  assumes "step pg s a s'" and "pg_contract pg" and "accounted (sy_api s)" and cov: "coverage pg ws as s"
  shows "coverage pg ws (as @ [a]) s'"
  using assms(1)
proof (cases rule: step.cases)
  case (committed e db')
  with coverage_write [OF cov] show ?thesis by simp
next
  case (publication e)
  show ?thesis unfolding publication
  proof (rule coverage_sessions [OF cov])
    fix i assume "i < length (sessions \<lparr>sy_api = publish_update e (sy_api s), sy_inflight = remove1 e (sy_inflight s)\<rparr>)"
    then have i: "i < length (sessions s)" by (simp add: sessions_def publish_update_def)
    with cov show "session_ok \<lparr>sy_api = publish_update e (sy_api s), sy_inflight = remove1 e (sy_inflight s)\<rparr>
        (as @ [Publication e (full_queues (sy_api s))]) i"
      by (intro session_ok_publication assms(3)) (simp_all add: coverage_def)
  qed (simp_all add: publish_update_def)
next
  case accepted
  with coverage_open [OF cov assms(3)] show ?thesis by simp
next
  case (read_snapshot i)
  with coverage_read [OF cov assms(2)] show ?thesis by simp
next
  case (send_snapshot i rows)
  with coverage_send [OF cov] show ?thesis by simp
next
  case (forward i m a)
  with coverage_forward [OF cov assms(3)] show ?thesis by simp
next
  case (close i)
  show ?thesis unfolding close(1,2)
    by (rule coverage_close [OF cov close(3), where w = "(sessions s ! i)\<lparr>ws_phase := Closed\<rparr>"])
      (simp_all add: with_api_def ws_close_def set_session_def Let_def sessions_def queue_items_def
        unsubscribe_frame)
qed

lemma run_coverage:
  assumes "run pg (start pg maxsize ws) as s" and "pg_contract pg"
  shows "coverage pg ws as s"
  using assms(1)
proof (induction rule: run.induct)
  case run_nil
  have "\<exists>ws'. write_all pg ws empty_db = write_all pg (ws @ ws') empty_db"
    by (rule exI [of _ "[]"]) simp
  then show ?case by (simp add: coverage_def start_def sessions_def)
next
  case (run_snoc as s a s')
  then show ?case using step_coverage assms(2) run_accounted by blast
qed

text \<open>What the coverage of a reachable state says of a streaming session.\<close>

lemma run_reaches:
  assumes "pg_contract pg" and "run pg (start pg maxsize ws) as s"
    and "i < length (sessions s)" and "ws_phase (sessions s ! i) = Streaming m"
    and "Write e \<in> set as" and "stamped e t k" and "0 \<le> k"
  shows "(\<exists>t'. map_of m (JStr t) = Some (JInt t') \<and> k \<le> t')
    \<or> JObj e \<in> set (ws_sent (sessions s ! i))
    \<or> e \<in> set (queue_items s (ws_queue (sessions s ! i)))
    \<or> e \<in> set (sy_inflight s)
    \<or> (\<exists>qs. Publication e qs \<in> set as \<and> ws_queue (sessions s ! i) \<in> set qs)"
proof -
  have "session_ok s as i" using run_coverage [OF assms(2,1)] assms(3) by (simp add: coverage_def)
  then have "reaches s as i m e" using assms(4-7) by (auto simp: session_ok_def all_reach_def)
  then show ?thesis using stamped_unique [OF assms(6)] by (auto simp: reaches_def)
qed

end
