(* ===== verification/Site.thy ===== *)
theory Site
  imports Delivery Update_Coverage
begin

text \<open>
  The whole running program: the receiver, the queue of the broker, the API process with up to ten
  messages in hand (its prefetch count), and its WebSocket sessions, with the steps that can
  interleave. Handling a message takes two steps, as \<open>_on_message\<close> gives up control while its executor
  thread writes: the transaction commits, and later the update is published, counted and the message
  acknowledged. Between the two, other messages are handled and sessions move. A crash or restart
  loses what is in memory; what was not acknowledged is in the queue still.
\<close>

section \<open>State\<close>

record site =
  si_plant :: plant_state
  si_handling :: "(amqp_message \<times> json dict) list"
  si_active :: int
  si_sessions :: "ws_session list"

definition site_backend :: "site \<Rightarrow> backend" where
  "site_backend s = ps_backend (si_plant s)"

definition site_queue :: "site \<Rightarrow> amqp_message list" where
  "site_queue s = ps_queue (si_plant s)"

definition put_backend :: "backend \<Rightarrow> site \<Rightarrow> site" where
  "put_backend b s = s\<lparr>si_plant := (si_plant s)\<lparr>ps_backend := b\<rparr>\<rparr>"

definition put_queue :: "amqp_message list \<Rightarrow> site \<Rightarrow> site" where
  "put_queue q s = s\<lparr>si_plant := (si_plant s)\<lparr>ps_queue := q\<rparr>\<rparr>"

text \<open>The API process of the site, as \<open>Ws_Session\<close> has it.\<close>

definition api_of :: "site \<Rightarrow> api" where
  "api_of s =
     \<lparr>api_db = be_db (site_backend s), api_broadcast = be_broadcast (site_backend s),
      api_ws_active = si_active s, api_sessions = si_sessions s\<rparr>"

definition put_api :: "api \<Rightarrow> site \<Rightarrow> site" where
  "put_api a s =
     (put_backend ((site_backend s)\<lparr>be_db := api_db a, be_broadcast := api_broadcast a\<rparr>) s)
       \<lparr>si_active := api_ws_active a, si_sessions := api_sessions a\<rparr>"

definition site_start :: site where
  "site_start = \<lparr>si_plant = plant_start, si_handling = [], si_active = 0, si_sessions = []\<rparr>"

definition prefetch_count :: nat where
  "prefetch_count = 10"

text \<open>A message of the queue that is not in hand may be delivered while fewer than ten are.\<close>

definition deliverable :: "amqp_message \<Rightarrow> site \<Rightarrow> bool" where
  "deliverable m s \<longleftrightarrow>
     add_mset m (mset (map fst (si_handling s))) \<subseteq># mset (site_queue s)
     \<and> length (si_handling s) < prefetch_count"

text \<open>The way of a message through \<open>_on_message\<close> up to the write.\<close>

definition reaches_write :: "'ctx plant \<Rightarrow> amqp_message \<Rightarrow> json dict option" where
  "reaches_write pl m =
     (case check_body (am_body m) of
        Envelope e \<Rightarrow>
          (case extract_from_headers (pl_interp pl) (pl_otel pl)
                  (case dl_headers (delivery_of m None) of None \<Rightarrow> [] | Some h \<Rightarrow> h) of
             Inl x \<Rightarrow> None
           | Inr c \<Rightarrow> Some e)
      | _ \<Rightarrow> None)"

definition published :: "json dict \<Rightarrow> backend \<Rightarrow> backend" where
  "published e b =
     count_processed ((observe_write b)\<lparr>be_broadcast := broadcast_publish e (be_broadcast b)\<rparr>)"

section \<open>Steps\<close>

text \<open>
  \<open>Finish m qs acked\<close>: the update of \<open>m\<close> is published, which the full queues \<open>qs\<close> refuse, and the
  acknowledgement reaches the broker or is lost. \<open>Discard\<close>: a message that is dropped; \<open>GiveBack\<close>: one
  that raises, with what the pool raises.
\<close>

datatype site_action =
    Arrive datagram
  | Store amqp_message
  | Finish amqp_message "nat list" bool
  | Discard amqp_message
  | GiveBack amqp_message "py_exc option"
  | Session action
  | Reboot

fun session_action :: "action \<Rightarrow> bool" where
  "session_action (Write e) = False"
| "session_action (Publication e qs) = False"
| "session_action _ = True"

inductive site_step :: "'ctx plant \<Rightarrow> site \<Rightarrow> site_action \<Rightarrow> site \<Rightarrow> bool" for pl where
  arrived: "site_step pl s (Arrive dg) (s\<lparr>si_plant := receive pl dg (si_plant s)\<rparr>)"
| stored: "deliverable m s \<Longrightarrow> reaches_write pl m = Some e \<Longrightarrow>
    write_to_db (pl_pg pl) None e (be_db (site_backend s)) = (db', Inr ()) \<Longrightarrow>
    site_step pl s (Store m)
      ((put_backend ((site_backend s)\<lparr>be_db := db'\<rparr>) s)\<lparr>si_handling := si_handling s @ [(m, e)]\<rparr>)"
| finished: "(m, e) \<in> set (si_handling s) \<Longrightarrow>
    site_step pl s (Finish m (full_queues (api_of s)) acked)
      ((put_queue (if acked then remove1 m (site_queue s) else site_queue s)
         (put_backend (published e (site_backend s)) s))\<lparr>si_handling := remove1 (m, e) (si_handling s)\<rparr>)"
| discarded: "deliverable m s \<Longrightarrow> check_body (am_body m) \<in> {Malformed, MissingTag} \<Longrightarrow>
    consume pl m None (site_backend s) = (Acked, b) \<Longrightarrow>
    site_step pl s (Discard m) (put_queue (remove1 m (site_queue s)) (put_backend b s))"
| given_back: "deliverable m s \<Longrightarrow> consume pl m fault (site_backend s) = (Requeued x, b) \<Longrightarrow>
    site_step pl s (GiveBack m fault) (put_backend b s)"
| session: "session_action a \<Longrightarrow> step (pl_pg pl) \<lparr>sy_api = api_of s, sy_inflight = []\<rparr> a t \<Longrightarrow>
    site_step pl s (Session a) (put_api (sy_api t) s)"
| rebooted: "site_step pl s Reboot
    ((put_backend (fresh_backend (be_db (site_backend s))) s)
       \<lparr>si_handling := [], si_active := 0, si_sessions := []\<rparr>)"

inductive site_run :: "'ctx plant \<Rightarrow> site \<Rightarrow> site_action list \<Rightarrow> site \<Rightarrow> bool" for pl s0 where
  site_idle: "site_run pl s0 [] s0"
| site_more: "site_run pl s0 as s \<Longrightarrow> site_step pl s a s' \<Longrightarrow> site_run pl s0 (as @ [a]) s'"

inductive_cases site_step_store: "site_step pl s (Store m) s'"
inductive_cases site_step_finish: "site_step pl s (Finish m qs acked) s'"
inductive_simps site_step_arrive: "site_step pl s (Arrive dg) s'"
inductive_simps site_step_reboot: "site_step pl s Reboot s'"

lemmas site_accessors = site_backend_def site_queue_def put_backend_def put_queue_def api_of_def put_api_def

text \<open>What the actions of a run name: the datagrams, the envelopes written, and the current lifetime.\<close>

fun arrival :: "site_action \<Rightarrow> datagram option" where
  "arrival (Arrive dg) = Some dg"
| "arrival _ = None"

fun write_of :: "'ctx plant \<Rightarrow> site_action \<Rightarrow> json dict option" where
  "write_of pl (Store m) = reaches_write pl m"
| "write_of pl _ = None"

definition arrivals :: "site_action list \<Rightarrow> datagram list" where
  "arrivals as = List.map_filter arrival as"

definition written_in :: "'ctx plant \<Rightarrow> site_action list \<Rightarrow> json dict list" where
  "written_in pl as = List.map_filter (write_of pl) as"

definition since_reboot :: "site_action list \<Rightarrow> site_action list" where
  "since_reboot as = rev (takeWhile (\<lambda>a. a \<noteq> Reboot) (rev as))"

lemma arrivals_snoc: "arrivals (as @ [a]) = arrivals as @ (case arrival a of None \<Rightarrow> [] | Some dg \<Rightarrow> [dg])"
  by (simp add: arrivals_def map_filter_snoc)

lemma written_in_snoc: "written_in pl (as @ [a]) = written_in pl as @ (case write_of pl a of None \<Rightarrow> [] | Some e \<Rightarrow> [e])"
  by (simp add: written_in_def map_filter_snoc)

lemma since_reboot_snoc: "since_reboot (as @ [a]) = (if a = Reboot then [] else since_reboot as @ [a])"
  by (simp add: since_reboot_def)

section \<open>One message at a time\<close>

text \<open>
  Handled without anything in between, a message does to the tables, the subscribers and the counters
  what \<open>_on_message\<close> does as a whole.
\<close>

lemma consume_in_two_steps:
  assumes "reaches_write pl m = Some e"
    and "write_to_db (pl_pg pl) None e (be_db b) = (db', Inr ())"
  shows "consume pl m None b = (Acked, published e (b\<lparr>be_db := db'\<rparr>))"
  using assms
  by (auto simp: reaches_write_def consume_def app_on_message_def store_and_publish_def delivery_of_def
      published_def observe_write_def split: checked.splits sum.splits option.splits)

lemma consume_not_written:
  assumes "consume pl m None b = (Acked, b')" and "check_body (am_body m) \<in> {Malformed, MissingTag}"
  shows "be_db b' = be_db b" "be_broadcast b' = be_broadcast b"
  using assms by (auto simp: consume_def app_on_message_def delivery_of_def)

lemma consume_given_back:
  assumes "consume pl m fault b = (Requeued x, b')"
  shows "be_db b' = be_db b" "be_broadcast b' = be_broadcast b"
  using app_on_message_settles [OF assms [unfolded consume_def]]
  by (cases rule: settles.cases; simp)+

end
