(* ===== verification/Delivery_Properties.thy ===== *)
theory Delivery_Properties
  imports Delivery
begin

text \<open>
  Properties of the composed system: every datagram that the receiver publishes to the queue is
  stored exactly once for each acknowledged delivery, the tables are right once the queue is empty,
  and the queue can be emptied unless it holds a message that no delivery can settle.
\<close>

section \<open>Invariants of a run\<close>

text \<open>The messages that have left the queue, and the extra deliveries whose acknowledgement was lost.\<close>

definition conserved ::
  "'ctx plant \<Rightarrow> plant_action list \<Rightarrow> plant_state \<Rightarrow> amqp_message list \<Rightarrow> amqp_message list \<Rightarrow> bool" where
  "conserved pl as s settled repeated \<longleftrightarrow>
     mset (List.map_filter (queued_by pl) (received_in as)) = mset (ps_queue s) + mset settled
     \<and> mset (db_events (be_db (ps_backend s))) =
         mset (List.map_filter (row_of_message pl) settled) + mset (List.map_filter (row_of_message pl) repeated)
     \<and> set repeated \<subseteq> set (ps_queue s) \<union> set settled
     \<and> length repeated = length (filter loses_ack as)
     \<and> list_all (\<lambda>m. \<not> unsettleable (pl_pg pl) (am_body m)) settled"

definition rebuilt :: "db \<Rightarrow> bool" where
  "rebuilt db \<longleftrightarrow> db_current db = foldl (\<lambda>t r. upsert_row r t) [] (db_events db)"

lemma rebuilt_store_row: "rebuilt db \<Longrightarrow> rebuilt (store_row r db)"
  by (simp add: rebuilt_def store_row_def)

lemma rebuilt_empty: "rebuilt empty_db"
  by (simp add: rebuilt_def empty_db_def)

lemma plant_step_rebuilt:
  "plant_step pl s a s' \<Longrightarrow> rebuilt (be_db (ps_backend s)) \<Longrightarrow> rebuilt (be_db (ps_backend s'))"
  by (induction rule: plant_step.induct)
    (auto simp: receive_queue fresh_backend_def consume_requeued rebuilt_store_row
      dest!: consume_acked split: option.split)

lemma run_rebuilt: "plant_run pl plant_start as s \<Longrightarrow> rebuilt (be_db (ps_backend s))"
  by (induction rule: plant_run.induct)
    (auto simp: plant_start_def fresh_backend_def rebuilt_empty dest: plant_step_rebuilt)

lemma conserved_receive:
  assumes "conserved pl as s settled repeated"
  shows "conserved pl (as @ [Receive dg]) (receive pl dg s) settled repeated"
  using assms by (auto simp: conserved_def map_filter_snoc receive_queue split: option.splits)

lemma conserved_acked:
  assumes c: "conserved pl as s settled repeated" and i: "i < length (ps_queue s)"
    and b: "consume pl (ps_queue s ! i) fault (ps_backend s) = (Acked, b)"
  shows "conserved pl (as @ [Deliver i fault]) (s\<lparr>ps_queue := remove_nth i (ps_queue s), ps_backend := b\<rparr>)
    (settled @ [ps_queue s ! i]) repeated"
proof -
  note b' = consume_acked [OF b]
  have "mset (db_events (be_db b)) = mset (List.map_filter (row_of_message pl) (settled @ [ps_queue s ! i]))
      + mset (List.map_filter (row_of_message pl) repeated)"
    using c b' by (auto simp: conserved_def map_filter_snoc store_row_def split: option.splits)
  then show ?thesis
    using c b' mset_remove_nth [OF i] set_remove_nth [OF i]
    by (auto simp: conserved_def simp flip: add_mset_add_single)
qed

lemma conserved_ack_lost:
  assumes c: "conserved pl as s settled repeated" and i: "i < length (ps_queue s)"
    and b: "consume pl (ps_queue s ! i) fault (ps_backend s) = (Acked, b)"
  shows "conserved pl (as @ [LoseAck i fault]) (s\<lparr>ps_backend := b\<rparr>) settled (repeated @ [ps_queue s ! i])"
  using c consume_acked [OF b] nth_mem [OF i]
  by (auto simp: conserved_def map_filter_snoc store_row_def split: option.splits)

lemma conserved_same_db:
  assumes "conserved pl as s settled repeated" and "be_db b = be_db (ps_backend s)"
    and "datagram_in a = None" "\<not> loses_ack a"
  shows "conserved pl (as @ [a]) (s\<lparr>ps_backend := b\<rparr>) settled repeated"
  using assms by (simp add: conserved_def)

lemma step_conserved:
  assumes "plant_step pl s a s'" and c: "conserved pl as s settled repeated"
  shows "\<exists>settled' repeated'. conserved pl (as @ [a]) s' settled' repeated'"
  using assms(1)
proof (cases rule: plant_step.cases)
  case (received dg)
  with conserved_receive [OF c] show ?thesis by blast
next
  case (acked i fault b)
  with conserved_acked [OF c] show ?thesis by blast
next
  case (given_back i fault e b)
  have "conserved pl (as @ [Deliver i fault]) (s\<lparr>ps_backend := b\<rparr>) settled repeated"
    by (rule conserved_same_db [OF c consume_requeued [OF given_back(4)]]) simp_all
  with given_back show ?thesis by blast
next
  case (ack_lost i fault b)
  with conserved_ack_lost [OF c] show ?thesis by blast
next
  case restarted
  have "conserved pl (as @ [Restart]) (s\<lparr>ps_backend := fresh_backend (be_db (ps_backend s))\<rparr>) settled repeated"
    by (rule conserved_same_db [OF c]) (simp_all add: fresh_backend_def)
  with restarted show ?thesis by blast
qed

lemma run_conserved:
  "plant_run pl plant_start as s \<Longrightarrow> \<exists>settled repeated. conserved pl as s settled repeated"
proof (induction rule: plant_run.induct)
  case idle
  have "conserved pl [] plant_start [] []"
    by (simp add: conserved_def received_in_def List.map_filter_def plant_start_def fresh_backend_def empty_db_def)
  then show ?case by blast
next
  case (further as s a s')
  then show ?case using step_conserved by blast
qed

section \<open>A sample plant\<close>

definition sample_plant :: "unit plant" where
  "sample_plant =
     \<lparr>pl_server = sample_server, pl_consumer = sample_broker\<lparr>rc_routing_key := lit ''raw''\<rparr>,
      pl_routes = (\<lambda>t binding_key key. binding_key = key), pl_pg = sample_pg, pl_interp = ascii_interp,
      pl_otel = sample_otel\<rparr>"

abbreviation status_datagram :: datagram where
  "status_datagram \<equiv> sample_datagram (lit ''status2:1,A1,2,3'')"

lemma sample_message:
  obtains m r where "queued_by sample_plant status_datagram = Some m" "row_of_message sample_plant m = Some r"
    "pr_tag_id r = lit ''A1''"
proof -
  have "case queued_by sample_plant status_datagram of
      None \<Rightarrow> False
    | Some m \<Rightarrow> (case row_of_message sample_plant m of None \<Rightarrow> False | Some r \<Rightarrow> pr_tag_id r = lit ''A1'')"
    by code_simp
  then show thesis using that by (auto split: option.splits)
qed

lemma set_map_filter: "set (List.map_filter f xs) = {y. \<exists>x\<in>set xs. f x = Some y}"
  by (force simp: List.map_filter_def)

lemma row_settleable: "row_of_message pl m = Some r \<Longrightarrow> \<not> unsettleable (pl_pg pl) (am_body m)"
  by (auto simp: row_of_message_def unsettleable_def split: checked.splits sum.splits)

lemma sample_headers:
  "\<exists>c. extract_from_headers (pl_interp sample_plant) (pl_otel sample_plant) h = Inr c"
  by (simp add: sample_plant_def extract_from_headers_def sample_otel_def)

lemma sample_delivery:
  obtains s where "plant_run sample_plant plant_start [Receive status_datagram, Deliver 0 None] s"
    "ps_queue s = []"
proof -
  obtain m r where m: "queued_by sample_plant status_datagram = Some m" "row_of_message sample_plant m = Some r"
    by (rule sample_message)
  let ?s = "receive sample_plant status_datagram plant_start"
  have q: "ps_queue ?s = [m]" using m(1) by (simp add: receive_queue plant_start_def)
  obtain b where b: "consume sample_plant m None (ps_backend ?s) = (Acked, b)"
    using consume_settleable [OF row_settleable [OF m(2)] sample_headers] by blast
  have "plant_run sample_plant plant_start ([] @ [Receive status_datagram]) ?s"
    by (rule plant_run.further [OF plant_run.idle plant_step.received])
  then have "plant_run sample_plant plant_start (([] @ [Receive status_datagram]) @ [Deliver 0 None])
      (?s\<lparr>ps_queue := remove_nth 0 (ps_queue ?s), ps_backend := b\<rparr>)"
    by (rule plant_run.further) (rule plant_step.acked, use q b in simp_all)
  then show thesis using that q by (simp add: remove_nth_def)
qed

section \<open>Properties\<close>

text \<open>
  C3. Nothing is lost between the receiver and the tables, and nothing is stored without cause. In
  whatever order datagrams arrive, messages are delivered, given back and delivered again, and the
  API process restarts, the messages of the accepted datagrams are the ones in the queue and the
  ones that were settled; each settled message has put its row into the history once, and once more
  for every delivery whose acknowledgement was lost, and the history holds nothing else.
\<close>

theorem stored_once_per_settlement:
  assumes "plant_run pl plant_start as s"
  shows "\<exists>settled repeated.
    mset (List.map_filter (queued_by pl) (received_in as)) = mset (ps_queue s) + mset settled
    \<and> mset (db_events (be_db (ps_backend s))) =
        mset (List.map_filter (row_of_message pl) settled) + mset (List.map_filter (row_of_message pl) repeated)
    \<and> set repeated \<subseteq> set (ps_queue s) \<union> set settled
    \<and> length repeated = length (filter loses_ack as)
    \<and> list_all (\<lambda>m. \<not> unsettleable (pl_pg pl) (am_body m)) settled"
  using run_conserved [OF assms] by (simp add: conserved_def)

lemma stored_once_per_settlement_witness:
  "\<exists>s r. plant_run sample_plant plant_start [Receive status_datagram, Deliver 0 None] s
    \<and> db_events (be_db (ps_backend s)) = [r] \<and> pr_tag_id r = lit ''A1''"
proof -
  obtain s where s: "plant_run sample_plant plant_start [Receive status_datagram, Deliver 0 None] s"
    "ps_queue s = []" by (rule sample_delivery)
  obtain m r where m: "queued_by sample_plant status_datagram = Some m" "row_of_message sample_plant m = Some r"
    "pr_tag_id r = lit ''A1''" by (rule sample_message)
  have "List.map_filter (queued_by sample_plant) (received_in [Receive status_datagram, Deliver 0 None]) = [m]"
    using m(1) by (simp add: received_in_def List.map_filter_def)
  with stored_once_per_settlement [OF s(1)] s(2) obtain settled repeated where
    "mset settled = {#m#}" "repeated = []"
    "mset (db_events (be_db (ps_backend s))) =
        mset (List.map_filter (row_of_message sample_plant) settled)
      + mset (List.map_filter (row_of_message sample_plant) repeated)" by auto
  then have "db_events (be_db (ps_backend s)) = [r]"
    using m(2) by (auto simp: List.map_filter_def)
  with s(1) m(3) show ?thesis by blast
qed

text \<open>
  C15. Once the queue is empty, the current position of a tag is at least as new as every position of
  the tag that was accepted into the queue, and is one of them, whatever the order of delivery was
  and however often messages were delivered again.
\<close>

theorem drained_positions:
  assumes run: "plant_run pl plant_start as s" and empty: "ps_queue s = []"
    and dg: "dg \<in> set (received_in as)" "queued_by pl dg = Some m" "row_of_message pl m = Some r"
  shows "\<exists>cur. dict_get (db_current (be_db (ps_backend s))) (pr_tag_id r) = Some cur
    \<and> pr_tag_id cur = pr_tag_id r \<and> pr_ts_utc_ms r \<le> pr_ts_utc_ms cur
    \<and> (\<exists>dg'\<in>set (received_in as). \<exists>m'. queued_by pl dg' = Some m' \<and> row_of_message pl m' = Some cur)"
proof -
  let ?db = "be_db (ps_backend s)"
  obtain settled repeated where c: "conserved pl as s settled repeated" using run_conserved [OF run] by blast
  have queued: "set (List.map_filter (queued_by pl) (received_in as)) = set settled"
    using c empty by (metis conserved_def add_0 mset.simps(1) mset_eq_setD)
  have "set (db_events ?db) = set (List.map_filter (row_of_message pl) (settled @ repeated))"
    by (rule mset_eq_setD) (use c in \<open>simp add: conserved_def List.map_filter_def\<close>)
  also have "\<dots> = {r. \<exists>m\<in>set (settled @ repeated). row_of_message pl m = Some r}"
    by (rule set_map_filter)
  finally have rows: "set (db_events ?db) = {r. \<exists>m\<in>set settled. row_of_message pl m = Some r}"
    using c empty by (auto simp: conserved_def)
  have in_settled: "m' \<in> set settled \<longleftrightarrow> (\<exists>dg'\<in>set (received_in as). queued_by pl dg' = Some m')" for m'
    unfolding queued [symmetric] set_map_filter by blast
  have r: "r \<in> set (db_events ?db)" using rows in_settled dg by blast
  have t: "db_current ?db = foldl (\<lambda>t r. upsert_row r t) [] (db_events ?db)"
    using run_rebuilt [OF run] by (simp add: rebuilt_def)
  have "dict_get (db_current ?db) (pr_tag_id r) \<noteq> None"
    unfolding t using current.holds_latest_None [OF
      current.upserts_hold_latest [OF current.holds_latest_Nil [of "[]"], of "db_events ?db"], of "pr_tag_id r" r] r
    by auto
  then obtain cur where cur: "dict_get (db_current ?db) (pr_tag_id r) = Some cur" by blast
  then have "latest_in pr_tag_id pr_ts_utc_ms (pr_tag_id r) cur (db_events ?db)"
    unfolding t by (simp add: rebuilt_iff_latest)
  then have "pr_tag_id cur = pr_tag_id r" "cur \<in> set (db_events ?db)" "pr_ts_utc_ms r \<le> pr_ts_utc_ms cur"
    using latest_in_greatest [of pr_tag_id pr_ts_utc_ms "pr_tag_id r" cur "db_events ?db" r] r
    by (auto dest: latest_in_key)
  then show ?thesis using cur rows in_settled by blast
qed

lemma drained_positions_witness:
  "\<exists>s cur. plant_run sample_plant plant_start [Receive status_datagram, Deliver 0 None] s
    \<and> dict_get (db_current (be_db (ps_backend s))) (lit ''A1'') = Some cur"
proof -
  obtain s where s: "plant_run sample_plant plant_start [Receive status_datagram, Deliver 0 None] s"
    "ps_queue s = []" by (rule sample_delivery)
  obtain m r where m: "queued_by sample_plant status_datagram = Some m" "row_of_message sample_plant m = Some r"
    "pr_tag_id r = lit ''A1''" by (rule sample_message)
  have "status_datagram \<in> set (received_in [Receive status_datagram, Deliver 0 None])"
    by (simp add: received_in_def List.map_filter_def)
  from drained_positions [OF s this m(1,2)] s(1) m(3) show ?thesis by auto
qed

section \<open>Messages that leave the queue, and messages that cannot\<close>

lemma unsettleable_stays:
  assumes "plant_step pl s a s'" and "m \<in> set (ps_queue s)" "unsettleable (pl_pg pl) (am_body m)"
  shows "m \<in> set (ps_queue s')"
  using assms
proof (induction rule: plant_step.induct)
  case (acked i s fault b)
  then have "m \<noteq> ps_queue s ! i" using consume_acked by blast
  then show ?case using acked.prems(1) set_remove_nth [OF acked.hyps(1)] by auto
qed (simp_all add: receive_queue)

lemma unsettleable_stays_run:
  "plant_run pl s as s' \<Longrightarrow> m \<in> set (ps_queue s) \<Longrightarrow> unsettleable (pl_pg pl) (am_body m) \<Longrightarrow>
    m \<in> set (ps_queue s')"
  by (induction rule: plant_run.induct) (auto dest: unsettleable_stays)

lemma plant_run_append: "plant_run pl s' bs s'' \<Longrightarrow> plant_run pl s as s' \<Longrightarrow> plant_run pl s (as @ bs) s''"
proof (induction rule: plant_run.induct)
  case (further bs t b t')
  from plant_run.further [OF further.IH [OF further.prems] further.hyps(2)] show ?case by simp
qed simp

lemma queue_emptied:
  assumes "list_all (\<lambda>m. \<not> unsettleable (pl_pg pl) (am_body m)) (ps_queue s)"
    and headers: "\<And>h. \<exists>c. extract_from_headers (pl_interp pl) (pl_otel pl) (map (\<lambda>(k, v). (k, JStr v)) h) = Inr c"
  shows "\<exists>s'. plant_run pl s (replicate (length (ps_queue s)) (Deliver 0 None)) s' \<and> ps_queue s' = []"
  using assms(1)
proof (induction "ps_queue s" arbitrary: s)
  case Nil
  then show ?case by (intro exI [of _ s]) (simp add: plant_run.idle)
next
  case (Cons m ms)
  then have m: "\<not> unsettleable (pl_pg pl) (am_body m)" "ps_queue s = m # ms" by (cases "ps_queue s"; simp)+
  obtain b where "consume pl m None (ps_backend s) = (Acked, b)"
    using consume_settleable [OF m(1) headers] by blast
  then have "plant_step pl s (Deliver 0 None) (s\<lparr>ps_queue := remove_nth 0 (ps_queue s), ps_backend := b\<rparr>)"
    by (intro plant_step.acked) (simp_all add: m(2))
  then have one: "plant_run pl s [Deliver 0 None] (s\<lparr>ps_queue := ms, ps_backend := b\<rparr>)"
    using plant_run.further [OF plant_run.idle] by (simp add: m(2) remove_nth_def)
  obtain s' where "plant_run pl (s\<lparr>ps_queue := ms, ps_backend := b\<rparr>) (replicate (length ms) (Deliver 0 None)) s'"
    "ps_queue s' = []"
    using Cons.hyps(1) [of "s\<lparr>ps_queue := ms, ps_backend := b\<rparr>"] Cons.prems m(2) by auto
  with plant_run_append [OF _ one] show ?case by (auto simp: m(2))
qed

text \<open>
  C34. The queue can be emptied from any state exactly when it holds no message that no delivery can
  settle: the others are gone after one delivery each, with the database at hand, and such a message
  stays whatever happens. Reading the trace headers, which the receiver has written, does not raise.
\<close>

theorem queue_empties_iff:
  assumes "\<And>h. \<exists>c. extract_from_headers (pl_interp pl) (pl_otel pl) (map (\<lambda>(k, v). (k, JStr v)) h) = Inr c"
  shows "(\<exists>as s'. plant_run pl s as s' \<and> ps_queue s' = []) \<longleftrightarrow>
    list_all (\<lambda>m. \<not> unsettleable (pl_pg pl) (am_body m)) (ps_queue s)"
proof
  assume "\<exists>as s'. plant_run pl s as s' \<and> ps_queue s' = []"
  then obtain as s' where "plant_run pl s as s'" "ps_queue s' = []" by blast
  then show "list_all (\<lambda>m. \<not> unsettleable (pl_pg pl) (am_body m)) (ps_queue s)"
    using unsettleable_stays_run by (fastforce simp: list_all_iff)
next
  assume "list_all (\<lambda>m. \<not> unsettleable (pl_pg pl) (am_body m)) (ps_queue s)"
  then show "\<exists>as s'. plant_run pl s as s' \<and> ps_queue s' = []"
    using queue_emptied [OF _ assms] by blast
qed

lemma queue_empties_iff_witness:
  "\<not> (\<exists>as s'. plant_run sample_plant
        (plant_start\<lparr>ps_queue := [\<lparr>am_body = lit ''[1]'', am_headers = None\<rparr>]\<rparr>) as s' \<and> ps_queue s' = [])"
proof -
  have "check_body (lit ''[1]'') = Raised AttributeError" by code_simp
  then show ?thesis
    by (subst queue_empties_iff [OF sample_headers]) (simp add: unsettleable_def)
qed

section \<open>Messages that are not routed\<close>

lemma run_server:
  "plant_run pl s0 as s \<Longrightarrow> ps_server s = serve (pl_server pl) (map Datagram (received_in as)) (ps_server s0)"
proof (induction rule: plant_run.induct)
  case (further as s a s')
  have snoc: "serve sv (map Datagram (dgs @ [dg])) st = handle_datagram sv dg (serve sv (map Datagram dgs) st)"
    for sv dgs dg and st :: server_state
    by (induction dgs arbitrary: st) simp_all
  from further.hyps(2) show ?case
    by (cases rule: plant_step.cases)
      (use further.IH in \<open>simp_all add: receive_def Let_def snoc del: map_append\<close>)
qed (simp add: received_in_def List.map_filter_def)

text \<open>
  When the topic of the receiver is not one that the binding of the queue takes, the two settings
  being independent, everything is lost in the exchange: the receiver publishes and counts every
  accepted datagram and reports no error, but the queue and the history stay empty.
\<close>

theorem misrouted_messages_lost:
  assumes "plant_run pl plant_start as s"
    and "\<not> bound pl (routing_key_of (sv_broker (pl_server pl)) (sv_topic (pl_server pl)))"
  shows "ps_queue s = [] \<and> db_events (be_db (ps_backend s)) = []
    \<and> ex_messages_total (ss_exchange (ps_server s)) =
        length (List.map_filter (sent_by (pl_server pl)) (received_in as))"
proof -
  have "queued_by pl dg = None" for dg
    using assms(2) by (auto simp: queued_by_def sent_by_def datagram_outcome_def res_simps
        split: option.splits sum.splits prod.splits)
  then have none: "List.map_filter (queued_by pl) dgs = []" for dgs by (simp add: List.map_filter_def)
  obtain settled repeated where c: "conserved pl as s settled repeated"
    using run_conserved [OF assms(1)] by blast
  then have "ps_queue s = []" "settled = []" by (simp_all add: conserved_def none)
  moreover from this c have "db_events (be_db (ps_backend s)) = []"
    by (auto simp: conserved_def List.map_filter_def)
  moreover have "datagrams (map Datagram dgs) = dgs" for dgs by (induction dgs) simp_all
  ultimately show ?thesis
    using run_server [OF assms(1)] serve_outcomes [of "pl_server pl" "map Datagram (received_in as)" "ps_server plant_start"]
    by (simp add: plant_start_def)
qed

lemma misrouted_messages_lost_witness:
  "ps_queue (receive (sample_plant\<lparr>pl_consumer := sample_broker\<rparr>) status_datagram plant_start) = []"
proof -
  let ?pl = "sample_plant\<lparr>pl_consumer := sample_broker\<rparr>"
  have "plant_run ?pl plant_start ([] @ [Receive status_datagram]) (receive ?pl status_datagram plant_start)"
    by (rule plant_run.further [OF plant_run.idle plant_step.received])
  moreover have "\<not> bound ?pl (routing_key_of (sv_broker (pl_server ?pl)) (sv_topic (pl_server ?pl)))"
    by (simp add: bound_def routing_key_of_def sample_plant_def sample_server_def sample_broker_def lit_def)
  ultimately show ?thesis using misrouted_messages_lost by blast
qed

end
