(* ===== verification/Live_Updates_Properties.thy ===== *)
theory Live_Updates_Properties
  imports Update_Coverage
begin

text \<open>
  Properties of the live updates: clients miss nothing and never go back in time, connections are
  accounted for, and queues drain. A sample run is the witness of each.
\<close>

section \<open>A sample run\<close>

definition sample_session :: ws_session where
  "sample_session = \<lparr>ws_queue = 0, ws_phase = Streaming [], ws_sent = [JArr []]\<rparr>"

definition sample_broadcast :: "json dict list \<Rightarrow> json dict broadcast" where
  "sample_broadcast items =
     \<lparr>bc_maxsize = 256, bc_subscribers = [0], bc_queues = [\<lparr>aq_maxsize = 256, aq_items = items\<rparr>]\<rparr>"

definition streaming_system :: system where
  "streaming_system =
     \<lparr>sy_api = \<lparr>api_db = empty_db, api_broadcast = sample_broadcast [], api_ws_active = 1,
                api_sessions = [sample_session]\<rparr>,
      sy_inflight = []\<rparr>"

definition published_system :: system where
  "published_system =
     \<lparr>sy_api = \<lparr>api_db = store_row sample_position empty_db,
                api_broadcast = sample_broadcast [sample_envelope], api_ws_active = 1,
                api_sessions = [sample_session]\<rparr>,
      sy_inflight = []\<rparr>"

lemma sample_connect:
  "run sample_pg (start sample_pg 256 []) [Open, ReadSnapshot 0, SendSnapshot 0] streaming_system"
proof -
  let ?s0 = "start sample_pg 256 []"
  let ?s1 = "with_api (ws_open (sy_api ?s0)) ?s0"
  let ?s2 = "with_api (ws_read_snapshot sample_pg 0 (sy_api ?s1)) ?s1"
  have 1: "run sample_pg ?s0 ([] @ [Open]) ?s1" by (rule run_snoc [OF run_nil step.accepted])
  have 2: "step sample_pg ?s1 (ReadSnapshot 0) ?s2"
    by (rule step.read_snapshot)
      (simp_all add: sessions_def with_api_def ws_open_def subscribe_def start_def new_broadcast_def Let_def)
  have 3: "step sample_pg ?s2 (SendSnapshot 0) (with_api (ws_send_snapshot 0 [] (sy_api ?s2)) ?s2)"
    by (rule step.send_snapshot)
      (simp_all add: sessions_def with_api_def ws_open_def subscribe_def start_def new_broadcast_def Let_def
        ws_read_snapshot_def set_session_def get_all_current_positions_def empty_db_def sample_pg_def)
  have 4: "with_api (ws_send_snapshot 0 [] (sy_api ?s2)) ?s2 = streaming_system"
    by (simp add: with_api_def ws_open_def subscribe_def start_def new_broadcast_def Let_def
        ws_read_snapshot_def ws_send_snapshot_def set_session_def snapshot_timestamps_def
        streaming_system_def sample_session_def sample_broadcast_def)
  from run_snoc [OF run_snoc [OF 1 2] 3] show ?thesis by (simp only: 4 append.simps)
qed

lemma sample_publish:
  "run sample_pg (start sample_pg 256 [])
     [Open, ReadSnapshot 0, SendSnapshot 0, Write sample_envelope, Publication sample_envelope []]
     published_system"
proof -
  let ?s3 = streaming_system
  let ?s4 = "\<lparr>sy_api = (sy_api ?s3)\<lparr>api_db := store_row sample_position empty_db\<rparr>,
      sy_inflight = sy_inflight ?s3 @ [sample_envelope]\<rparr>"
  have 1: "step sample_pg ?s3 (Write sample_envelope) ?s4"
    by (rule step.committed) (simp add: write_to_db_Inr sample_row streaming_system_def)
  have 2: "step sample_pg ?s4 (Publication sample_envelope (full_queues (sy_api ?s4)))
      \<lparr>sy_api = publish_update sample_envelope (sy_api ?s4),
       sy_inflight = remove1 sample_envelope (sy_inflight ?s4)\<rparr>"
    by (rule step.publication) simp
  have 3: "full_queues (sy_api ?s4) = []"
    by (simp add: full_queues_def streaming_system_def sample_broadcast_def queue_full_def)
  have 4: "\<lparr>sy_api = publish_update sample_envelope (sy_api ?s4),
       sy_inflight = remove1 sample_envelope (sy_inflight ?s4)\<rparr> = published_system"
    by (simp add: publish_update_def streaming_system_def published_system_def sample_broadcast_def
        broadcast_publish_def offer_def put_nowait_def queue_full_def)
  from run_snoc [OF run_snoc [OF sample_connect 1] 2] show ?thesis
    by (simp only: 3 4 append.simps)
qed

lemma sample_stamped: "stamped sample_envelope (lit ''T1'') 1700000000000"
proof -
  have "storable_text (lit ''T1'')" by code_simp
  then show ?thesis by (simp add: stamped_def sample_envelope_def)
qed

section \<open>Properties\<close>



text \<open>
  C10. A client never goes back in time: the first frame of a session that streams is the snapshot,
  and no update sent after it is older than the row the snapshot had for its tag.
\<close>

theorem client_never_goes_back:
  assumes "pg_contract pg" and "run pg (start pg maxsize ws) as s"
    and "i < length (sessions s)" and "ws_phase (sessions s ! i) = Streaming m"
  shows "\<exists>rows rest. ws_sent (sessions s ! i) = JArr (map JObj rows) # rest
    \<and> snapshot_timestamps rows = Inr m
    \<and> (\<forall>e t k t'. JObj e \<in> set rest \<longrightarrow> stamped e t k \<longrightarrow> map_of m (JStr t) = Some (JInt t') \<longrightarrow> t' \<le> k)"
proof -
  have "session_ok s as i" using run_coverage [OF assms(2,1)] assms(3) by (simp add: coverage_def)
  then have "sent_fresh (sessions s ! i) m" using assms(4) by (simp add: session_ok_def)
  then show ?thesis by (auto simp: sent_fresh_def)
qed

lemma client_never_goes_back_witness:
  "\<exists>rows rest. ws_sent (sessions published_system ! 0) = JArr (map JObj rows) # rest
    \<and> snapshot_timestamps rows = Inr []"
proof -
  have s: "sessions published_system ! 0 = sample_session" "0 < length (sessions published_system)"
    by (simp_all add: sessions_def published_system_def)
  have "ws_phase (sessions published_system ! 0) = Streaming []" by (simp add: s sample_session_def)
  from client_never_goes_back [OF sample_pg_contract sample_publish s(2) this] show ?thesis by blast
qed

text \<open>
  C18. Connections are accounted for: in every reachable state the gauge of active connections and
  the number of subscribers are the number of sessions that are not closed, each of them owns a
  queue of its own, and exactly their queues are subscribed.
\<close>

theorem connections_accounted:
  assumes "run pg (start pg maxsize ws) as s"
  shows "api_ws_active (sy_api s) = int (length (filter is_open (sessions s)))
    \<and> subscriber_count (api_broadcast (sy_api s)) = length (filter is_open (sessions s))
    \<and> distinct (map ws_queue (sessions s))
    \<and> (\<forall>w\<in>set (sessions s). ws_queue w \<in> set (bc_subscribers (api_broadcast (sy_api s))) \<longleftrightarrow> is_open w)"
proof -
  have a: "accounted (sy_api s)" by (rule run_accounted [OF assms])
  then have subs: "bc_subscribers (api_broadcast (sy_api s)) = map ws_queue (filter is_open (sessions s))"
    and d: "distinct (map ws_queue (sessions s))"
    by (simp_all add: accounted_def sessions_def)
  have "ws_queue w \<in> set (bc_subscribers (api_broadcast (sy_api s))) \<longleftrightarrow> is_open w"
    if "w \<in> set (sessions s)" for w
    using d that by (auto simp: subs distinct_map dest: inj_onD)
  then show ?thesis using a subs d by (simp add: accounted_def sessions_def subscriber_count_def)
qed

lemma connections_accounted_witness: "api_ws_active (sy_api published_system) = 1"
  using connections_accounted [OF sample_publish]
  by (simp add: sessions_def published_system_def sample_session_def is_open_def)

lemma run_cons: "run pg s' as s'' \<Longrightarrow> step pg s a s' \<Longrightarrow> run pg s (a # as) s''"
proof (induction rule: run.induct)
  case run_nil
  from run.run_snoc [OF run.run_nil run_nil] show ?case by simp
next
  case (run_snoc as s1 b s2)
  then have "run pg s (a # as) s1" by simp
  from run.run_snoc [OF this run_snoc.hyps(2)] show ?case by simp
qed

lemma forward_progress:
  assumes acc: "accounted (sy_api s)" and i: "i < length (sessions s)"
    and m: "ws_phase (sessions s ! i) = Streaming m"
    and q: "queue_items s (ws_queue (sessions s ! i)) = e # es"
  obtains s' where "step pg s (Forward i) s'" "length (sessions s') = length (sessions s)"
    "ws_queue (sessions s' ! i) = ws_queue (sessions s ! i)"
    "queue_items s' (ws_queue (sessions s ! i)) = es"
    "ws_phase (sessions s' ! i) = Streaming m \<or> ws_phase (sessions s' ! i) = Closed"
proof -
  let ?q = "ws_queue (sessions s ! i)" and ?bc = "api_broadcast (sy_api s)"
  have len: "?q < length (bc_queues ?bc)" using acc i by (simp add: accounted_def sessions_def)
  define bc where "bc = ?bc\<lparr>bc_queues := (bc_queues ?bc)[?q := (bc_queues ?bc ! ?q)\<lparr>aq_items := es\<rparr>]\<rparr>"
  have g: "broadcast_get ?q ?bc = Some (e, bc)"
    using q by (simp add: broadcast_get_def queue_get_def queue_items_def bc_def)
  obtain a where a: "ws_forward i m (sy_api s) = Some a" and sess: "length (api_sessions a) = length (sessions s)"
    "ws_queue (api_sessions a ! i) = ?q" "bc_queues (api_broadcast a) = bc_queues bc"
    "ws_phase (api_sessions a ! i) = Streaming m \<or> ws_phase (api_sessions a ! i) = Closed"
  proof (cases "is_stale e m")
    case (Inl x)
    then show ?thesis using g i m
      by (intro that [of "ws_close i ((sy_api s)\<lparr>api_broadcast := bc\<rparr>)"])
        (simp_all add: ws_forward_def sessions_def Let_def ws_close_def set_session_def unsubscribe_frame)
  next
    case (Inr stale)
    then show ?thesis using g i m
      by (cases stale)
        (auto intro!: that simp: ws_forward_def sessions_def Let_def set_session_def)
  qed
  show ?thesis
  proof (rule that [of "with_api a s"])
    show "step pg s (Forward i) (with_api a s)" by (rule step.forward [OF i m a])
  qed (use sess len in \<open>simp_all add: with_api_def sessions_def queue_items_def bc_def\<close>)
qed

text \<open>
  A waiting queue drains. From every reachable state, letting a streaming session run for as many
  rounds as it has updates waiting (or fewer, when an update makes it close) empties its queue: no
  round blocks while an update waits.
\<close>

theorem queue_drains:
  assumes "run pg (start pg maxsize ws) as s" and "i < length (sessions s)"
    and "ws_phase (sessions s ! i) = Streaming m"
  shows "\<exists>n s'. n \<le> length (queue_items s (ws_queue (sessions s ! i)))
    \<and> run pg s (replicate n (Forward i)) s'
    \<and> (ws_phase (sessions s' ! i) = Closed
       \<or> ws_phase (sessions s' ! i) = Streaming m \<and> queue_items s' (ws_queue (sessions s ! i)) = [])"
proof -
  have "accounted (sy_api s)" by (rule run_accounted [OF assms(1)])
  then show ?thesis using assms(2,3)
  proof (induction "queue_items s (ws_queue (sessions s ! i))" arbitrary: s)
    case Nil
    then show ?case by (intro exI [of _ 0] exI [of _ s]) (simp add: run_nil)
  next
    case (Cons e es)
    obtain s1 where s1: "step pg s (Forward i) s1" "length (sessions s1) = length (sessions s)"
      "ws_queue (sessions s1 ! i) = ws_queue (sessions s ! i)"
      "queue_items s1 (ws_queue (sessions s ! i)) = es"
      "ws_phase (sessions s1 ! i) = Streaming m \<or> ws_phase (sessions s1 ! i) = Closed"
      by (rule forward_progress [OF Cons.prems Cons.hyps(2) [symmetric]])
    show ?case
    proof (cases "ws_phase (sessions s1 ! i) = Closed")
      case True
      have "run pg s [Forward i] s1" by (rule run_cons [OF run_nil s1(1)])
      with True Cons.hyps(2) show ?thesis
        by (intro exI [of _ 1] exI [of _ s1]) (simp add: Cons.hyps(2) [symmetric])
    next
      case False
      with s1(5) have st: "ws_phase (sessions s1 ! i) = Streaming m" by simp
      have es: "es = queue_items s1 (ws_queue (sessions s1 ! i))" using s1(3,4) by simp
      obtain n s' where n: "n \<le> length es" "run pg s1 (replicate n (Forward i)) s'"
        "ws_phase (sessions s' ! i) = Closed
         \<or> ws_phase (sessions s' ! i) = Streaming m \<and> queue_items s' (ws_queue (sessions s1 ! i)) = []"
        using Cons.hyps(1) [OF es step_accounted [OF s1(1) Cons.prems(1)]] Cons.prems(2) s1(2) st es
        by auto
      have "run pg s (replicate (Suc n) (Forward i)) s'" using run_cons [OF n(2) s1(1)] by simp
      then show ?thesis using n s1(3)
        by (intro exI [of _ "Suc n"] exI [of _ s']) (simp add: Cons.hyps(2) [symmetric])
    qed
  qed
qed

lemma queue_drains_witness:
  "\<exists>n s'. n \<le> 1 \<and> run sample_pg published_system (replicate n (Forward 0)) s'
    \<and> (ws_phase (sessions s' ! 0) = Closed \<or> queue_items s' 0 = [])"
proof -
  have "0 < length (sessions published_system)" "ws_phase (sessions published_system ! 0) = Streaming []"
    by (simp_all add: sessions_def published_system_def sample_session_def)
  from queue_drains [OF sample_publish this]
  have "\<exists>n s'. n \<le> length (queue_items published_system 0)
    \<and> run sample_pg published_system (replicate n (Forward 0)) s'
    \<and> (ws_phase (sessions s' ! 0) = Closed \<or> queue_items s' 0 = [])"
    by (simp add: sessions_def published_system_def sample_session_def) blast
  moreover have "length (queue_items published_system 0) = 1"
    by (simp add: queue_items_def published_system_def sample_broadcast_def)
  ultimately show ?thesis by simp
qed

end
