(* ===== verification/Site_Properties.thy ===== *)
theory Site_Properties
  imports Site Delivery_Properties Live_Updates_Properties
begin

text \<open>
  Properties of the whole running program. Every lifetime of the API process is a run of the
  transition system of \<open>Live_Updates\<close>, so that what its clients are promised holds beside the broker
  and through restarts; and every datagram that was accepted is still queued, or stored and on its
  way to every client.
\<close>

section \<open>Simulation by the live updates\<close>

lemma session_step_inflight:
  assumes "session_action a" and "step pg \<lparr>sy_api = x, sy_inflight = l\<rparr> a t"
  shows "step pg \<lparr>sy_api = x, sy_inflight = l'\<rparr> a \<lparr>sy_api = sy_api t, sy_inflight = l'\<rparr>"
    and "sy_inflight t = l" and "api_db (sy_api t) = api_db x"
proof -
  show "sy_inflight t = l"
    using assms(2,1) by (cases rule: step.cases) (auto simp: with_api_def)
  show "step pg \<lparr>sy_api = x, sy_inflight = l'\<rparr> a \<lparr>sy_api = sy_api t, sy_inflight = l'\<rparr>"
    using assms(2,1)
    by (cases rule: step.cases) (auto simp: step.simps sessions_def with_api_def)
  show "api_db (sy_api t) = api_db x"
    using assms(2,1)
    by (cases rule: step.cases)
      (auto simp: with_api_def ws_open_def ws_read_snapshot_def ws_send_snapshot_def ws_close_def ws_forward_def
        set_session_def Let_def broadcast_get_def split: sum.splits option.splits prod.splits bool.splits if_splits)
qed

text \<open>The writes of earlier lifetimes, as a run without clients.\<close>

lemma replay:
  "list_all (\<lambda>e. \<exists>r. row_of_envelope pg e = Inr r) ws \<Longrightarrow>
    \<exists>acts. run pg (start pg n []) acts
        \<lparr>sy_api = \<lparr>api_db = write_all pg (map (Pair None) ws) empty_db, api_broadcast = new_broadcast n,
           api_ws_active = 0, api_sessions = []\<rparr>, sy_inflight = []\<rparr>
      \<and> (\<forall>e\<in>set ws. Write e \<in> set acts) \<and> (\<forall>e qs. Publication e qs \<in> set acts \<longrightarrow> qs = [])"
proof (induction ws rule: rev_induct)
  case Nil
  show ?case by (rule exI [of _ "[]"]) (simp add: start_def run.run_nil)
next
  case (snoc e ws)
  let ?sys = "\<lambda>db l. \<lparr>sy_api = \<lparr>api_db = db, api_broadcast = new_broadcast n, api_ws_active = 0,
      api_sessions = []\<rparr>, sy_inflight = l\<rparr>"
  let ?old = "write_all pg (map (Pair None) ws) empty_db"
  obtain acts where run: "run pg (start pg n []) acts (?sys ?old [])"
    and acts: "\<forall>e\<in>set ws. Write e \<in> set acts" "\<forall>e qs. Publication e qs \<in> set acts \<longrightarrow> qs = []"
    using snoc by auto
  obtain r where r: "row_of_envelope pg e = Inr r" using snoc.prems by auto
  have "step pg (?sys ?old []) (Write e) (?sys (store_row r ?old) [e])"
    using step.committed [of pg e "?sys ?old []" "store_row r ?old"] by (simp add: write_to_db_Inr r)
  moreover have "step pg (?sys (store_row r ?old) [e]) (Publication e []) (?sys (store_row r ?old) [])"
    using step.publication [of e "?sys (store_row r ?old) [e]" pg]
    by (simp add: full_queues_def new_broadcast_def publish_update_def broadcast_publish_def)
  ultimately have "run pg (start pg n []) ((acts @ [Write e]) @ [Publication e []]) (?sys (store_row r ?old) [])"
    using run by (blast intro: run.run_snoc)
  moreover have "write_all pg (map (Pair None) (ws @ [e])) empty_db = store_row r ?old"
    using write_all_snoc [of pg "map (Pair None) ws" "(None, e)" empty_db] by (simp add: row_of_write_def r)
  ultimately show ?case using acts by (intro exI [of _ "(acts @ [Write e]) @ [Publication e []]"]) auto
qed

section \<open>Invariants\<close>

text \<open>The tables are those of the writes of all lifetimes, one after another.\<close>

definition tables_of_writes :: "'ctx plant \<Rightarrow> site_action list \<Rightarrow> site \<Rightarrow> bool" where
  "tables_of_writes pl as s \<longleftrightarrow>
     be_db (site_backend s) = write_all (pl_pg pl) (map (Pair None) (written_in pl as)) empty_db
     \<and> list_all (\<lambda>e. \<exists>r. row_of_envelope (pl_pg pl) e = Inr r) (written_in pl as)"

text \<open>The messages in hand are messages of the queue whose writes are committed.\<close>

definition in_hand :: "'ctx plant \<Rightarrow> site_action list \<Rightarrow> site \<Rightarrow> bool" where
  "in_hand pl as s \<longleftrightarrow>
     mset (map fst (si_handling s)) \<subseteq># mset (site_queue s)
     \<and> (\<forall>(m, e)\<in>set (si_handling s). reaches_write pl m = Some e \<and> e \<in> set (written_in pl as))"

text \<open>A datagram that was accepted is queued still, or its message was written if it could be.\<close>

definition settled_or_queued :: "'ctx plant \<Rightarrow> site_action list \<Rightarrow> site \<Rightarrow> bool" where
  "settled_or_queued pl as s \<longleftrightarrow>
     (\<forall>dg\<in>set (arrivals as). \<forall>m. queued_by pl dg = Some m \<longrightarrow>
        m \<in> set (site_queue s)
        \<or> check_body (am_body m) \<in> {Malformed, MissingTag}
        \<or> (\<exists>e. check_body (am_body m) = Envelope e \<and> e \<in> set (written_in pl as)))"

text \<open>Every refusal by a full queue is one of the current lifetime.\<close>

definition refusals_named :: "'ctx plant \<Rightarrow> site_action list \<Rightarrow> action list \<Rightarrow> bool" where
  "refusals_named pl as acts \<longleftrightarrow>
     (\<forall>e qs. Publication e qs \<in> set acts \<longrightarrow> qs \<noteq> [] \<longrightarrow>
        (\<exists>m acked. Finish m qs acked \<in> set (since_reboot as) \<and> reaches_write pl m = Some e))"

text \<open>What the live updates make of the current lifetime, with the earlier writes replayed.\<close>

definition explains :: "'ctx plant \<Rightarrow> site_action list \<Rightarrow> site \<Rightarrow> action list \<Rightarrow> system \<Rightarrow> bool" where
  "explains pl as s acts t \<longleftrightarrow>
     run (pl_pg pl) (start (pl_pg pl) default_maxsize []) acts t
     \<and> sy_api t = api_of s
     \<and> mset (sy_inflight t) = mset (map snd (si_handling s))
     \<and> (\<forall>e\<in>set (written_in pl as). Write e \<in> set acts)
     \<and> refusals_named pl as acts"

lemma refusals_named_mono:
  assumes "refusals_named pl as acts" and "set (since_reboot as) \<subseteq> set (since_reboot as')"
    and "\<And>e qs. Publication e qs \<in> set acts' \<Longrightarrow> Publication e qs \<in> set acts"
  shows "refusals_named pl as' acts'"
  using assms unfolding refusals_named_def by (meson subsetD)

lemma since_reboot_grows: "a \<noteq> Reboot \<Longrightarrow> set (since_reboot as) \<subseteq> set (since_reboot (as @ [a]))"
  by (auto simp: since_reboot_snoc)

lemma refusals_named_finish:
  assumes "refusals_named pl as acts" and "reaches_write pl m = Some e"
  shows "refusals_named pl (as @ [Finish m qs acked]) (acts @ [Publication e qs])"
proof -
  have "Finish m qs acked \<in> set (since_reboot (as @ [Finish m qs acked]))" by (simp add: since_reboot_snoc)
  moreover have "refusals_named pl (as @ [Finish m qs acked]) acts"
    by (rule refusals_named_mono [OF assms(1) since_reboot_grows]) simp_all
  ultimately show ?thesis
    using assms(2) unfolding refusals_named_def set_append list.set Un_iff insert_iff empty_iff action.inject by blast
qed

lemma reaches_write_check: "reaches_write pl m = Some e \<Longrightarrow> check_body (am_body m) = Envelope e"
  by (auto simp: reaches_write_def split: checked.splits sum.splits)

lemma tables_step:
  assumes "site_step pl s a s'" and "tables_of_writes pl as s"
  shows "tables_of_writes pl (as @ [a]) s'"
  using assms
proof (cases rule: site_step.cases)
  case (stored m e db')
  then obtain r where r: "row_of_envelope (pl_pg pl) e = Inr r" "db' = store_row r (be_db (site_backend s))"
    by (auto simp: write_to_db_Inr)
  have "written_in pl (as @ [Store m]) = written_in pl as @ [e]" using stored by (simp add: written_in_snoc)
  then show ?thesis
    using stored assms(2) r write_all_snoc [of "pl_pg pl" "map (Pair None) (written_in pl as)" "(None, e)" empty_db]
    by (simp add: tables_of_writes_def site_accessors row_of_write_def)
next
  case (session b t)
  then show ?thesis
    using assms(2) session_step_inflight(3) [OF session(3,4)]
    by (simp add: tables_of_writes_def written_in_snoc site_accessors)
qed (use assms(2) in \<open>auto simp: tables_of_writes_def written_in_snoc site_accessors receive_queue published_def
  fresh_backend_def consume_not_written consume_given_back\<close>)

lemma mset_map_remove1: "x \<in> set xs \<Longrightarrow> mset (map f (remove1 x xs)) = mset (map f xs) - {#f x#}"
  by (simp add: image_mset_Diff)

lemma in_hand_step:
  assumes step: "site_step pl s a s'" and h: "in_hand pl as s"
  shows "in_hand pl (as @ [a]) s'"
proof -
  have sub: "mset (map fst (si_handling s)) \<subseteq># mset (site_queue s)" using h by (simp add: in_hand_def)
  have old: "\<forall>(m, e)\<in>set (si_handling s). reaches_write pl m = Some e \<and> e \<in> set (written_in pl (as @ [a]))"
    using h by (auto simp: in_hand_def written_in_snoc)
  show ?thesis using step
  proof (cases rule: site_step.cases)
    case (arrived dg)
    then show ?thesis using sub old
      by (auto simp: in_hand_def site_accessors receive_queue intro: subset_mset.order_trans split: option.split)
  next
    case (stored m e db')
    then show ?thesis using old
      by (auto simp: in_hand_def site_accessors deliverable_def written_in_snoc)
  next
    case (finished m e acked)
    have "mset (map fst (remove1 (m, e) (si_handling s))) = mset (map fst (si_handling s)) - {#m#}"
      using mset_map_remove1 [OF finished(3), of fst] by simp
    moreover have "mset (map fst (si_handling s)) - {#m#} \<subseteq># mset (site_queue s) - {#m#}"
      using sub by (simp add: subseteq_mset_def diff_le_mono)
    ultimately have "mset (map fst (si_handling s')) \<subseteq># mset (site_queue s')"
      using finished(2) subset_mset.order_trans [OF diff_subset_eq_self sub] by (cases acked) (simp_all add: site_accessors)
    moreover have "set (si_handling s') \<subseteq> set (si_handling s)"
      using finished(2) set_remove1_subset [of "(m, e)" "si_handling s"] by (simp add: site_accessors)
    ultimately show ?thesis using old unfolding in_hand_def by blast
  next
    case (discarded m b)
    have "mset (map fst (si_handling s)) \<subseteq># mset (site_queue s) - {#m#}"
      using discarded(3) by (auto simp: deliverable_def dest: insert_subset_eq_iff [THEN iffD1])
    then show ?thesis using discarded old by (auto simp: in_hand_def site_accessors)
  qed (use sub old in \<open>auto simp: in_hand_def site_accessors\<close>)
qed

lemma settled_step:
  assumes step: "site_step pl s a s'" and h: "in_hand pl as s" and q: "settled_or_queued pl as s"
  shows "settled_or_queued pl (as @ [a]) s'"
proof -
  have gone: "m \<in> set (site_queue s') \<or> check_body (am_body m) \<in> {Malformed, MissingTag}
      \<or> (\<exists>e. check_body (am_body m) = Envelope e \<and> e \<in> set (written_in pl (as @ [a])))"
    if m: "m \<in> set (site_queue s)" for m
    using step
  proof (cases rule: site_step.cases)
    case (finished m' e acked)
    then have "reaches_write pl m' = Some e" "e \<in> set (written_in pl as)" using h by (auto simp: in_hand_def)
    then show ?thesis using finished m
      by (cases "m' = m") (auto simp: site_accessors written_in_snoc dest: reaches_write_check)
  next
    case (discarded m' b)
    then show ?thesis using m by (cases "m' = m") (auto simp: site_accessors)
  qed (use m in \<open>auto simp: site_accessors receive_queue\<close>)
  have new: "m \<in> set (site_queue s')" if "a = Arrive dg" "queued_by pl dg = Some m" for dg m
    using step that by (auto simp: site_step_arrive site_accessors receive_queue)
  have grow: "set (written_in pl as) \<subseteq> set (written_in pl (as @ [a]))" by (auto simp: written_in_snoc)
  show ?thesis
    unfolding settled_or_queued_def
  proof (intro ballI allI impI)
    fix dg m assume dg: "dg \<in> set (arrivals (as @ [a]))" and m: "queued_by pl dg = Some m"
    show "m \<in> set (site_queue s') \<or> check_body (am_body m) \<in> {Malformed, MissingTag}
        \<or> (\<exists>e. check_body (am_body m) = Envelope e \<and> e \<in> set (written_in pl (as @ [a])))"
    proof (cases "a = Arrive dg")
      case True
      then show ?thesis using new m by blast
    next
      case False
      then have "dg \<in> set (arrivals as)" using dg by (cases a) (auto simp: arrivals_snoc)
      then show ?thesis using q m gone grow unfolding settled_or_queued_def by blast
    qed
  qed
qed

lemma explains_frame:
  assumes "explains pl as s acts t" and "api_of s' = api_of s" and "si_handling s' = si_handling s"
    and "write_of pl a = None" and "a \<noteq> Reboot"
  shows "explains pl (as @ [a]) s' acts t"
  using assms refusals_named_mono [OF _ since_reboot_grows [OF assms(5)], of pl as acts acts]
  by (auto simp: explains_def written_in_snoc)

lemma explains_stored:
  assumes ex: "explains pl as s acts t" and e: "reaches_write pl m = Some e"
    and w: "write_to_db (pl_pg pl) None e (be_db (site_backend s)) = (db', Inr ())"
  shows "\<exists>acts t. explains pl (as @ [Store m])
    ((put_backend ((site_backend s)\<lparr>be_db := db'\<rparr>) s)\<lparr>si_handling := si_handling s @ [(m, e)]\<rparr>) acts t"
proof -
  have api: "sy_api t = api_of s" using ex by (simp add: explains_def)
  have "step (pl_pg pl) t (Write e) \<lparr>sy_api = (sy_api t)\<lparr>api_db := db'\<rparr>, sy_inflight = sy_inflight t @ [e]\<rparr>"
    by (rule step.committed) (use w api in \<open>simp add: api_of_def\<close>)
  with ex have "explains pl (as @ [Store m])
      ((put_backend ((site_backend s)\<lparr>be_db := db'\<rparr>) s)\<lparr>si_handling := si_handling s @ [(m, e)]\<rparr>)
      (acts @ [Write e]) \<lparr>sy_api = (sy_api t)\<lparr>api_db := db'\<rparr>, sy_inflight = sy_inflight t @ [e]\<rparr>"
    using run.run_snoc refusals_named_mono [OF _ since_reboot_grows [of "Store m"], of pl as acts "acts @ [Write e]"]
    by (fastforce simp: explains_def site_accessors written_in_snoc e)
  then show ?thesis by blast
qed

lemma explains_finished:
  assumes ex: "explains pl as s acts t" and h: "in_hand pl as s" and me: "(m, e) \<in> set (si_handling s)"
  shows "\<exists>acts t. explains pl (as @ [Finish m (full_queues (api_of s)) acked])
    ((put_queue q (put_backend (published e (site_backend s)) s))\<lparr>si_handling := remove1 (m, e) (si_handling s)\<rparr>) acts t"
proof -
  let ?t = "\<lparr>sy_api = publish_update e (sy_api t), sy_inflight = remove1 e (sy_inflight t)\<rparr>"
  have api: "sy_api t = api_of s" and inflight: "mset (sy_inflight t) = mset (map snd (si_handling s))"
    using ex by (simp_all add: explains_def)
  have "e \<in> set (sy_inflight t)" using me mset_eq_setD [OF inflight] by force
  then have "step (pl_pg pl) t (Publication e (full_queues (api_of s))) ?t"
    using step.publication [of e t "pl_pg pl"] by (simp add: api)
  then have "run (pl_pg pl) (start (pl_pg pl) default_maxsize []) (acts @ [Publication e (full_queues (api_of s))]) ?t"
    using ex run.run_snoc by (fastforce simp: explains_def)
  moreover have "reaches_write pl m = Some e" using h me by (auto simp: in_hand_def)
  then have "refusals_named pl (as @ [Finish m (full_queues (api_of s)) acked])
      (acts @ [Publication e (full_queues (api_of s))])"
    using ex by (intro refusals_named_finish) (simp_all add: explains_def)
  moreover have "mset (remove1 e (sy_inflight t)) = mset (map snd (remove1 (m, e) (si_handling s)))"
    using inflight mset_map_remove1 [OF me, of snd] by simp
  ultimately have "explains pl (as @ [Finish m (full_queues (api_of s)) acked])
      ((put_queue q (put_backend (published e (site_backend s)) s))\<lparr>si_handling := remove1 (m, e) (si_handling s)\<rparr>)
      (acts @ [Publication e (full_queues (api_of s))]) ?t"
    using ex by (auto simp: explains_def site_accessors published_def publish_update_def written_in_snoc)
  then show ?thesis by blast
qed

lemma explains_session:
  assumes ex: "explains pl as s acts t" and act: "session_action b"
    and st: "step (pl_pg pl) \<lparr>sy_api = api_of s, sy_inflight = []\<rparr> b u"
  shows "\<exists>acts t. explains pl (as @ [Session b]) (put_api (sy_api u) s) acts t"
proof -
  have "t = \<lparr>sy_api = api_of s, sy_inflight = sy_inflight t\<rparr>" using ex by (simp add: explains_def)
  then have "step (pl_pg pl) t b \<lparr>sy_api = sy_api u, sy_inflight = sy_inflight t\<rparr>"
    using session_step_inflight(1) [OF act st] by metis
  then have "run (pl_pg pl) (start (pl_pg pl) default_maxsize []) (acts @ [b]) \<lparr>sy_api = sy_api u, sy_inflight = sy_inflight t\<rparr>"
    using ex run.run_snoc unfolding explains_def by blast
  moreover have "Publication e qs \<noteq> b" for e qs using act by (cases b) simp_all
  then have "refusals_named pl (as @ [Session b]) (acts @ [b])"
    using ex refusals_named_mono [OF _ since_reboot_grows [of "Session b"], of pl as acts "acts @ [b]"]
    by (fastforce simp: explains_def)
  ultimately have "explains pl (as @ [Session b]) (put_api (sy_api u) s) (acts @ [b])
      \<lparr>sy_api = sy_api u, sy_inflight = sy_inflight t\<rparr>"
    using ex by (auto simp: explains_def site_accessors written_in_snoc)
  then show ?thesis by blast
qed

lemma explains_rebooted:
  assumes "tables_of_writes pl as s"
  shows "\<exists>acts t. explains pl (as @ [Reboot])
    ((put_backend (fresh_backend (be_db (site_backend s))) s)\<lparr>si_handling := [], si_active := 0, si_sessions := []\<rparr>) acts t"
proof -
  obtain acts where "run (pl_pg pl) (start (pl_pg pl) default_maxsize []) acts
      \<lparr>sy_api = \<lparr>api_db = be_db (site_backend s), api_broadcast = new_broadcast default_maxsize,
         api_ws_active = 0, api_sessions = []\<rparr>, sy_inflight = []\<rparr>"
    "\<forall>e\<in>set (written_in pl as). Write e \<in> set acts" "\<forall>e qs. Publication e qs \<in> set acts \<longrightarrow> qs = []"
    using assms replay [of "pl_pg pl" "written_in pl as" default_maxsize] by (auto simp: tables_of_writes_def)
  then show ?thesis
    by (intro exI) (auto simp: explains_def site_accessors fresh_backend_def written_in_snoc refusals_named_def)
qed

lemma explains_step:
  assumes step: "site_step pl s a s'" and "in_hand pl as s" and "tables_of_writes pl as s"
    and ex: "explains pl as s acts t"
  shows "\<exists>acts t. explains pl (as @ [a]) s' acts t"
  using step
proof (cases rule: site_step.cases)
  case (stored m e db')
  then show ?thesis using explains_stored [OF ex] by simp
next
  case (finished m e acked)
  then show ?thesis using explains_finished [OF ex assms(2)] by simp
next
  case (session b u)
  then show ?thesis using explains_session [OF ex] by simp
next
  case rebooted
  then show ?thesis using explains_rebooted [OF assms(3)] by simp
next
  case (arrived dg)
  have "explains pl (as @ [a]) s' acts t"
    by (rule explains_frame [OF ex]) (simp_all add: arrived site_accessors receive_queue)
  then show ?thesis by blast
next
  case (discarded m b)
  have "explains pl (as @ [a]) s' acts t"
    by (rule explains_frame [OF ex]) (use discarded consume_not_written [OF discarded(5,4)] in \<open>simp_all add: site_accessors\<close>)
  then show ?thesis by blast
next
  case (given_back m fault x b)
  have "explains pl (as @ [a]) s' acts t"
    by (rule explains_frame [OF ex]) (use given_back consume_given_back [OF given_back(4)] in \<open>simp_all add: site_accessors\<close>)
  then show ?thesis by blast
qed

lemma site_run_invariant:
  "site_run pl site_start as s \<Longrightarrow>
     tables_of_writes pl as s \<and> in_hand pl as s \<and> settled_or_queued pl as s \<and> (\<exists>acts t. explains pl as s acts t)"
proof (induction rule: site_run.induct)
  case site_idle
  have "explains pl [] site_start [] (start (pl_pg pl) default_maxsize [])"
    by (simp add: explains_def run.run_nil start_def site_start_def plant_start_def fresh_backend_def site_accessors
        written_in_def List.map_filter_def refusals_named_def)
  moreover have "tables_of_writes pl [] site_start" "in_hand pl [] site_start" "settled_or_queued pl [] site_start"
    by (simp_all add: tables_of_writes_def in_hand_def settled_or_queued_def site_start_def plant_start_def
        fresh_backend_def site_accessors written_in_def arrivals_def List.map_filter_def)
  ultimately show ?case by blast
next
  case (site_more as s a s')
  then have tab: "tables_of_writes pl as s" and hand: "in_hand pl as s" and q: "settled_or_queued pl as s" by auto
  from site_more obtain acts t where ex: "explains pl as s acts t" by auto
  note st = site_more.hyps(2)
  show ?case
    using tables_step [OF st tab] in_hand_step [OF st hand] settled_step [OF st hand q]
      explains_step [OF st hand tab ex] by (intro conjI)
qed

section \<open>A sample run\<close>

lemma session_runs:
  "run pg t0 acts t \<Longrightarrow> list_all session_action acts \<Longrightarrow> t0 = \<lparr>sy_api = api_of s, sy_inflight = []\<rparr> \<Longrightarrow> pg = pl_pg pl \<Longrightarrow>
     \<exists>s'. site_run pl s (map Session acts) s' \<and> api_of s' = sy_api t \<and> sy_inflight t = []
       \<and> site_queue s' = site_queue s \<and> si_handling s' = si_handling s"
proof (induction rule: run.induct)
  case run_nil
  then show ?case by (intro exI [of _ s]) (simp add: site_run.site_idle)
next
  case (run_snoc acts t b t')
  then obtain s' where s': "site_run pl s (map Session acts) s'" "api_of s' = sy_api t" "sy_inflight t = []"
    "site_queue s' = site_queue s" "si_handling s' = si_handling s" by auto
  have b: "session_action b" using run_snoc.prems(1) by simp
  have "t = \<lparr>sy_api = api_of s', sy_inflight = []\<rparr>" using s'(2,3) by simp
  then have st: "step (pl_pg pl) \<lparr>sy_api = api_of s', sy_inflight = []\<rparr> b t'"
    using run_snoc.hyps(2) run_snoc.prems(3) by simp
  have "site_run pl s (map Session acts @ [Session b]) (put_api (sy_api t') s')"
    using s'(1) site_step.session [OF b st] by (rule site_run.site_more)
  then show ?case
    using s'(4,5) session_step_inflight(2) [OF b st]
    by (intro exI [of _ "put_api (sy_api t') s'"]) (simp add: site_accessors)
qed

lemma site_run_trans: "site_run pl s bs s' \<Longrightarrow> site_run pl s0 as s \<Longrightarrow> site_run pl s0 (as @ bs) s'"
proof (induction rule: site_run.induct)
  case (site_more bs t b t')
  then show ?case using site_run.site_more [of pl s0 "as @ bs"] by simp
qed simp

text \<open>The tag and the time of an envelope, computed.\<close>

definition stamp_in :: "json dict \<Rightarrow> (pystr \<times> int) option" where
  "stamp_in e =
     (case dict_get e (lit ''payload'') of
        Some (JObj p) \<Rightarrow>
          (case (dict_get p (lit ''tag_id''), dict_get p (lit ''ts_utc_ms'')) of
             (Some (JStr t), Some (JInt k)) \<Rightarrow> Some (t, k)
           | _ \<Rightarrow> None)
      | _ \<Rightarrow> None)"

lemma stamp_in_stamped: "stamp_in e = Some (t, k) \<Longrightarrow> storable_text t \<Longrightarrow> stamped e t k"
  by (auto simp: stamp_in_def stamped_def split: option.splits json.splits)

definition sample_facts :: "amqp_message option \<Rightarrow> bool" where
  "sample_facts q =
     (case q of
        None \<Rightarrow> False
      | Some msg \<Rightarrow>
          (case reaches_write sample_plant msg of
             None \<Rightarrow> False
           | Some e \<Rightarrow>
               (case (row_of_envelope sample_pg e, stamp_in e) of
                  (Inr r, Some (t, k)) \<Rightarrow> t = lit ''A1'' \<and> 0 \<le> k \<and> storable_text t
                | _ \<Rightarrow> False)))"

lemma sample_arrival:
  obtains msg e k where "queued_by sample_plant status_datagram = Some msg" "reaches_write sample_plant msg = Some e"
    "stamped e (lit ''A1'') k" "0 \<le> k" "\<exists>r. row_of_envelope sample_pg e = Inr r"
proof -
  have f: "sample_facts (queued_by sample_plant status_datagram)" by code_simp
  obtain msg where msg: "queued_by sample_plant status_datagram = Some msg"
    using f by (auto simp: sample_facts_def split: option.splits)
  obtain e where e: "reaches_write sample_plant msg = Some e"
    using f by (cases "reaches_write sample_plant msg") (simp_all add: msg sample_facts_def)
  obtain r where r: "row_of_envelope sample_pg e = Inr r"
    using f by (cases "row_of_envelope sample_pg e") (simp_all add: msg e sample_facts_def)
  obtain t k where tk: "stamp_in e = Some (t, k)"
    using f by (cases "stamp_in e") (auto simp: msg e r sample_facts_def)
  have "t = lit ''A1'' \<and> 0 \<le> k \<and> storable_text t" using f tk by (auto simp: msg e r sample_facts_def)
  with tk msg e r stamp_in_stamped that show thesis by blast
qed

text \<open>The datagram is queued, and a client connects.\<close>

lemma sample_connected_site:
  assumes "queued_by sample_plant status_datagram = Some msg"
  obtains s where "site_run sample_plant site_start
      [Arrive status_datagram, Session Open, Session (ReadSnapshot 0), Session (SendSnapshot 0)] s"
    "api_of s = sy_api streaming_system" "site_queue s = [msg]" "si_handling s = []"
proof -
  let ?s1 = "site_start\<lparr>si_plant := receive sample_plant status_datagram (si_plant site_start)\<rparr>"
  have pg: "pl_pg sample_plant = sample_pg" by (simp add: sample_plant_def)
  have r1: "site_run sample_plant site_start ([] @ [Arrive status_datagram]) ?s1"
    by (rule site_run.site_more [OF site_run.site_idle site_step.arrived])
  have q1: "site_queue ?s1 = [msg]" "si_handling ?s1 = []"
    using assms by (simp_all add: site_accessors receive_queue site_start_def plant_start_def)
  have "start sample_pg 256 [] = \<lparr>sy_api = api_of ?s1, sy_inflight = []\<rparr>"
    by (simp add: start_def site_accessors receive_queue site_start_def plant_start_def fresh_backend_def
        default_maxsize_def)
  from session_runs [OF sample_connect _ this pg [symmetric]]
  obtain s2 where "site_run sample_plant ?s1 (map Session [Open, ReadSnapshot 0, SendSnapshot 0]) s2"
    "api_of s2 = sy_api streaming_system" "site_queue s2 = [msg]" "si_handling s2 = []"
    using q1 by auto
  then show thesis using that site_run_trans [OF _ r1, of _ s2] by fastforce
qed

lemma sample_site_run:
  obtains msg e k s where "queued_by sample_plant status_datagram = Some msg"
    "reaches_write sample_plant msg = Some e" "stamped e (lit ''A1'') k" "0 \<le> k"
    "site_run sample_plant site_start [Arrive status_datagram, Session Open, Session (ReadSnapshot 0),
       Session (SendSnapshot 0), Store msg, Finish msg [] True] s"
    "si_sessions s = [sample_session]" "site_queue s = []"
proof -
  obtain msg e k where msg: "queued_by sample_plant status_datagram = Some msg" "reaches_write sample_plant msg = Some e"
    and e: "stamped e (lit ''A1'') k" "0 \<le> k" "\<exists>r. row_of_envelope sample_pg e = Inr r"
    by (rule sample_arrival)
  obtain s2 where r2: "site_run sample_plant site_start
      [Arrive status_datagram, Session Open, Session (ReadSnapshot 0), Session (SendSnapshot 0)] s2"
    and s2: "api_of s2 = sy_api streaming_system" "site_queue s2 = [msg]" "si_handling s2 = []"
    by (rule sample_connected_site [OF msg(1)])
  obtain r where "row_of_envelope sample_pg e = Inr r" using e(3) by blast
  then have w: "write_to_db (pl_pg sample_plant) None e (be_db (site_backend s2)) = (store_row r (be_db (site_backend s2)), Inr ())"
    by (simp add: sample_plant_def write_to_db_Inr)
  have d: "deliverable msg s2" by (simp add: deliverable_def s2 prefetch_count_def)
  let ?s3 = "(put_backend ((site_backend s2)\<lparr>be_db := store_row r (be_db (site_backend s2))\<rparr>) s2)
      \<lparr>si_handling := si_handling s2 @ [(msg, e)]\<rparr>"
  let ?s4 = "(put_queue (if True then remove1 msg (site_queue ?s3) else site_queue ?s3)
      (put_backend (published e (site_backend ?s3)) ?s3))\<lparr>si_handling := remove1 (msg, e) (si_handling ?s3)\<rparr>"
  have bc: "be_broadcast (ps_backend (si_plant s2)) = sample_broadcast []" and ses: "si_sessions s2 = [sample_session]"
    and q2: "ps_queue (si_plant s2) = [msg]"
    using s2 by (simp_all add: site_accessors streaming_system_def)
  have st3: "site_step sample_plant s2 (Store msg) ?s3" by (rule site_step.stored [OF d msg(2) w])
  have "full_queues (api_of ?s3) = []"
    using bc by (simp add: full_queues_def site_accessors sample_broadcast_def queue_full_def)
  then have st4: "site_step sample_plant ?s3 (Finish msg [] True) ?s4"
    using site_step.finished [of msg e ?s3 sample_plant True] by simp
  have run: "site_run sample_plant site_start [Arrive status_datagram, Session Open, Session (ReadSnapshot 0),
      Session (SendSnapshot 0), Store msg, Finish msg [] True] ?s4"
    using site_run.site_more [OF site_run.site_more [OF r2 st3] st4] by simp
  have fin: "si_sessions ?s4 = [sample_session]" "site_queue ?s4 = []"
    using ses q2 by (simp_all add: site_accessors)
  show thesis by (rule that [OF msg(1,2) e(1,2) run fin])
qed

section \<open>Properties\<close>

text \<open>
  C9. The API process beside the broker, with messages in hand and through restarts, is the transition
  system of the live updates: every reachable state has the database, the subscribers, the gauge and
  the sessions of a run of that system, in which every write of every lifetime was made and the
  messages in hand are the updates still to be published. So the promises to its clients hold.
\<close>

theorem site_refines_live_updates:
  assumes "site_run pl site_start as s"
  shows "\<exists>acts t. run (pl_pg pl) (start (pl_pg pl) default_maxsize []) acts t
    \<and> sy_api t = api_of s
    \<and> mset (sy_inflight t) = mset (map snd (si_handling s))
    \<and> (\<forall>e\<in>set (written_in pl as). Write e \<in> set acts)
    \<and> be_db (site_backend s) = write_all (pl_pg pl) (map (Pair None) (written_in pl as)) empty_db"
  using site_run_invariant [OF assms] unfolding explains_def tables_of_writes_def by blast



lemma site_refines_live_updates_witness:
  "\<exists>msg e s acts t. site_run sample_plant site_start [Arrive status_datagram, Session Open, Session (ReadSnapshot 0),
       Session (SendSnapshot 0), Store msg, Finish msg [] True] s
     \<and> run sample_pg (start sample_pg 256 []) acts t \<and> sy_api t = api_of s \<and> Write e \<in> set acts
     \<and> sy_inflight t = []"
proof -
  let ?as = "\<lambda>msg. [Arrive status_datagram, Session Open, Session (ReadSnapshot 0), Session (SendSnapshot 0), Store msg,
      Finish msg [] True]"
  obtain msg e k s where msg: "reaches_write sample_plant msg = Some e"
    and run: "site_run sample_plant site_start (?as msg) s" and q: "site_queue s = []" by (rule sample_site_run)
  have "e \<in> set (written_in sample_plant (?as msg))" by (simp add: written_in_def List.map_filter_def msg)
  moreover have "si_handling s = []" using site_run_invariant [OF run] q by (simp add: in_hand_def)
  ultimately show ?thesis
    using site_refines_live_updates [OF run] run
    by (simp add: sample_plant_def [THEN arg_cong, of pl_pg] default_maxsize_def) blast
qed

end
