(* ===== verification/Json_Schema.thy ===== *)
theory Json_Schema
  imports Stream_Events
begin

text \<open>
  The two JSON schemas of the repository as data (\<open>config/ls_1000_scheme.json\<close>, which the settings
  name for the receiver, and \<open>config/envelope_v1_schema.json\<close>), and what they ask of a value. The
  keywords are those that the two files use, with the meaning that draft 2020-12 gives them; a keyword
  says nothing about values of other types. Descriptions are left out.
\<close>

section \<open>Keywords\<close>

datatype json_type = TObject | TArray | TString | TNumber | TInteger | TBoolean

datatype jschema =
    Kind json_type
  | Const pystr
  | Pattern "pystr \<Rightarrow> bool"
  | MinLength nat
  | MaxLength nat
  | Minimum int
  | Maximum int
  | MinItems nat
  | Items "jschema list"
  | Properties "(pystr \<times> jschema list) list"
  | OnlyProperties "pystr list"
  | Required "pystr list"
  | OneOf "jschema list list"

text \<open>A float counts as an integer when it has no fraction; a \<open>bool\<close> is no number.\<close>

fun whole_float :: "pyfloat \<Rightarrow> bool" where
  "whole_float (Fin neg m e) \<longleftrightarrow> (let (p, q) = scale 2 e (m, 1) in q dvd p)"
| "whole_float _ \<longleftrightarrow> False"

fun has_type :: "json_type \<Rightarrow> json \<Rightarrow> bool" where
  "has_type TObject (JObj d) = True"
| "has_type TArray (JArr vs) = True"
| "has_type TString (JStr s) = True"
| "has_type TNumber (JInt i) = True"
| "has_type TNumber (JFloat f) = True"
| "has_type TInteger (JInt i) = True"
| "has_type TInteger (JFloat f) = whole_float f"
| "has_type TBoolean (JBool b) = True"
| "has_type _ _ = False"

text \<open>\<open>v < k\<close> for a number and an integer; comparisons with NaN are false.\<close>

fun below :: "json \<Rightarrow> int \<Rightarrow> bool" where
  "below (JInt i) k \<longleftrightarrow> i < k"
| "below (JFloat (Fin neg m e)) k \<longleftrightarrow> (let (p, q) = scale 2 e (m, 1) in signed neg p < k * q)"
| "below (JFloat (FInf neg)) k \<longleftrightarrow> neg"
| "below _ k \<longleftrightarrow> False"

fun above :: "json \<Rightarrow> int \<Rightarrow> bool" where
  "above (JInt i) k \<longleftrightarrow> k < i"
| "above (JFloat (Fin neg m e)) k \<longleftrightarrow> (let (p, q) = scale 2 e (m, 1) in k * q < signed neg p)"
| "above (JFloat (FInf neg)) k \<longleftrightarrow> \<not> neg"
| "above _ k \<longleftrightarrow> False"

text \<open>A schema is the list of its keywords; a value satisfies it when it satisfies each of them.\<close>

fun satisfies :: "jschema \<Rightarrow> json \<Rightarrow> bool" where
  "satisfies (Kind t) v \<longleftrightarrow> has_type t v"
| "satisfies (Const s) v \<longleftrightarrow> v = JStr s"
| "satisfies (Pattern p) v \<longleftrightarrow> (case v of JStr s \<Rightarrow> p s | _ \<Rightarrow> True)"
| "satisfies (MinLength n) v \<longleftrightarrow> (case v of JStr s \<Rightarrow> n \<le> length s | _ \<Rightarrow> True)"
| "satisfies (MaxLength n) v \<longleftrightarrow> (case v of JStr s \<Rightarrow> length s \<le> n | _ \<Rightarrow> True)"
| "satisfies (Minimum k) v \<longleftrightarrow> \<not> below v k"
| "satisfies (Maximum k) v \<longleftrightarrow> \<not> above v k"
| "satisfies (MinItems n) v \<longleftrightarrow> (case v of JArr vs \<Rightarrow> n \<le> length vs | _ \<Rightarrow> True)"
| "satisfies (Items ks) v \<longleftrightarrow>
     (case v of JArr vs \<Rightarrow> list_all (\<lambda>w. list_all (\<lambda>k. satisfies k w) ks) vs | _ \<Rightarrow> True)"
| "satisfies (Properties ps) v \<longleftrightarrow>
     (case v of
        JObj d \<Rightarrow>
          list_all (\<lambda>(key, ks). case dict_get d key of
              None \<Rightarrow> True | Some w \<Rightarrow> list_all (\<lambda>k. satisfies k w) ks) ps
      | _ \<Rightarrow> True)"
| "satisfies (OnlyProperties keys) v \<longleftrightarrow>
     (case v of JObj d \<Rightarrow> list_all (\<lambda>kv. fst kv \<in> set keys) d | _ \<Rightarrow> True)"
| "satisfies (Required keys) v \<longleftrightarrow>
     (case v of JObj d \<Rightarrow> list_all (\<lambda>key. has_key key d) keys | _ \<Rightarrow> True)"
| "satisfies (OneOf schemas) v \<longleftrightarrow>
     length (filter (\<lambda>ks. list_all (\<lambda>k. satisfies k v) ks) schemas) = 1"

definition conforms :: "jschema list \<Rightarrow> json \<Rightarrow> bool" where
  "conforms ks v \<longleftrightarrow> list_all (\<lambda>k. satisfies k v) ks"

section \<open>Patterns\<close>

text \<open>The end anchor also matches before a final line feed.\<close>

definition until_end :: "(pystr \<Rightarrow> bool) \<Rightarrow> pystr \<Rightarrow> bool" where
  "until_end p s \<longleftrightarrow> p s \<or> s \<noteq> [] \<and> last s = 10 \<and> p (butlast s)"

definition hex_upper :: "pystr \<Rightarrow> bool" where
  "hex_upper = until_end (\<lambda>s. s \<noteq> [] \<and> list_all (\<lambda>c. is_digit c \<or> 65 \<le> c \<and> c \<le> 70) s)"

text \<open>The class \<open>d\<close> of a pattern on \<open>str\<close> is every Unicode decimal digit.\<close>

definition scheme_timestamp :: "pystr \<Rightarrow> bool" where
  "scheme_timestamp = until_end (\<lambda>s.
     list_all2 (\<lambda>p c. if p = CHR ''d'' then is_decimal c else c = of_char p)
       ''dddd-dd-dd dd:dd:dd.ddd'' s)"

section \<open>The schemas\<close>

definition ls1000_sample :: "jschema list" where
  "ls1000_sample =
     [Kind TObject, OnlyProperties [lit ''aid'', lit ''tof''],
      Properties
        [(lit ''aid'', [Kind TString, Pattern hex_upper, MinLength 1, MaxLength 32]),
         (lit ''tof'', [Kind TNumber])],
      Required [lit ''aid'', lit ''tof'']]"

definition ls1000_position :: "jschema list" where
  "ls1000_position =
     [Kind TObject, OnlyProperties [lit ''rgn'', lit ''x'', lit ''y'', lit ''z''],
      Properties
        [(lit ''rgn'', [OneOf [[Kind TInteger], [Kind TString]]]),
         (lit ''x'', [Kind TNumber]), (lit ''y'', [Kind TNumber]), (lit ''z'', [Kind TNumber])],
      Required [lit ''rgn'', lit ''x'', lit ''y'', lit ''z'']]"

definition ls1000_properties :: "(pystr \<times> jschema list) list" where
  "ls1000_properties =
     [(lit ''devid'', [Kind TString, Pattern hex_upper, MinLength 1, MaxLength 32]),
      (lit ''seq'', [Kind TInteger, Minimum 0, Maximum 65535]),
      (lit ''timestamp'', [Kind TString, Pattern scheme_timestamp]),
      (lit ''samples'', [Kind TArray, MinItems 0, Items ls1000_sample]),
      (lit ''position'', ls1000_position),
      (lit ''lat'', [Kind TNumber]), (lit ''lng'', [Kind TNumber])]"

definition ls1000_required :: "pystr list" where
  "ls1000_required = [lit ''devid'', lit ''seq'', lit ''timestamp'', lit ''samples'', lit ''position'']"

definition ls1000_scheme :: "jschema list" where
  "ls1000_scheme =
     [Kind TObject, OnlyProperties (map fst ls1000_properties), Properties ls1000_properties,
      Required ls1000_required]"

definition envelope_v1_schema :: "jschema list" where
  "envelope_v1_schema =
     [Kind TObject,
      OnlyProperties [lit ''schema_version'', lit ''event_type'', lit ''origin'', lit ''normalized'',
        lit ''ingested_at_ms'', lit ''payload''],
      Required [lit ''schema_version'', lit ''event_type'', lit ''origin'', lit ''normalized'',
        lit ''ingested_at_ms'', lit ''payload''],
      Properties
        [(lit ''schema_version'', [Kind TString, Const (lit ''1.0'')]),
         (lit ''event_type'', [Kind TString]), (lit ''origin'', [Kind TString]),
         (lit ''normalized'', [Kind TBoolean]),
         (lit ''ingested_at_ms'', [Kind TInteger, Minimum 0]),
         (lit ''payload'', [Kind TObject])]]"

section \<open>Facts\<close>

lemma required_property:
  assumes "satisfies (Required keys) (JObj d)" and "key \<in> set keys"
  obtains v where "dict_get d key = Some v"
  using assms by (auto simp: list_all_iff has_key_def)

lemma property_value:
  assumes "satisfies (Properties ps) (JObj d)" and "(key, ks) \<in> set ps" and "dict_get d key = Some v"
  shows "conforms ks v"
  using assms by (auto simp: list_all_iff conforms_def dest!: bspec)

lemma absent_property:
  assumes "satisfies (OnlyProperties keys) (JObj d)" and "key \<notin> set keys"
  shows "dict_get d key = None"
proof (rule ccontr)
  assume "dict_get d key \<noteq> None"
  then obtain v where "(key, v) \<in> set d" by (auto dest: map_of_SomeD)
  with assms show False by (auto simp: list_all_iff)
qed

end
