(* ===== verification/Scheme_Properties.thy ===== *)
theory Scheme_Properties
  imports Json_Schema Udp_Server_Properties
begin

text \<open>
  The receiver under the two schemas of the repository: what it publishes has the type that the
  envelope schema gives it, and what becomes of the messages that the configured LS-1000 scheme
  describes.
\<close>

section \<open>The published envelope\<close>

lemma processed_object:
  assumes "process_datagram sv now data h = Inr (p, h')" and "sv_json_normalizer sv \<noteq> None"
  shows "\<exists>ev. p = JObj (asdict ev)"
  using assms
  by (auto simp: process_datagram_def normalize_json_payload_def try_parse_event res_simps Let_def
      split: option.splits)

text \<open>
  C27. Whatever a receiver with a normalizer publishes is an envelope of version 1: its body reads back
  as an object with exactly the fields of \<open>envelope_v1_schema.json\<close>, each of the type that the schema
  asks for.
\<close>

theorem published_envelope_conforms:
  assumes "prepare_message sv dg = Inr (m, h)" and "wf_server sv"
    and "sv_envelope_registry sv = default_registry" and "sv_json_normalizer sv \<noteq> None"
    and "0 \<le> dg_ingest_ms dg"
  shows "\<exists>v. json_loads_bytes m = Inr v \<and> conforms envelope_v1_schema v"
proof -
  obtain payload h0 where
    p: "process_datagram sv (dg_normalize_ms dg) (dg_data dg) (peer_headers dg) = Inr (payload, h0)"
    and m: "json_loads_bytes m = Inr (JObj (v1_build payload
        \<lparr>ec_schema_version = lit ''1.0'', ec_event_type = sv_event_type sv,
         ec_origin = payload_origin payload h0, ec_normalized = is_normalized payload,
         ec_ingested_at_ms = dg_ingest_ms dg\<rparr>))"
    using prepared_message_reads_back [OF assms(1-3)] by blast
  obtain ev where ev: "payload = JObj (asdict ev)" using processed_object [OF p assms(4)] by blast
  obtain o' where "dict_get h0 (lit ''origin'') = Some o'" using process_datagram_origin [OF p assms(2)] by blast
  then have "payload_origin payload h0 = JStr o'" by (simp add: ev payload_origin_def)
  then show ?thesis
    unfolding m using assms(5)
    by (simp add: ev conforms_def envelope_v1_schema_def v1_build_def has_key_def)
qed

lemma published_envelope_conforms_witness:
  "\<exists>m h v. prepare_message sample_server (sample_datagram (lit ''status2:1,A1,2,3'')) = Inr (m, h)
    \<and> json_loads_bytes m = Inr v \<and> conforms envelope_v1_schema v"
proof -
  have "case prepare_message sample_server (sample_datagram (lit ''status2:1,A1,2,3'')) of
      Inl e \<Rightarrow> False | Inr x \<Rightarrow> True" by code_simp
  then obtain m h where m: "prepare_message sample_server (sample_datagram (lit ''status2:1,A1,2,3''))
      = Inr (m, h)" by (auto split: sum.splits)
  have "wf_server sample_server" by (simp add: wf_server_def sample_server_def lit_def)
  from published_envelope_conforms [OF m this] m show ?thesis
    by (auto simp: sample_server_def sample_datagram_def)
qed

section \<open>Messages of the LS-1000 scheme\<close>

lemma until_end_prefix: "until_end p s \<Longrightarrow> \<exists>t u. s = t @ u \<and> p t"
  unfolding until_end_def by (metis append_Nil2 append_butlast_last_id)

lemma hex_upper_starts:
  assumes "hex_upper s"
  obtains c t where "s = c # t" "\<not> is_space c"
proof (cases s)
  case Nil
  with assms show ?thesis by (simp add: hex_upper_def until_end_def)
next
  case (Cons c t)
  with assms have "is_digit c \<or> 65 \<le> c \<and> c \<le> 70"
    by (cases "t = []") (auto simp: hex_upper_def until_end_def)
  then have "\<not> is_space c" by (auto simp: is_digit_def is_space_def)
  with Cons that show ?thesis by blast
qed

lemma strip_starts: "\<not> is_space c \<Longrightarrow> strip (c # t) \<noteq> []"
  by (simp add: strip_def lstrip_def rstrip_def dropWhile_append split: if_splits)

lemma scheme_timestamp_date:
  assumes "scheme_timestamp s"
  obtains y r where "s = y @ 45 # r" "list_all is_decimal y" "y \<noteq> []"
proof -
  let ?p = "\<lambda>t. list_all2 (\<lambda>p c. if p = CHR ''d'' then is_decimal c else c = of_char p)
       ''dddd-dd-dd dd:dd:dd.ddd'' t"
  obtain t u where s: "s = t @ u" and t: "?p t"
    using until_end_prefix [OF assms [unfolded scheme_timestamp_def]] by blast
  from t obtain a b c d r where "t = [a, b, c, d] @ 45 # r" "list_all is_decimal [a, b, c, d]"
    by (auto simp: list_all2_Cons1)
  with s that [of "[a, b, c, d]" "r @ u"] show thesis by simp
qed

lemma scheme_value:
  assumes "conforms ls1000_scheme (JObj d)" and "(key, ks) \<in> set ls1000_properties" and "key \<in> set ls1000_required"
  obtains v where "dict_get d key = Some v" "conforms ks v"
proof -
  have "satisfies (Required ls1000_required) (JObj d)" "satisfies (Properties ls1000_properties) (JObj d)"
    using assms(1) by (simp_all add: conforms_def ls1000_scheme_def)
  then show thesis using that required_property [OF _ assms(3)] property_value [OF _ assms(2)] by metis
qed

lemma ls1000_members:
  "(lit ''devid'', [Kind TString, Pattern hex_upper, MinLength 1, MaxLength 32]) \<in> set ls1000_properties"
  "(lit ''timestamp'', [Kind TString, Pattern scheme_timestamp]) \<in> set ls1000_properties"
  "(lit ''position'', ls1000_position) \<in> set ls1000_properties"
  "(lit ''samples'', [Kind TArray, MinItems 0, Items ls1000_sample]) \<in> set ls1000_properties"
  by (simp_all add: ls1000_properties_def)

lemma ls1000_needs:
  "lit ''devid'' \<in> set ls1000_required" "lit ''timestamp'' \<in> set ls1000_required"
  "lit ''position'' \<in> set ls1000_required" "lit ''samples'' \<in> set ls1000_required"
  by (simp_all add: ls1000_required_def)

lemma scheme_object:
  assumes "conforms ls1000_scheme (JObj d)"
  obtains dev ts p samples where "dict_get d (lit ''devid'') = Some (JStr dev)" "hex_upper dev"
    and "dict_get d (lit ''timestamp'') = Some (JStr ts)" "scheme_timestamp ts"
    and "dict_get d (lit ''position'') = Some (JObj p)" "conforms ls1000_position (JObj p)"
    and "dict_get d (lit ''samples'') = Some (JArr samples)"
    and "\<forall>k. k \<notin> fst ` set ls1000_properties \<longrightarrow> dict_get d k = None"
proof -
  have only: "satisfies (OnlyProperties (map fst ls1000_properties)) (JObj d)"
    using assms by (simp add: conforms_def ls1000_scheme_def)
  obtain v where v: "dict_get d (lit ''devid'') = Some v"
    "conforms [Kind TString, Pattern hex_upper, MinLength 1, MaxLength 32] v"
    by (rule scheme_value [OF assms ls1000_members(1) ls1000_needs(1)])
  obtain t where t: "dict_get d (lit ''timestamp'') = Some t" "conforms [Kind TString, Pattern scheme_timestamp] t"
    by (rule scheme_value [OF assms ls1000_members(2) ls1000_needs(2)])
  obtain w where w: "dict_get d (lit ''position'') = Some w" "conforms ls1000_position w"
    by (rule scheme_value [OF assms ls1000_members(3) ls1000_needs(3)])
  obtain u where u: "dict_get d (lit ''samples'') = Some u" "conforms [Kind TArray, MinItems 0, Items ls1000_sample] u"
    by (rule scheme_value [OF assms ls1000_members(4) ls1000_needs(4)])
  have "\<exists>p. w = JObj p" using w(2) by (cases w) (simp_all add: conforms_def ls1000_position_def)
  moreover have "\<exists>vs. u = JArr vs" using u(2) by (cases u) (simp_all add: conforms_def)
  moreover have "\<exists>s. v = JStr s \<and> hex_upper s" using v(2) by (cases v) (simp_all add: conforms_def)
  moreover have "\<exists>s. t = JStr s \<and> scheme_timestamp s" using t(2) by (cases t) (simp_all add: conforms_def)
  ultimately show thesis using that v(1) t(1) w u(1) absent_property [OF only] by auto
qed

text \<open>What the field readers find in such an object.\<close>

lemma scheme_readers:
  assumes "conforms ls1000_scheme (JObj d)" and "dict_get d (lit ''devid'') = Some (JStr dev)"
  shows "is_ls1000_json d" "ls_first_str it d ls_tag_keys = Inr (Some (strip dev))"
    "ls_first_int it d ls_ts_keys = Inr None"
    "jn_first_str it d jn_tag_keys = Inr (Some (strip dev))" "jn_first_int d jn_ts_keys = Inr None"
proof -
  obtain dev' ts p samples where dev: "dict_get d (lit ''devid'') = Some (JStr dev')" "hex_upper dev'"
    and ts: "dict_get d (lit ''timestamp'') = Some (JStr ts)" "scheme_timestamp ts"
    and p: "dict_get d (lit ''position'') = Some (JObj p)" "conforms ls1000_position (JObj p)"
    and samples: "dict_get d (lit ''samples'') = Some (JArr samples)"
    and absent: "\<forall>k. k \<notin> fst ` set ls1000_properties \<longrightarrow> dict_get d k = None"
    by (rule scheme_object [OF assms(1)]) blast
  have [simp]: "dev' = dev" using dev(1) assms(2) by simp
  have none: "dict_get d (lit k) = None" if "k \<in> {''tag_id'', ''ts_utc_ms'', ''ts''}" for k
    using absent that by (auto simp: ls1000_properties_def lit_def)
  have tag: "strip dev \<noteq> []" using dev(2) strip_starts by (auto elim: hex_upper_starts)
  obtain y r where y: "ts = y @ 45 # r" "list_all is_decimal y" "y \<noteq> []" by (rule scheme_timestamp_date [OF ts(2)])
  show "is_ls1000_json d"
    by (simp add: is_ls1000_json_def json_markers_def has_key_def get_or_null_def assms(2) p(1) samples)
  show "ls_first_str it d ls_tag_keys = Inr (Some (strip dev))"
    by (simp add: ls_tag_keys_def ls_first_str.simps get_or_null_def has_key_def none assms(2) tag)
  show "jn_first_str it d jn_tag_keys = Inr (Some (strip dev))"
    by (simp add: jn_tag_keys_def jn_first_str.simps get_or_null_def none assms(2) tag)
  show "ls_first_int it d ls_ts_keys = Inr None"
    using ls_parse_int_date [OF y(2,3), of it r]
    by (simp add: ls_ts_keys_def int_reader.read_None_iff get_or_null_def none ts(1) y(1))
  show "jn_first_int d jn_ts_keys = Inr None"
    using parse_int_date [OF y(2,3), of r]
    by (simp add: jn_ts_keys_def jn_int_reader.read_None_iff get_or_null_def none ts(1) y(1) Let_def)
qed

lemma scheme_absent:
  assumes "conforms ls1000_scheme (JObj d)"
    and "k \<notin> {''devid'', ''seq'', ''timestamp'', ''samples'', ''position'', ''lat'', ''lng''}"
  shows "dict_get d (lit k) = None"
proof -
  have "satisfies (OnlyProperties (map fst ls1000_properties)) (JObj d)"
    using assms(1) by (simp add: conforms_def ls1000_scheme_def)
  then show ?thesis
    by (rule absent_property) (use assms(2) in \<open>auto simp: ls1000_properties_def\<close>)
qed

text \<open>The receiver of the settings: parser, validator with the scheme, normalizer.\<close>

definition scheme_server :: "'ctx server \<Rightarrow> pystr \<Rightarrow> pystr \<Rightarrow> bool" where
  "scheme_server sv origin norm_origin \<longleftrightarrow>
     sv_parser sv \<and> sv_json_normalizer sv = Some norm_origin
     \<and> (\<exists>schema. sv_validator sv = Some (schema, origin)
          \<and> (\<forall>v. schema v = [] \<longleftrightarrow> conforms ls1000_scheme v))"

text \<open>
  C40. What the receiver makes of a message of the scheme that the settings name. The LS-1000 parser
  refuses it, for want of a timestamp that it can read; the validator accepts it, and the normalizer
  gives the event with the device as its tag, the coordinates as floats, the time of its arrival in
  place of the device's time and a warning that says so, and no area, wherever the region is.
\<close>

theorem scheme_message_normalized:
  assumes server: "scheme_server sv origin norm_origin"
    and message: "wf_json (JObj d)" "json_dumps (JObj d) = Inr s" "encode_utf8 s = Inr data"
    and scheme: "conforms ls1000_scheme (JObj d)" "dict_get d (lit ''devid'') = Some (JStr dev)"
      "dict_get d (lit ''position'') = Some (JObj p)"
    and numbers: "jn_parse_float (get_or_null p (lit ''x'')) = Inr (Some x)"
      "jn_parse_float (get_or_null p (lit ''y'')) = Inr (Some y)"
      "jn_parse_float (get_or_null p (lit ''z'')) = Inr (Some z)"
      "jn_parse_float (get_or_null d (lit ''lng'')) = Inr lng"
      "jn_parse_float (get_or_null d (lit ''lat'')) = Inr lat"
  shows "parse_message (sv_interp sv) s = Inr (ls_err s (lit ''json'') (lit ''missing_field'')
      (lit ''Missing timestamp in JSON payload''))
    \<and> process_datagram sv now data h = Inr
        (JObj (asdict (jn_event norm_origin now s (strip dev) None (Some x, Some y, Some z) None None None lng lat)),
         dict_set (lit ''parser'') (lit ''json-normalizer'') (dict_set (lit ''origin'') origin h))"
proof -
  obtain schema where sv: "sv_parser sv" "sv_json_normalizer sv = Some norm_origin"
    "sv_validator sv = Some (schema, origin)" "schema (JObj d) = []"
    using server scheme(1) by (auto simp: scheme_server_def)
  note r = scheme_readers [OF scheme(1,2)]
  note gone = scheme_absent [OF scheme(1)]
  have ls: "parse_message (sv_interp sv) s = Inr (ls_err s (lit ''json'') (lit ''missing_field'')
      (lit ''Missing timestamp in JSON payload''))"
    using parse_message_dumps [OF message(1,2)] r(1-3) by (simp add: ls_parse_dict_def)
  have "jn_extract_xyz d = Inr (Some x, Some y, Some z)"
    using scheme(3)
    by (simp add: jn_extract_xyz_def get_or_null_def [of d] jn_xyz_def jn_first_float.simps numbers)
  moreover have "get_or_null d (lit ''lon'') = JNull" "get_or_null d (lit ''longitude'') = JNull"
    "get_or_null d (lit ''latitude'') = JNull" by (simp_all add: get_or_null_def gone)
  then have "jn_first_float d [lit ''lng'', lit ''lon'', lit ''longitude''] = Inr lng"
    "jn_first_float d [lit ''lat'', lit ''latitude''] = Inr lat"
    by (simp_all only: jn_first_float.simps numbers bind_res_Inr jn_parse_float.simps option.case
        split: option.split) simp_all
  moreover have "jn_first_int d [lit ''layer'', lit ''layid'', lit ''floor''] = Inr None"
    "jn_first_str it d [lit ''area'', lit ''rgn''] = Inr None" "jn_first_str it d [lit ''status''] = Inr None" for it
    by (simp_all add: get_or_null_def gone jn_first_str.simps jn_first_int.simps)
  ultimately have norm: "normalize (sv_interp sv) norm_origin now (JObj d) s = Inr (Some
      (jn_event norm_origin now s (strip dev) None (Some x, Some y, Some z) None None None lng lat))"
    using r(4,5) by (simp add: normalize_def normalize_dict_def)
  have "strip_trace_keys d = d"
    using gone by (simp add: strip_trace_keys_simp trace_keys_def traceparent_def tracestate_def dict_pop_absent)
  then have strip: "strip_trace_from_string s = Inr s"
    using strip_trace_dumps [OF message(1,2)] message(2) by simp
  have "validate_payload sv s = Inr (JObj d, origin)"
    using json_loads_dumps [OF message(1,2)] sv(3,4) by (simp add: validate_payload_Inr)
  moreover have "decode_utf8 data = Inr s"
    by (rule decode_encode_utf8 [OF json_dumps_valid [OF message(1,2)] message(3)])
  ultimately have "process_datagram sv now data h = Inr
        (JObj (asdict (jn_event norm_origin now s (strip dev) None (Some x, Some y, Some z) None None None lng lat)),
         dict_set (lit ''parser'') (lit ''json-normalizer'') (dict_set (lit ''origin'') origin h))"
    by (simp add: process_datagram_def try_parse_ls1000_def sv ls ls_err_def normalize_json_payload_def
        strip norm)
  with ls show ?thesis by blast
qed

definition sample_scheme_server :: "unit server" where
  "sample_scheme_server = sample_server\<lparr>sv_validator :=
     Some (\<lambda>v. if conforms ls1000_scheme v then [] else [([], [])], lit ''ls-1000'')\<rparr>"

definition sample_scheme_message :: "json dict" where
  "sample_scheme_message =
     [(lit ''devid'', JStr (lit ''01DD4E'')), (lit ''seq'', JInt 7),
      (lit ''timestamp'', JStr (lit ''2024-05-01 10:00:00.000'')), (lit ''samples'', JArr []),
      (lit ''position'', JObj [(lit ''rgn'', JInt 3), (lit ''x'', JInt 1), (lit ''y'', JInt 2), (lit ''z'', JInt 0)])]"

lemma scheme_message_normalized_witness:
  "\<exists>data ev h'. process_datagram sample_scheme_server 42 data [] = Inr (JObj (asdict ev), h')
    \<and> ev_tag_id ev = lit ''01DD4E'' \<and> ev_ts_utc_ms ev = IntVal 42 \<and> ev_area ev = None"
proof -
  have "case bind_res (json_dumps (JObj sample_scheme_message)) encode_utf8 of Inl e \<Rightarrow> False | Inr b \<Rightarrow> True"
    by code_simp
  then obtain s data where s: "json_dumps (JObj sample_scheme_message) = Inr s" "encode_utf8 s = Inr data"
    by (auto simp: res_simps split: sum.splits)
  have "wf_json (JObj sample_scheme_message)" by code_simp
  moreover have "conforms ls1000_scheme (JObj sample_scheme_message)" by code_simp
  moreover have "scheme_server sample_scheme_server (lit ''ls-1000'') (lit ''sim'')"
    by (simp add: scheme_server_def sample_scheme_server_def sample_server_def)
  moreover obtain x y z where "py_float_of_int 1 = Inr x" "py_float_of_int 2 = Inr y" "py_float_of_int 0 = Inr z"
  proof -
    have "case (py_float_of_int 1, py_float_of_int 2, py_float_of_int 0) of (Inr x, Inr y, Inr z) \<Rightarrow> True | _ \<Rightarrow> False"
      by code_simp
    then show ?thesis using that by (auto split: sum.splits)
  qed
  moreover have "strip (lit ''01DD4E'') = lit ''01DD4E''" by code_simp
  moreover have "dict_get sample_scheme_message (lit ''position'') =
      Some (JObj [(lit ''rgn'', JInt 3), (lit ''x'', JInt 1), (lit ''y'', JInt 2), (lit ''z'', JInt 0)])"
    "dict_get sample_scheme_message (lit ''devid'') = Some (JStr (lit ''01DD4E''))"
    "dict_get sample_scheme_message (lit ''lng'') = None" "dict_get sample_scheme_message (lit ''lat'') = None"
    by (simp_all add: sample_scheme_message_def)
  ultimately have "process_datagram sample_scheme_server 42 data [] = Inr (JObj (asdict (jn_event (lit ''sim'') 42 s
      (lit ''01DD4E'') None (Some x, Some y, Some z) None None None None None)),
      dict_set (lit ''parser'') (lit ''json-normalizer'') (dict_set (lit ''origin'') (lit ''ls-1000'') []))"
    using scheme_message_normalized [OF _ _ s, where sv = sample_scheme_server and
        origin = "lit ''ls-1000''" and norm_origin = "lit ''sim''" and dev = "lit ''01DD4E''" and
        x = x and y = y and z = z and lng = None and lat = None and now = 42 and h = "[]"]
    by (simp add: get_or_null_def)
  then show ?thesis
    by (intro exI conjI) (assumption, simp_all add: jn_event_def)
qed

end
