(* ===== verification/Sql_Tables.thy ===== *)
theory Sql_Tables
  imports Repository
begin

text \<open>
  \<open>migrations/0001_create_position_tables.py\<close> and the writing statements of \<open>backend/repository/sql\<close> as
  they are written: tables with typed columns, NOT NULL, defaults and primary keys, the steps that
  apply the migration and roll it back, and INSERT with ON CONFLICT on rows of cells. Tables and
  indexes share one space of names, as in PostgreSQL; the relations that PostgreSQL adds by itself
  (the index of a primary key, the sequence of a serial column) belong to their table here.
\<close>

section \<open>Tables\<close>

datatype column_type = BIGSERIAL | TEXT | BOOLEAN | BIGINT | INTEGER | DOUBLE_PRECISION | JSONB

record column =
  cl_name :: pystr
  cl_type :: column_type
  cl_not_null :: bool
  cl_default :: "json option"

record table_def =
  td_columns :: "column list"
  td_primary_key :: pystr

record index_def =
  ix_table :: pystr
  ix_columns :: "(pystr \<times> bool) list"

datatype cell =
    Null
  | TextCell pystr
  | BoolCell bool
  | IntCell int
  | DoubleCell pyfloat
  | JsonCell json

text \<open>The rows of a table, and the next value of the sequence of its serial column.\<close>

record table_data =
  ta_rows :: "cell dict list"
  ta_next_id :: int

datatype relation = TableRel table_def table_data | IndexRel index_def

type_synonym sql_db = "relation dict"

section \<open>The migration\<close>

datatype ddl =
    CreateTable pystr table_def
  | CreateIndex pystr index_def
  | DropTable pystr
  | DropIndex pystr

definition find_column :: "table_def \<Rightarrow> pystr \<Rightarrow> column option" where
  "find_column td name = find (\<lambda>c. cl_name c = name) (td_columns td)"

fun index_on :: "pystr \<Rightarrow> relation \<Rightarrow> bool" where
  "index_on table (IndexRel ix) = (ix_table ix = table)"
| "index_on table (TableRel td data) = False"

text \<open>A dropped table takes its indexes with it.\<close>

fun run_ddl :: "ddl \<Rightarrow> sql_db \<Rightarrow> sql_db res" where
  "run_ddl (CreateTable name td) db =
     (if has_key name db then Inl DatabaseError
      else Inr (dict_set name (TableRel td \<lparr>ta_rows = [], ta_next_id = 1\<rparr>) db))"
| "run_ddl (CreateIndex name ix) db =
     (if has_key name db then Inl DatabaseError
      else (case dict_get db (ix_table ix) of
              Some (TableRel td data) \<Rightarrow>
                if list_all (\<lambda>(c, desc). find_column td c \<noteq> None) (ix_columns ix)
                then Inr (dict_set name (IndexRel ix) db) else Inl DatabaseError
            | _ \<Rightarrow> Inl DatabaseError))"
| "run_ddl (DropTable name) db =
     (case dict_get db name of
        Some (TableRel td data) \<Rightarrow> Inr (filter (\<lambda>(k, r). k \<noteq> name \<and> \<not> index_on name r) db)
      | _ \<Rightarrow> Inl DatabaseError)"
| "run_ddl (DropIndex name) db =
     (case dict_get db name of
        Some (IndexRel ix) \<Rightarrow> Inr (filter (\<lambda>(k, r). k \<noteq> name) db)
      | _ \<Rightarrow> Inl DatabaseError)"

fun run_ddls :: "ddl list \<Rightarrow> sql_db \<Rightarrow> sql_db res" where
  "run_ddls [] db = Inr db"
| "run_ddls (s # ss) db = bind_res (run_ddl s db) (run_ddls ss)"

text \<open>yoyo runs a step in a transaction.\<close>

definition run_step :: "ddl list \<Rightarrow> sql_db \<Rightarrow> sql_db \<times> unit res" where
  "run_step statements db =
     (case run_ddls statements db of Inl e \<Rightarrow> (db, Inl e) | Inr db' \<Rightarrow> (db', Inr ()))"

definition required_column :: "string \<Rightarrow> column_type \<Rightarrow> column" where
  "required_column name ty = \<lparr>cl_name = lit name, cl_type = ty, cl_not_null = True, cl_default = None\<rparr>"

definition nullable_column :: "string \<Rightarrow> column_type \<Rightarrow> column" where
  "nullable_column name ty = \<lparr>cl_name = lit name, cl_type = ty, cl_not_null = False, cl_default = None\<rparr>"

definition warnings_column :: column where
  "warnings_column =
     \<lparr>cl_name = lit ''parse_warnings'', cl_type = JSONB, cl_not_null = True, cl_default = Some (JArr [])\<rparr>"

definition position_events_name :: pystr where
  "position_events_name = lit ''position_events''"

definition current_positions_name :: pystr where
  "current_positions_name = lit ''current_positions''"

text \<open>A primary key is NOT NULL.\<close>

definition position_events_table :: table_def where
  "position_events_table =
     \<lparr>td_columns =
       [required_column ''id'' BIGSERIAL,
        required_column ''schema_version'' TEXT,
        required_column ''event_type'' TEXT,
        required_column ''origin'' TEXT,
        required_column ''normalized'' BOOLEAN,
        required_column ''ingested_at_ms'' BIGINT,
        required_column ''tag_id'' TEXT,
        required_column ''ts_utc_ms'' BIGINT,
        required_column ''source_type'' TEXT,
        nullable_column ''status'' TEXT,
        nullable_column ''layer'' INTEGER,
        nullable_column ''area'' TEXT,
        nullable_column ''x'' DOUBLE_PRECISION,
        nullable_column ''y'' DOUBLE_PRECISION,
        nullable_column ''z'' DOUBLE_PRECISION,
        nullable_column ''lng'' DOUBLE_PRECISION,
        nullable_column ''lat'' DOUBLE_PRECISION,
        required_column ''raw_message'' TEXT,
        warnings_column],
      td_primary_key = lit ''id''\<rparr>"

definition current_positions_table :: table_def where
  "current_positions_table =
     \<lparr>td_columns =
       [required_column ''tag_id'' TEXT,
        required_column ''schema_version'' TEXT,
        required_column ''event_type'' TEXT,
        required_column ''origin'' TEXT,
        required_column ''normalized'' BOOLEAN,
        required_column ''ingested_at_ms'' BIGINT,
        required_column ''ts_utc_ms'' BIGINT,
        required_column ''source_type'' TEXT,
        nullable_column ''status'' TEXT,
        nullable_column ''layer'' INTEGER,
        nullable_column ''area'' TEXT,
        nullable_column ''x'' DOUBLE_PRECISION,
        nullable_column ''y'' DOUBLE_PRECISION,
        nullable_column ''z'' DOUBLE_PRECISION,
        nullable_column ''lng'' DOUBLE_PRECISION,
        nullable_column ''lat'' DOUBLE_PRECISION,
        required_column ''raw_message'' TEXT,
        warnings_column],
      td_primary_key = lit ''tag_id''\<rparr>"

definition tag_ts_index :: index_def where
  "tag_ts_index =
     \<lparr>ix_table = position_events_name, ix_columns = [(lit ''tag_id'', False), (lit ''ts_utc_ms'', True)]\<rparr>"

definition ts_index :: index_def where
  "ts_index = \<lparr>ix_table = position_events_name, ix_columns = [(lit ''ts_utc_ms'', True)]\<rparr>"

definition tag_ts_index_name :: pystr where
  "tag_ts_index_name = lit ''position_events_tag_id_ts_utc_ms_idx''"

definition ts_index_name :: pystr where
  "ts_index_name = lit ''position_events_ts_utc_ms_idx''"

definition migration_apply :: "ddl list" where
  "migration_apply =
     [CreateTable position_events_name position_events_table,
      CreateIndex tag_ts_index_name tag_ts_index,
      CreateIndex ts_index_name ts_index,
      CreateTable current_positions_name current_positions_table]"

definition migration_rollback :: "ddl list" where
  "migration_rollback =
     [DropTable current_positions_name,
      DropIndex ts_index_name,
      DropIndex tag_ts_index_name,
      DropTable position_events_name]"

section \<open>INSERT\<close>

text \<open>
  ON CONFLICT (target) DO UPDATE SET column = EXCLUDED.column, ... WHERE EXCLUDED.column >=
  table.column.
\<close>

record on_conflict =
  oc_target :: pystr
  oc_set :: "(pystr \<times> pystr) list"
  oc_where :: "pystr \<times> pystr"

record insert_stmt =
  is_table :: pystr
  is_columns :: "pystr list"
  is_values :: "pystr list"
  is_conflict :: "on_conflict option"

text \<open>The conversion of a parameter to the type of a column; \<open>None\<close> of the driver is NULL.\<close>

definition opt_cell :: "('a \<Rightarrow> cell) \<Rightarrow> 'a option \<Rightarrow> cell" where
  "opt_cell f o' = (case o' of None \<Rightarrow> Null | Some a \<Rightarrow> f a)"

fun convert :: "pg \<Rightarrow> column_type \<Rightarrow> json \<Rightarrow> cell res" where
  "convert pg TEXT v = bind_res (pg_text pg v) (\<lambda>r. Inr (opt_cell TextCell r))"
| "convert pg BOOLEAN v = bind_res (pg_boolean pg v) (\<lambda>r. Inr (opt_cell BoolCell r))"
| "convert pg BIGINT v = bind_res (pg_bigint pg v) (\<lambda>r. Inr (opt_cell IntCell r))"
| "convert pg BIGSERIAL v = bind_res (pg_bigint pg v) (\<lambda>r. Inr (opt_cell IntCell r))"
| "convert pg INTEGER v = bind_res (pg_integer pg v) (\<lambda>r. Inr (opt_cell IntCell r))"
| "convert pg DOUBLE_PRECISION v = bind_res (pg_double pg v) (\<lambda>r. Inr (opt_cell DoubleCell r))"
| "convert pg JSONB v = bind_res (pg_jsonb pg v) (\<lambda>r. Inr (opt_cell JsonCell r))"

definition check_null :: "column \<Rightarrow> cell \<Rightarrow> cell res" where
  "check_null c v = (if cl_not_null c \<and> v = Null then Inl DatabaseError else Inr v)"

definition cell_of :: "cell dict \<Rightarrow> pystr \<Rightarrow> cell" where
  "cell_of row k = (case dict_get row k of None \<Rightarrow> Null | Some c \<Rightarrow> c)"

text \<open>The columns that the statement names, from the parameters of its placeholders.\<close>

definition supplied_cell :: "pg \<Rightarrow> table_def \<Rightarrow> json dict \<Rightarrow> pystr \<times> pystr \<Rightarrow> (pystr \<times> cell) res" where
  "supplied_cell pg td params cp =
     (case (find_column td (fst cp), dict_get params (snd cp)) of
        (Some c, Some v) \<Rightarrow>
          bind_res (bind_res (convert pg (cl_type c) v) (check_null c)) (\<lambda>x. Inr (fst cp, x))
      | _ \<Rightarrow> Inl DatabaseError)"

text \<open>The other columns: the next value of the sequence, which ends with BIGINT, or the default.\<close>

definition default_cell :: "int \<Rightarrow> column \<Rightarrow> (pystr \<times> cell) res" where
  "default_cell next_id c =
     bind_res
       (if cl_type c = BIGSERIAL then if next_id < 2^63 then Inr (IntCell next_id) else Inl DatabaseError
        else check_null c (case cl_default c of None \<Rightarrow> Null | Some v \<Rightarrow> JsonCell v))
       (\<lambda>x. Inr (cl_name c, x))"

definition other_columns :: "table_def \<Rightarrow> insert_stmt \<Rightarrow> column list" where
  "other_columns td stmt = filter (\<lambda>c. cl_name c \<notin> set (is_columns stmt)) (td_columns td)"

fun cell_ge :: "cell \<Rightarrow> cell \<Rightarrow> bool" where
  "cell_ge (IntCell i) (IntCell j) = (i \<ge> j)"
| "cell_ge _ _ = False"

definition set_columns :: "(pystr \<times> pystr) list \<Rightarrow> cell dict \<Rightarrow> cell dict \<Rightarrow> cell dict" where
  "set_columns assigns excluded old =
     map (\<lambda>(k, c). (k, case map_of assigns k of None \<Rightarrow> c | Some e \<Rightarrow> cell_of excluded e)) old"

definition conflict_update :: "on_conflict \<Rightarrow> cell dict \<Rightarrow> cell dict \<Rightarrow> cell dict" where
  "conflict_update oc row old =
     (if cell_of old (oc_target oc) = cell_of row (oc_target oc)
         \<and> cell_ge (cell_of row (fst (oc_where oc))) (cell_of old (snd (oc_where oc)))
      then set_columns (oc_set oc) row old else old)"

text \<open>A row whose primary key is taken violates it, unless ON CONFLICT says what to do.\<close>

definition place_row :: "table_def \<Rightarrow> on_conflict option \<Rightarrow> cell dict \<Rightarrow> cell dict list \<Rightarrow> cell dict list res" where
  "place_row td conflict row rows =
     (let key = td_primary_key td;
          taken = list_ex (\<lambda>old. cell_of old key = cell_of row key) rows
      in case conflict of
           None \<Rightarrow> if taken then Inl DatabaseError else Inr (rows @ [row])
         | Some oc \<Rightarrow>
             if oc_target oc \<noteq> key then Inl DatabaseError
             else if taken then Inr (map (conflict_update oc row) rows)
             else Inr (rows @ [row]))"

definition insert_into :: "pg \<Rightarrow> insert_stmt \<Rightarrow> json dict \<Rightarrow> table_def \<Rightarrow> table_data \<Rightarrow> table_data res" where
  "insert_into pg stmt params td data =
     (if length (is_columns stmt) \<noteq> length (is_values stmt) \<or> \<not> distinct (is_columns stmt)
      then Inl DatabaseError
      else
        bind_res (map_res (supplied_cell pg td params) (zip (is_columns stmt) (is_values stmt))) (\<lambda>given.
        bind_res (map_res (default_cell (ta_next_id data)) (other_columns td stmt)) (\<lambda>others.
        bind_res (place_row td (is_conflict stmt) (given @ others) (ta_rows data)) (\<lambda>rows. Inr
          \<lparr>ta_rows = rows,
           ta_next_id = ta_next_id data
             + (if list_ex (\<lambda>c. cl_type c = BIGSERIAL) (other_columns td stmt) then 1 else 0)\<rparr>))))"

definition exec_insert :: "pg \<Rightarrow> insert_stmt \<Rightarrow> json dict \<Rightarrow> sql_db \<Rightarrow> sql_db res" where
  "exec_insert pg stmt params db =
     (case dict_get db (is_table stmt) of
        Some (TableRel td data) \<Rightarrow>
          bind_res (insert_into pg stmt params td data) (\<lambda>data'.
            Inr (dict_set (is_table stmt) (TableRel td data') db))
      | _ \<Rightarrow> Inl DatabaseError)"

section \<open>The statements of the repository\<close>

definition written_columns :: "pystr list" where
  "written_columns =
     [lit ''schema_version'', lit ''event_type'', lit ''origin'', lit ''normalized'', lit ''ingested_at_ms'',
      lit ''tag_id'', lit ''ts_utc_ms'', lit ''source_type'', lit ''status'', lit ''layer'', lit ''area'',
      lit ''x'', lit ''y'', lit ''z'', lit ''lng'', lit ''lat'', lit ''raw_message'', lit ''parse_warnings'']"

definition insert_position_event_stmt :: insert_stmt where
  "insert_position_event_stmt =
     \<lparr>is_table = position_events_name, is_columns = written_columns, is_values = written_columns,
      is_conflict = None\<rparr>"

definition upsert_current_position_stmt :: insert_stmt where
  "upsert_current_position_stmt =
     \<lparr>is_table = current_positions_name, is_columns = written_columns, is_values = written_columns,
      is_conflict = Some
        \<lparr>oc_target = lit ''tag_id'',
         oc_set =
           [(lit ''schema_version'', lit ''schema_version''), (lit ''event_type'', lit ''event_type''),
            (lit ''origin'', lit ''origin''), (lit ''normalized'', lit ''normalized''),
            (lit ''ingested_at_ms'', lit ''ingested_at_ms''), (lit ''ts_utc_ms'', lit ''ts_utc_ms''),
            (lit ''source_type'', lit ''source_type''), (lit ''status'', lit ''status''),
            (lit ''layer'', lit ''layer''), (lit ''area'', lit ''area''), (lit ''x'', lit ''x''),
            (lit ''y'', lit ''y''), (lit ''z'', lit ''z''), (lit ''lng'', lit ''lng''),
            (lit ''lat'', lit ''lat''), (lit ''raw_message'', lit ''raw_message''),
            (lit ''parse_warnings'', lit ''parse_warnings'')],
         oc_where = (lit ''ts_utc_ms'', lit ''ts_utc_ms'')\<rparr>\<rparr>"

text \<open>\<open>persist_envelope\<close> with the statements as they are; both extract the parameters.\<close>

definition sql_persist_envelope :: "pg \<Rightarrow> json dict \<Rightarrow> sql_db \<Rightarrow> sql_db res" where
  "sql_persist_envelope pg envelope db =
     bind_res (bind_res (extract_params envelope) (\<lambda>params. exec_insert pg insert_position_event_stmt params db))
       (\<lambda>db. bind_res (extract_params envelope) (\<lambda>params. exec_insert pg upsert_current_position_stmt params db))"

text \<open>
  The transaction of a write. A rollback does not give back the values of a sequence: \<open>gap\<close> of them
  are lost.
\<close>

definition skip_ids :: "pystr \<Rightarrow> nat \<Rightarrow> sql_db \<Rightarrow> sql_db" where
  "skip_ids table gap db =
     (case dict_get db table of
        Some (TableRel td data) \<Rightarrow> dict_set table (TableRel td (data\<lparr>ta_next_id := ta_next_id data + int gap\<rparr>)) db
      | _ \<Rightarrow> db)"

definition sql_write :: "pg \<Rightarrow> nat \<Rightarrow> py_exc option \<Rightarrow> json dict \<Rightarrow> sql_db \<Rightarrow> sql_db \<times> unit res" where
  "sql_write pg gap fault envelope db =
     (case fault of
        Some e \<Rightarrow> (skip_ids position_events_name gap db, Inl e)
      | None \<Rightarrow>
          (case sql_persist_envelope pg envelope db of
             Inl e \<Rightarrow> (skip_ids position_events_name gap db, Inl e)
           | Inr db' \<Rightarrow> (db', Inr ())))"

end
