(* ===== verification/Sql_Tables_Properties.thy ===== *)
theory Sql_Tables_Properties
  imports Sql_Tables Repository_Properties
begin

text \<open>
  Properties of the migration and of the writing statements on the tables that it creates: the
  rollback undoes the migration whatever was written in between, the statements implement the
  operations of the repository, and the rows keep the types of their columns.
\<close>

section \<open>The database after the migration\<close>

definition migrated :: "sql_db \<Rightarrow> table_data \<Rightarrow> table_data \<Rightarrow> sql_db" where
  "migrated base d1 d2 =
     base @ [(position_events_name, TableRel position_events_table d1),
             (tag_ts_index_name, IndexRel tag_ts_index),
             (ts_index_name, IndexRel ts_index),
             (current_positions_name, TableRel current_positions_table d2)]"

definition migration_names :: "pystr list" where
  "migration_names = [position_events_name, tag_ts_index_name, ts_index_name, current_positions_name]"

definition empty_table :: table_data where
  "empty_table = \<lparr>ta_rows = [], ta_next_id = 1\<rparr>"

lemmas name_defs = position_events_name_def tag_ts_index_name_def ts_index_name_def current_positions_name_def

lemma names_distinct [simp]:
  "position_events_name \<noteq> tag_ts_index_name" "position_events_name \<noteq> ts_index_name"
  "position_events_name \<noteq> current_positions_name" "tag_ts_index_name \<noteq> ts_index_name"
  "tag_ts_index_name \<noteq> current_positions_name" "ts_index_name \<noteq> current_positions_name"
  "tag_ts_index_name \<noteq> position_events_name" "ts_index_name \<noteq> position_events_name"
  "current_positions_name \<noteq> position_events_name" "ts_index_name \<noteq> tag_ts_index_name"
  "current_positions_name \<noteq> tag_ts_index_name" "current_positions_name \<noteq> ts_index_name"
  by (simp_all add: name_defs)

definition none_taken :: "sql_db \<Rightarrow> bool" where
  "none_taken base \<longleftrightarrow> list_all (\<lambda>n. dict_get base n = None) migration_names"

lemma none_takenD:
  assumes "none_taken base"
  shows "dict_get base position_events_name = None" "dict_get base tag_ts_index_name = None"
    "dict_get base ts_index_name = None" "dict_get base current_positions_name = None"
  using assms by (simp_all add: none_taken_def migration_names_def)

lemma update_append: "map_of d k = None \<Longrightarrow> AList.update k v (d @ e) = d @ AList.update k v e"
  by (induction d) (auto split: if_splits)

lemma get_beyond: "map_of d k = None \<Longrightarrow> map_of (d @ e) k = map_of e k"
  by (simp add: map_add_def)

lemma column_found [simp]:
  "find_column position_events_table (lit ''tag_id'') = Some (required_column ''tag_id'' TEXT)"
  "find_column position_events_table (lit ''ts_utc_ms'') = Some (required_column ''ts_utc_ms'' BIGINT)"
  by (simp_all add: find_column_def position_events_table_def required_column_def)

lemma apply_migrated:
  assumes "none_taken base"
  shows "run_ddls migration_apply base = Inr (migrated base empty_table empty_table)"
  using none_takenD [OF assms]
  by (simp add: migration_apply_def has_key_def tag_ts_index_def ts_index_def migrated_def
      empty_table_def update_append get_beyond dict_set_new [of base] del: map_of_append)

lemma apply_taken:
  assumes "\<not> none_taken base"
  shows "run_ddls migration_apply base = Inl DatabaseError"
  using assms
  by (auto simp: migration_apply_def none_taken_def migration_names_def has_key_def tag_ts_index_def
      ts_index_def)

text \<open>An index of the surroundings is on a table of the surroundings.\<close>

definition indexes_have_tables :: "sql_db \<Rightarrow> bool" where
  "indexes_have_tables db \<longleftrightarrow>
     list_all (\<lambda>(k, r). case r of IndexRel ix \<Rightarrow> has_key (ix_table ix) db | TableRel td data \<Rightarrow> True) db"

lemma drop_absent:
  assumes "dict_get base name = None" and "indexes_have_tables base"
  shows "filter (\<lambda>(k, r). k \<noteq> name \<and> \<not> index_on name r) base = base"
    and "filter (\<lambda>(k, r). k \<noteq> name) base = base"
proof -
  have "k \<noteq> name \<and> \<not> index_on name r" if "(k, r) \<in> set base" for k r
    using that assms
    by (cases r) (auto simp: indexes_have_tables_def list_all_iff has_key_def map_of_eq_None_iff
        dest!: bspec [OF _ that] intro: image_eqI [of name fst "(k, r)"])
  then show "filter (\<lambda>(k, r). k \<noteq> name \<and> \<not> index_on name r) base = base"
    and "filter (\<lambda>(k, r). k \<noteq> name) base = base"
    by (auto simp: filter_id_conv)
qed

lemma rollback_migrated:
  assumes "none_taken base" and "indexes_have_tables base"
  shows "run_ddls migration_rollback (migrated base d1 d2) = Inr base"
  using none_takenD [OF assms(1)]
  by (simp add: migration_rollback_def migrated_def get_beyond drop_absent [OF _ assms(2)]
      tag_ts_index_def ts_index_def del: map_of_append)

section \<open>Rows as cells\<close>

definition row_cells :: "position_row \<Rightarrow> cell dict" where
  "row_cells r =
     [(lit ''schema_version'', TextCell (pr_schema_version r)),
      (lit ''event_type'', TextCell (pr_event_type r)),
      (lit ''origin'', TextCell (pr_origin r)),
      (lit ''normalized'', BoolCell (pr_normalized r)),
      (lit ''ingested_at_ms'', IntCell (pr_ingested_at_ms r)),
      (lit ''tag_id'', TextCell (pr_tag_id r)),
      (lit ''ts_utc_ms'', IntCell (pr_ts_utc_ms r)),
      (lit ''source_type'', TextCell (pr_source_type r)),
      (lit ''status'', opt_cell TextCell (pr_status r)),
      (lit ''layer'', opt_cell IntCell (pr_layer r)),
      (lit ''area'', opt_cell TextCell (pr_area r)),
      (lit ''x'', opt_cell DoubleCell (pr_x r)),
      (lit ''y'', opt_cell DoubleCell (pr_y r)),
      (lit ''z'', opt_cell DoubleCell (pr_z r)),
      (lit ''lng'', opt_cell DoubleCell (pr_lng r)),
      (lit ''lat'', opt_cell DoubleCell (pr_lat r)),
      (lit ''raw_message'', TextCell (pr_raw_message r)),
      (lit ''parse_warnings'', JsonCell (pr_parse_warnings r))]"

lemma row_cells_keys: "map fst (row_cells r) = written_columns"
  by (simp add: row_cells_def written_columns_def)

lemma row_cell_of [simp]:
  "cell_of (row_cells r) (lit ''tag_id'') = TextCell (pr_tag_id r)"
  "cell_of (row_cells r) (lit ''ts_utc_ms'') = IntCell (pr_ts_utc_ms r)"
  by (simp_all add: row_cells_def cell_of_def)

text \<open>The parameters fill every placeholder.\<close>

lemma extract_params_keys:
  assumes "extract_params envelope = Inr params"
  shows "map fst params = written_columns"
  using assms
  by (auto simp: extract_params_def payload_params_def written_columns_def Let_def res_simps split: json.splits)

lemma param_present:
  assumes "map fst params = written_columns" and "lit name \<in> set written_columns"
  shows "dict_get params (lit name) = Some (param params name)"
proof -
  have "lit name \<in> fst ` set params" using assms by (metis list.set_map)
  then obtain v where "dict_get params (lit name) = Some v"
    by (metis map_of_eq_None_iff not_Some_eq)
  then show ?thesis by (simp add: param_def get_or_null_def)
qed

text \<open>One column, written by a statement, is one step of the conversion of the row.\<close>

lemma bind_required_cell:
  assumes "\<And>a. mk a \<noteq> Null" and "cl_not_null c"
  shows "bind_res (bind_res (bind_res m (\<lambda>r. Inr (opt_cell mk r))) (check_null c)) f =
    bind_res (not_null m) (\<lambda>a. f (mk a))"
proof (cases m)
  case (Inr r)
  then show ?thesis using assms by (cases r) (simp_all add: not_null_def opt_cell_def check_null_def)
qed (simp add: not_null_def)

lemma required_column_simps [simp]:
  "cl_type (required_column name ty) = ty" "cl_not_null (required_column name ty)"
  by (simp_all add: required_column_def)

lemma supplied_required:
  assumes "map fst params = written_columns" and "lit name \<in> set written_columns"
    and "convert pg ty (param params name) = bind_res m (\<lambda>r. Inr (opt_cell mk r))" and "\<And>a. mk a \<noteq> Null"
    and "find_column td (lit name) = Some c" and "cl_not_null c" and "cl_type c = ty"
  shows "bind_res (supplied_cell pg td params (lit name, lit name)) f =
    bind_res (not_null m) (\<lambda>a. f (lit name, mk a))"
  using param_present [OF assms(1,2)] assms(3,5-7) bind_required_cell [OF assms(4,6)]
  by (simp add: supplied_cell_def bind_res_assoc)

lemma supplied_nullable:
  assumes "map fst params = written_columns" and "lit name \<in> set written_columns"
    and "convert pg ty (param params name) = bind_res m (\<lambda>r. Inr (opt_cell mk r))"
    and "find_column td (lit name) = Some (nullable_column name ty)"
  shows "bind_res (supplied_cell pg td params (lit name, lit name)) f =
    bind_res m (\<lambda>r. f (lit name, opt_cell mk r))"
  using param_present [OF assms(1,2)] assms(3,4)
  by (simp add: supplied_cell_def bind_res_assoc nullable_column_def check_null_def)

definition columns_match :: "table_def \<Rightarrow> bool" where
  "columns_match td \<longleftrightarrow>
     list_all (\<lambda>(name, ty). find_column td (lit name) = Some (required_column name ty))
       [(''schema_version'', TEXT), (''event_type'', TEXT), (''origin'', TEXT), (''normalized'', BOOLEAN),
        (''ingested_at_ms'', BIGINT), (''tag_id'', TEXT), (''ts_utc_ms'', BIGINT), (''source_type'', TEXT),
        (''raw_message'', TEXT)]
     \<and> list_all (\<lambda>(name, ty). find_column td (lit name) = Some (nullable_column name ty))
         [(''status'', TEXT), (''layer'', INTEGER), (''area'', TEXT), (''x'', DOUBLE_PRECISION),
          (''y'', DOUBLE_PRECISION), (''z'', DOUBLE_PRECISION), (''lng'', DOUBLE_PRECISION),
          (''lat'', DOUBLE_PRECISION)]
     \<and> find_column td (lit ''parse_warnings'') = Some warnings_column"

lemma tables_match: "columns_match position_events_table" "columns_match current_positions_table"
  by (simp_all add: columns_match_def find_column_def position_events_table_def
      current_positions_table_def required_column_def nullable_column_def warnings_column_def)

lemma bind_res_step: "m = m' \<Longrightarrow> (\<And>a. f a = g a) \<Longrightarrow> bind_res m f = bind_res m' g"
  by (cases m') simp_all

lemma supplied_row:
  assumes keys: "map fst params = written_columns" and td: "columns_match td"
  shows "map_res (supplied_cell pg td params) (zip written_columns written_columns) =
    bind_res (row_of_params pg params) (\<lambda>r. Inr (row_cells r))"
proof -
  note cols = td [unfolded columns_match_def list.pred_inject split_conv]
  have all: "lit n \<in> set written_columns"
    if "n \<in> {''schema_version'', ''event_type'', ''origin'', ''normalized'', ''ingested_at_ms'',
      ''tag_id'', ''ts_utc_ms'', ''source_type'', ''status'', ''layer'', ''area'', ''x'', ''y'', ''z'',
      ''lng'', ''lat'', ''raw_message'', ''parse_warnings''}" for n
    using that by (auto simp: written_columns_def)
  note required = supplied_required [OF keys all]
  note nullable = supplied_nullable [OF keys all]
  have texts: "bind_res (supplied_cell pg td params (lit n, lit n)) f =
      bind_res (not_null (pg_text pg (param params n))) (\<lambda>a. f (lit n, TextCell a))"
    if "n \<in> {''schema_version'', ''event_type'', ''origin'', ''tag_id'', ''source_type'', ''raw_message''}" for n f
    using that cols by (intro required [where ty = TEXT and c = "required_column n TEXT"]) auto
  have bigint: "bind_res (supplied_cell pg td params (lit n, lit n)) f =
      bind_res (not_null (pg_bigint pg (param params n))) (\<lambda>a. f (lit n, IntCell a))"
    if "n \<in> {''ingested_at_ms'', ''ts_utc_ms''}" for n f
    using that cols by (intro required [where ty = BIGINT and c = "required_column n BIGINT"]) auto
  have others: "bind_res (supplied_cell pg td params (lit ''normalized'', lit ''normalized'')) f =
      bind_res (not_null (pg_boolean pg (param params ''normalized''))) (\<lambda>a. f (lit ''normalized'', BoolCell a))"
    "bind_res (supplied_cell pg td params (lit ''parse_warnings'', lit ''parse_warnings'')) f =
      bind_res (not_null (pg_jsonb pg (param params ''parse_warnings''))) (\<lambda>a. f (lit ''parse_warnings'', JsonCell a))"
    "bind_res (supplied_cell pg td params (lit ''layer'', lit ''layer'')) f =
      bind_res (pg_integer pg (param params ''layer'')) (\<lambda>a. f (lit ''layer'', opt_cell IntCell a))" for f
    using cols
    by (intro required [where ty = BOOLEAN and c = "required_column ''normalized'' BOOLEAN"]
        required [where ty = JSONB and c = warnings_column] nullable [where ty = INTEGER];
        simp add: warnings_column_def)+
  have opt_text: "bind_res (supplied_cell pg td params (lit n, lit n)) f =
      bind_res (pg_text pg (param params n)) (\<lambda>a. f (lit n, opt_cell TextCell a))"
    if "n \<in> {''status'', ''area''}" for n f
    using that cols by (intro nullable [where ty = TEXT]) auto
  have opt_double: "bind_res (supplied_cell pg td params (lit n, lit n)) f =
      bind_res (pg_double pg (param params n)) (\<lambda>a. f (lit n, opt_cell DoubleCell a))"
    if "n \<in> {''x'', ''y'', ''z'', ''lng'', ''lat''}" for n f
    using that cols by (intro nullable [where ty = DOUBLE_PRECISION]) auto
  show ?thesis
    by (simp add: written_columns_def row_of_params_def row_cells_def bind_res_assoc texts bigint others
        opt_text opt_double del: lit_eq_iff)
qed

section \<open>The statements implement the repository\<close>

text \<open>
  The rows of the events are those of the model with identifiers that the sequence has given, the
  current positions are the rows of the model in their order.
\<close>

definition event_cells :: "int \<Rightarrow> position_row \<Rightarrow> cell dict" where
  "event_cells i r = row_cells r @ [(lit ''id'', IntCell i)]"

definition events_stored :: "table_data \<Rightarrow> position_row list \<Rightarrow> bool" where
  "events_stored data rs \<longleftrightarrow>
     (\<exists>ids. length ids = length rs \<and> ta_rows data = map2 event_cells ids rs
        \<and> distinct ids \<and> (\<forall>i\<in>set ids. 1 \<le> i \<and> i < ta_next_id data))"

definition current_stored :: "table_data \<Rightarrow> position_row dict \<Rightarrow> bool" where
  "current_stored data t \<longleftrightarrow>
     ta_rows data = map (\<lambda>kr. row_cells (snd kr)) t \<and> wf_dict t \<and> (\<forall>kr\<in>set t. fst kr = pr_tag_id (snd kr))"

lemma event_id [simp]: "cell_of (event_cells i r) (lit ''id'') = IntCell i"
  by (simp add: event_cells_def row_cells_def cell_of_def)

lemma map_res_single: "map_res f [x] = bind_res (f x) (\<lambda>y. Inr [y])"
  by simp

lemma event_other_columns:
  "other_columns position_events_table insert_position_event_stmt = [required_column ''id'' BIGSERIAL]"
  by (simp add: other_columns_def position_events_table_def insert_position_event_stmt_def
      written_columns_def required_column_def nullable_column_def warnings_column_def)

lemma current_other_columns:
  "other_columns current_positions_table upsert_current_position_stmt = []"
  by (simp add: other_columns_def current_positions_table_def upsert_current_position_stmt_def
      written_columns_def required_column_def nullable_column_def warnings_column_def)

lemma written_distinct: "distinct written_columns"
  by (simp add: written_columns_def)

lemma cl_name_required [simp]: "cl_name (required_column name ty) = lit name"
  by (simp add: required_column_def)

lemma stmt_simps [simp]:
  "is_columns insert_position_event_stmt = written_columns" "is_values insert_position_event_stmt = written_columns"
  "is_columns upsert_current_position_stmt = written_columns"
  "is_values upsert_current_position_stmt = written_columns"
  "is_conflict insert_position_event_stmt = None"
  "is_table insert_position_event_stmt = position_events_name"
  "is_table upsert_current_position_stmt = current_positions_name"
  by (simp_all add: insert_position_event_stmt_def upsert_current_position_stmt_def)

lemma insert_event:
  assumes keys: "map fst params = written_columns" and st: "events_stored data rs"
    and next_id: "1 \<le> ta_next_id data" "ta_next_id data < 2^63"
  shows "case row_of_params pg params of
      Inl e \<Rightarrow> insert_into pg insert_position_event_stmt params position_events_table data = Inl e
    | Inr r \<Rightarrow> \<exists>data'. insert_into pg insert_position_event_stmt params position_events_table data = Inr data'
        \<and> events_stored data' (rs @ [r]) \<and> ta_next_id data' = ta_next_id data + 1"
proof (cases "row_of_params pg params")
  case (Inl e)
  then show ?thesis
    by (simp add: insert_into_def written_distinct supplied_row [OF keys tables_match(1)])
next
  case (Inr r)
  from st obtain ids where ids: "length ids = length rs" "ta_rows data = map2 event_cells ids rs"
    "distinct ids" "\<forall>i\<in>set ids. 1 \<le> i \<and> i < ta_next_id data"
    unfolding events_stored_def by blast
  let ?row = "event_cells (ta_next_id data) r"
  let ?data = "\<lparr>ta_rows = ta_rows data @ [?row], ta_next_id = ta_next_id data + 1\<rparr>"
  have "\<not> list_ex (\<lambda>old. cell_of old (lit ''id'') = cell_of ?row (lit ''id'')) (ta_rows data)"
    using ids(4) by (auto simp: ids(2) list_ex_iff dest: set_zip_leftD)
  then have "place_row position_events_table None ?row (ta_rows data) = Inr (ta_rows data @ [?row])"
    by (simp add: place_row_def position_events_table_def)
  then have "insert_into pg insert_position_event_stmt params position_events_table data = Inr ?data"
    using next_id(2) Inr
    by (simp add: insert_into_def written_distinct supplied_row [OF keys tables_match(1)]
        event_other_columns default_cell_def event_cells_def)
  moreover have "events_stored ?data (rs @ [r])"
    unfolding events_stored_def
    by (rule exI [of _ "ids @ [ta_next_id data]"]) (use ids next_id(1) in auto)
  ultimately show ?thesis using Inr by simp
qed

text \<open>The update of a conflict replaces the row, when its condition holds.\<close>

lemma conflict_update_row:
  assumes "is_conflict upsert_current_position_stmt = Some oc"
  shows "conflict_update oc (row_cells r) (row_cells old) =
      (if pr_tag_id old = pr_tag_id r \<and> pr_ts_utc_ms r \<ge> pr_ts_utc_ms old then row_cells r else row_cells old)"
    and "oc_target oc = lit ''tag_id''"
proof -
  have "set_columns (oc_set oc) (row_cells r) (row_cells old) = row_cells r" if "pr_tag_id old = pr_tag_id r"
    using assms that
    by (auto simp: upsert_current_position_stmt_def set_columns_def row_cells_def cell_of_def)
  then show "conflict_update oc (row_cells r) (row_cells old) =
      (if pr_tag_id old = pr_tag_id r \<and> pr_ts_utc_ms r \<ge> pr_ts_utc_ms old then row_cells r else row_cells old)"
    and "oc_target oc = lit ''tag_id''"
    using assms by (auto simp: upsert_current_position_stmt_def conflict_update_def)
qed

lemma dict_set_present:
  "dict_get d k \<noteq> None \<Longrightarrow> wf_dict d \<Longrightarrow> dict_set k v d = map (\<lambda>kv. if fst kv = k then (k, v) else kv) d"
proof (induction d)
  case (Cons kv d)
  have "map (\<lambda>kv. if fst kv = k then (k, v) else kv) d = d" if "k \<notin> set (map fst d)"
    using that by (induction d) auto
  with Cons show ?case by (auto simp: wf_dict_def; blast)
qed simp

lemma upsert_keyed:
  assumes "\<forall>kr\<in>set t. fst kr = pr_tag_id (snd kr)"
  shows "\<forall>kr\<in>set (upsert_row r t). fst kr = pr_tag_id (snd kr)"
  using upserts_keyed [OF assms, of "[r]"] by simp

lemma place_current:
  assumes st: "current_stored data t" and oc: "is_conflict upsert_current_position_stmt = Some oc"
  shows "place_row current_positions_table (Some oc) (row_cells r) (ta_rows data) =
    Inr (map (\<lambda>kr. row_cells (snd kr)) (upsert_row r t))"
proof -
  note upd = conflict_update_row [OF oc]
  from st have rows: "ta_rows data = map (\<lambda>kr. row_cells (snd kr)) t" "wf_dict t"
    and keyed: "\<forall>kr\<in>set t. fst kr = pr_tag_id (snd kr)"
    by (simp_all add: current_stored_def)
  have taken: "list_ex (\<lambda>old. cell_of old (lit ''tag_id'') = cell_of (row_cells r) (lit ''tag_id'')) (ta_rows data)
      \<longleftrightarrow> dict_get t (pr_tag_id r) \<noteq> None"
    using keyed by (force simp: rows(1) list_ex_iff map_of_eq_None_iff image_iff)
  show ?thesis
  proof (cases "dict_get t (pr_tag_id r)")
    case None
    with taken show ?thesis
      by (simp add: place_row_def current_positions_table_def upd(2) rows(1) upsert_row_def dict_set_new)
  next
    case (Some old)
    have same: "snd kr = old" if "kr \<in> set t" "fst kr = pr_tag_id r" for kr
    proof -
      have "(pr_tag_id r, snd kr) \<in> set t" using that by (metis prod.collapse)
      with Some rows(2) show ?thesis by (simp add: wf_dict_def)
    qed
    have "map (conflict_update oc (row_cells r)) (ta_rows data) = map (\<lambda>kr. row_cells (snd kr)) (upsert_row r t)"
      using Some keyed same rows(2)
      by (auto simp: rows(1) upd(1) upsert_row_def dict_set_present)
    with Some taken show ?thesis
      by (simp add: place_row_def current_positions_table_def upd(2))
  qed
qed

lemma upsert_current:
  assumes keys: "map fst params = written_columns" and st: "current_stored data t"
  shows "case row_of_params pg params of
      Inl e \<Rightarrow> insert_into pg upsert_current_position_stmt params current_positions_table data = Inl e
    | Inr r \<Rightarrow> \<exists>data'. insert_into pg upsert_current_position_stmt params current_positions_table data = Inr data'
        \<and> current_stored data' (upsert_row r t)"
proof (cases "row_of_params pg params")
  case (Inl e)
  then show ?thesis
    by (simp add: insert_into_def written_distinct supplied_row [OF keys tables_match(2)])
next
  case (Inr r)
  obtain oc where oc: "is_conflict upsert_current_position_stmt = Some oc"
    by (simp add: upsert_current_position_stmt_def)
  have "insert_into pg upsert_current_position_stmt params current_positions_table data =
      Inr \<lparr>ta_rows = map (\<lambda>kr. row_cells (snd kr)) (upsert_row r t), ta_next_id = ta_next_id data\<rparr>"
    using Inr place_current [OF st oc]
    by (simp add: insert_into_def written_distinct supplied_row [OF keys tables_match(2)]
        current_other_columns oc)
  moreover have "\<forall>kr\<in>set (upsert_row r t). fst kr = pr_tag_id (snd kr)" and "wf_dict (upsert_row r t)"
    using st upsert_keyed by (auto simp: current_stored_def)
  ultimately show ?thesis using Inr by (simp add: current_stored_def)
qed

section \<open>Writes after the migration\<close>

lemma exec_migrated:
  assumes "none_taken base"
  shows "exec_insert pg insert_position_event_stmt params (migrated base d1 d2) =
      bind_res (insert_into pg insert_position_event_stmt params position_events_table d1)
        (\<lambda>d1. Inr (migrated base d1 d2))"
    and "exec_insert pg upsert_current_position_stmt params (migrated base d1 d2) =
      bind_res (insert_into pg upsert_current_position_stmt params current_positions_table d2)
        (\<lambda>d2. Inr (migrated base d1 d2))"
  using none_takenD [OF assms]
  by (simp_all add: exec_insert_def migrated_def get_beyond update_append del: map_of_append)

lemma skip_migrated:
  assumes "none_taken base"
  shows "skip_ids position_events_name gap (migrated base d1 d2) =
    migrated base (d1\<lparr>ta_next_id := ta_next_id d1 + int gap\<rparr>) d2"
  using none_takenD [OF assms]
  by (simp add: skip_ids_def migrated_def get_beyond update_append del: map_of_append)

definition sql_writes :: "pg \<Rightarrow> (nat \<times> py_exc option \<times> json dict) list \<Rightarrow> sql_db \<Rightarrow> sql_db" where
  "sql_writes pg ws db = foldl (\<lambda>db (gap, fault, envelope). fst (sql_write pg gap fault envelope db)) db ws"

lemma sql_persist_migrated:
  assumes "none_taken base"
  shows "sql_persist_envelope pg envelope (migrated base d1 d2) =
    bind_res (extract_params envelope) (\<lambda>params.
    bind_res (insert_into pg insert_position_event_stmt params position_events_table d1) (\<lambda>d1.
    bind_res (insert_into pg upsert_current_position_stmt params current_positions_table d2) (\<lambda>d2.
      Inr (migrated base d1 d2))))"
  by (cases "extract_params envelope")
    (simp_all add: sql_persist_envelope_def exec_migrated [OF assms] bind_res_assoc)

lemma sql_write_shape:
  assumes "none_taken base"
  shows "\<exists>d1' d2'. fst (sql_write pg gap fault envelope (migrated base d1 d2)) = migrated base d1' d2'"
  by (auto simp: sql_write_def sql_persist_migrated [OF assms] skip_migrated [OF assms] res_simps
      split: option.split sum.split)

lemma sql_writes_shape:
  assumes "none_taken base"
  shows "\<exists>d1' d2'. sql_writes pg ws (migrated base d1 d2) = migrated base d1' d2'"
proof (induction ws rule: rev_induct)
  case (snoc w ws)
  then show ?case
    using sql_write_shape [OF assms] by (auto simp: sql_writes_def split: prod.split)
qed (auto simp: sql_writes_def)

definition tables_store :: "table_data \<Rightarrow> table_data \<Rightarrow> db \<Rightarrow> bool" where
  "tables_store d1 d2 db \<longleftrightarrow>
     events_stored d1 (db_events db) \<and> current_stored d2 (db_current db) \<and> 1 \<le> ta_next_id d1"

lemma tables_store_empty: "tables_store empty_table empty_table empty_db"
  by (simp add: tables_store_def events_stored_def current_stored_def empty_table_def empty_db_def)

lemma tables_store_skip:
  assumes "tables_store d1 d2 db"
  shows "tables_store (d1\<lparr>ta_next_id := ta_next_id d1 + int gap\<rparr>) d2 db"
proof -
  from assms obtain ids where "length ids = length (db_events db)" "ta_rows d1 = map2 event_cells ids (db_events db)"
    "distinct ids" "\<forall>i\<in>set ids. 1 \<le> i \<and> i < ta_next_id d1"
    unfolding tables_store_def events_stored_def by blast
  then have "events_stored (d1\<lparr>ta_next_id := ta_next_id d1 + int gap\<rparr>) (db_events db)"
    unfolding events_stored_def by (intro exI [of _ ids]) auto
  with assms show ?thesis by (simp add: tables_store_def)
qed

lemma sql_persist_refines:
  assumes none: "none_taken base" and st: "tables_store d1 d2 db" and next_id: "ta_next_id d1 < 2^63"
  shows "case persist_envelope pg envelope db of
      Inl e \<Rightarrow> sql_persist_envelope pg envelope (migrated base d1 d2) = Inl e
    | Inr db' \<Rightarrow> \<exists>d1' d2'. sql_persist_envelope pg envelope (migrated base d1 d2) = Inr (migrated base d1' d2')
        \<and> tables_store d1' d2' db' \<and> ta_next_id d1' = ta_next_id d1 + 1"
proof (cases "extract_params envelope")
  case (Inl e)
  then show ?thesis
    by (simp add: sql_persist_migrated [OF none] persist_envelope_row row_of_envelope_def)
next
  case (Inr params)
  note keys = extract_params_keys [OF Inr]
  note stored = st [unfolded tables_store_def]
  note event = insert_event [OF keys, of d1 "db_events db" pg]
  show ?thesis
  proof (cases "row_of_params pg params")
    case (Inl e)
    with Inr event stored next_id show ?thesis
      by (simp add: sql_persist_migrated [OF none] persist_envelope_row row_of_envelope_def)
  next
    case row: (Inr r)
    obtain d1' where d1': "insert_into pg insert_position_event_stmt params position_events_table d1 = Inr d1'"
      "events_stored d1' (db_events db @ [r])" "ta_next_id d1' = ta_next_id d1 + 1"
      using event stored next_id row by auto
    obtain d2' where d2': "insert_into pg upsert_current_position_stmt params current_positions_table d2 = Inr d2'"
      "current_stored d2' (upsert_row r (db_current db))"
      using upsert_current [OF keys, of d2 "db_current db" pg] stored row by auto
    have "sql_persist_envelope pg envelope (migrated base d1 d2) = Inr (migrated base d1' d2')"
      using Inr d1'(1) d2'(1) by (simp add: sql_persist_migrated [OF none])
    moreover have "tables_store d1' d2' (store_row r db)"
      using d1'(2,3) d2'(2) stored by (simp add: tables_store_def store_row_def)
    ultimately show ?thesis
      using Inr row d1'(3) by (auto simp: persist_envelope_row row_of_envelope_def)
  qed
qed

lemma sql_write_refines:
  assumes none: "none_taken base" and st: "tables_store d1 d2 db" and next_id: "ta_next_id d1 < 2^63"
  shows "\<exists>d1' d2'. sql_write pg gap fault envelope (migrated base d1 d2) =
      (migrated base d1' d2', snd (write_to_db pg fault envelope db))
    \<and> tables_store d1' d2' (fst (write_to_db pg fault envelope db))
    \<and> ta_next_id d1' \<le> ta_next_id d1 + int gap + 1"
proof (cases "snd (write_to_db pg fault envelope db)")
  case (Inl e)
  let ?d = "d1\<lparr>ta_next_id := ta_next_id d1 + int gap\<rparr>"
  have "sql_write pg gap fault envelope (migrated base d1 d2) = (migrated base ?d d2, Inl e)"
    and "write_to_db pg fault envelope db = (db, Inl e)"
    using Inl sql_persist_refines [OF assms, of pg envelope]
    by (auto simp: write_to_db_def sql_write_def skip_migrated [OF none] split: option.splits sum.splits)
  then show ?thesis
    using tables_store_skip [OF st, of gap] by (intro exI [of _ ?d] exI [of _ d2]) simp
next
  case (Inr u)
  then obtain db' where "fault = None" "persist_envelope pg envelope db = Inr db'"
    by (auto simp: write_to_db_def split: option.splits sum.splits)
  moreover from this obtain d1' d2' where
    "sql_persist_envelope pg envelope (migrated base d1 d2) = Inr (migrated base d1' d2')"
    "tables_store d1' d2' db'" "ta_next_id d1' = ta_next_id d1 + 1"
    using sql_persist_refines [OF assms, of pg envelope] by auto
  ultimately show ?thesis
    by (intro exI [of _ d1'] exI [of _ d2']) (simp add: write_to_db_def sql_write_def)
qed

definition ids_needed :: "(nat \<times> py_exc option \<times> json dict) list \<Rightarrow> int" where
  "ids_needed ws = (\<Sum>w\<leftarrow>ws. int (fst w) + 1)"

lemma sql_writes_refine_writes:
  assumes none: "none_taken base" and "ids_needed ws < 2^63"
  shows "\<exists>d1 d2. sql_writes pg ws (migrated base empty_table empty_table) = migrated base d1 d2
    \<and> tables_store d1 d2 (write_all pg (map snd ws) empty_db) \<and> ta_next_id d1 \<le> 1 + ids_needed ws"
  using assms(2)
proof (induction ws rule: rev_induct)
  case Nil
  show ?case
    by (intro exI [of _ empty_table])
      (simp add: sql_writes_def tables_store_empty ids_needed_def, simp add: empty_table_def)
next
  case (snoc w ws)
  obtain gap fault envelope where w: "w = (gap, fault, envelope)" by (cases w)
  from snoc.prems have bound: "ids_needed ws + int gap + 1 < 2^63" by (simp add: ids_needed_def w)
  then have "ids_needed ws < 2^63" by simp
  from snoc.IH [OF this] obtain d1 d2 where
    run: "sql_writes pg ws (migrated base empty_table empty_table) = migrated base d1 d2"
    and st: "tables_store d1 d2 (write_all pg (map snd ws) empty_db)" "ta_next_id d1 \<le> 1 + ids_needed ws" by blast
  have "ta_next_id d1 < 2^63" using bound st(2) by simp
  from sql_write_refines [OF none st(1) this, of pg gap fault envelope] obtain d1' d2' where
    "fst (sql_write pg gap fault envelope (migrated base d1 d2)) = migrated base d1' d2'"
    "tables_store d1' d2' (fst (write_to_db pg fault envelope (write_all pg (map snd ws) empty_db)))"
    "ta_next_id d1' \<le> ta_next_id d1 + int gap + 1" by auto
  moreover have "write_all pg (map snd (ws @ [w])) empty_db =
      fst (write_to_db pg fault envelope (write_all pg (map snd ws) empty_db))"
    and "sql_writes pg (ws @ [w]) db = fst (sql_write pg gap fault envelope (sql_writes pg ws db))"
    and "ids_needed (ws @ [w]) = ids_needed ws + int gap + 1" for db
    by (simp_all add: w write_all_def sql_writes_def ids_needed_def)
  ultimately show ?case
    using run st(2) by (intro exI [of _ d1'] exI [of _ d2']) simp
qed

section \<open>Properties\<close>

text \<open>
  C29. The migration can be taken back. It fails, and changes nothing, exactly when one of its four names
  is taken; otherwise its rollback restores the database as it was before, whatever the program has
  written in the meantime.
\<close>

theorem migration_reversible:
  assumes "indexes_have_tables base"
  shows "(if none_taken base
      then \<exists>db. run_step migration_apply base = (db, Inr ())
        \<and> run_step migration_rollback (sql_writes pg ws db) = (base, Inr ())
      else run_step migration_apply base = (base, Inl DatabaseError))"
proof (cases "none_taken base")
  case True
  obtain d1 d2 where "sql_writes pg ws (migrated base empty_table empty_table) = migrated base d1 d2"
    using sql_writes_shape [OF True] by blast
  with True show ?thesis
    by (simp add: run_step_def apply_migrated rollback_migrated [OF True assms])
qed (simp add: run_step_def apply_taken)

definition sample_base :: sql_db where
  "sample_base = [(lit ''_yoyo_log'', TableRel \<lparr>td_columns = [required_column ''id'' TEXT],
     td_primary_key = lit ''id''\<rparr> \<lparr>ta_rows = [[(lit ''id'', TextCell (lit ''1''))]], ta_next_id = 1\<rparr>)]"

lemma sample_base_free: "none_taken sample_base" "indexes_have_tables sample_base"
  by (simp_all add: sample_base_def none_taken_def migration_names_def name_defs indexes_have_tables_def)

lemma migration_reversible_witness:
  "\<exists>db. run_step migration_apply sample_base = (db, Inr ())
    \<and> run_step migration_rollback (sql_writes sample_pg [(0, None, sample_envelope)] db) = (sample_base, Inr ())"
  using migration_reversible [OF sample_base_free(2), of sample_pg "[(0, None, sample_envelope)]"]
    sample_base_free(1) by simp

text \<open>
  C22. The statements, run on the tables of the migration, do what the repository is modelled to do. After
  any writes, successful, failing or rolled back, the rows of the events are those of the model in
  order, each with an identifier of its own, and the rows of the current positions are those of the
  model; every write answers or raises as in the model. The bound is that of the BIGSERIAL sequence,
  of which a rolled-back write may lose values.
\<close>

theorem sql_implements_repository:
  assumes "none_taken base" and "ids_needed (ws @ [(gap, fault, envelope)]) < 2^63"
  shows "\<exists>db d1 d2. run_step migration_apply base = (db, Inr ())
    \<and> sql_writes pg ws db = migrated base d1 d2
    \<and> events_stored d1 (db_events (write_all pg (map snd ws) empty_db))
    \<and> current_stored d2 (db_current (write_all pg (map snd ws) empty_db))
    \<and> snd (sql_write pg gap fault envelope (sql_writes pg ws db)) =
        snd (write_to_db pg fault envelope (write_all pg (map snd ws) empty_db))"
proof -
  have "ids_needed ws < 2^63" and next_id: "1 + ids_needed ws < 2^63"
    using assms(2) by (simp_all add: ids_needed_def)
  from sql_writes_refine_writes [OF assms(1) this(1), of pg] obtain d1 d2 where
    run: "sql_writes pg ws (migrated base empty_table empty_table) = migrated base d1 d2"
    and st: "tables_store d1 d2 (write_all pg (map snd ws) empty_db)" "ta_next_id d1 \<le> 1 + ids_needed ws" by blast
  have "ta_next_id d1 < 2^63" using next_id st(2) by simp
  from sql_write_refines [OF assms(1) st(1) this, of pg gap fault envelope]
  have "snd (sql_write pg gap fault envelope (migrated base d1 d2)) =
      snd (write_to_db pg fault envelope (write_all pg (map snd ws) empty_db))" by auto
  then show ?thesis
    using run st(1)
    by (intro exI [of _ "migrated base empty_table empty_table"] exI [of _ d1] exI [of _ d2])
      (simp add: run_step_def apply_migrated [OF assms(1)] tables_store_def)
qed

lemma sql_implements_repository_witness:
  "\<exists>db d1 d2. run_step migration_apply sample_base = (db, Inr ())
    \<and> sql_writes sample_pg [(2, None, []), (0, None, sample_envelope)] db = migrated sample_base d1 d2
    \<and> events_stored d1 [sample_position]
    \<and> snd (sql_write sample_pg 1 None sample_envelope
        (sql_writes sample_pg [(2, None, []), (0, None, sample_envelope)] db)) = Inr ()"
proof -
  let ?ws = "[(2, None, []), (0, None, sample_envelope)]"
  have "ids_needed (?ws @ [(1, None, sample_envelope)]) < 2^63" by (simp add: ids_needed_def)
  moreover have "write_all sample_pg (map snd ?ws) empty_db = store_row sample_position empty_db"
    by (simp add: write_all_def write_to_db_def persist_envelope_row row_of_empty sample_row)
  moreover have "snd (write_to_db sample_pg None sample_envelope (store_row sample_position empty_db)) = Inr ()"
    by (simp add: write_to_db_def persist_envelope_row sample_row)
  ultimately show ?thesis
    using sql_implements_repository [OF sample_base_free(1), of ?ws 1 None sample_envelope sample_pg]
    by (auto simp: store_row_def empty_db_def)
qed

end
