(* ===== verification/Sql_Types.thy ===== *)
theory Sql_Types
  imports Sql_Tables_Properties
begin

text \<open>
  The types of the stored rows: whatever is written, every row of a table has its columns, every cell
  is of the type of its column and in its range, no NOT NULL column is NULL, and no primary key is
  there twice. An INSERT keeps this for any table and statement that fit each other; the two
  statements of the repository are instances.
\<close>

section \<open>Typed tables\<close>

fun cell_fits :: "column_type \<Rightarrow> cell \<Rightarrow> bool" where
  "cell_fits BIGSERIAL (IntCell i) = (- (2^63) \<le> i \<and> i < 2^63)"
| "cell_fits BIGINT (IntCell i) = (- (2^63) \<le> i \<and> i < 2^63)"
| "cell_fits INTEGER (IntCell i) = (- (2^31) \<le> i \<and> i < 2^31)"
| "cell_fits TEXT (TextCell s) = storable_text s"
| "cell_fits BOOLEAN (BoolCell b) = True"
| "cell_fits DOUBLE_PRECISION (DoubleCell f) = True"
| "cell_fits JSONB (JsonCell j) = True"
| "cell_fits _ _ = False"

definition column_fits :: "column \<Rightarrow> cell \<Rightarrow> bool" where
  "column_fits c x \<longleftrightarrow> (if x = Null then \<not> cl_not_null c else cell_fits (cl_type c) x)"

definition names_of :: "table_def \<Rightarrow> pystr list" where
  "names_of td = map cl_name (td_columns td)"

definition cell_typed :: "table_def \<Rightarrow> pystr \<times> cell \<Rightarrow> bool" where
  "cell_typed td kx \<longleftrightarrow> list_ex (\<lambda>c. cl_name c = fst kx \<and> column_fits c (snd kx)) (td_columns td)"

definition row_typed :: "table_def \<Rightarrow> cell dict \<Rightarrow> bool" where
  "row_typed td row \<longleftrightarrow>
     wf_dict row \<and> set (map fst row) = set (names_of td) \<and> list_all (cell_typed td) row"

definition table_typed :: "table_def \<Rightarrow> table_data \<Rightarrow> bool" where
  "table_typed td data \<longleftrightarrow>
     list_all (row_typed td) (ta_rows data)
     \<and> distinct (map (\<lambda>row. cell_of row (td_primary_key td)) (ta_rows data))
     \<and> 1 \<le> ta_next_id data"

text \<open>
  What PostgreSQL guarantees of the columns: a stored text has no NUL and is UTF-8, a stored integer is
  in the range of its type.
\<close>

definition pg_types :: "pg \<Rightarrow> bool" where
  "pg_types pg \<longleftrightarrow>
     (\<forall>v s. pg_text pg v = Inr (Some s) \<longrightarrow> storable_text s)
     \<and> (\<forall>v i. pg_bigint pg v = Inr (Some i) \<longrightarrow> - (2^63) \<le> i \<and> i < 2^63)
     \<and> (\<forall>v i. pg_integer pg v = Inr (Some i) \<longrightarrow> - (2^31) \<le> i \<and> i < 2^31)"

section \<open>INSERT keeps the types\<close>

text \<open>A statement fits a table: see its hypotheses on the columns and on ON CONFLICT.\<close>

definition conflict_fits :: "table_def \<Rightarrow> on_conflict \<Rightarrow> bool" where
  "conflict_fits td oc \<longleftrightarrow>
     list_all (\<lambda>(k, e). k = e \<and> k \<noteq> td_primary_key td) (oc_set oc)"

definition stmt_fits :: "table_def \<Rightarrow> insert_stmt \<Rightarrow> bool" where
  "stmt_fits td stmt \<longleftrightarrow>
     distinct (names_of td) \<and> td_primary_key td \<in> set (names_of td)
     \<and> list_all (\<lambda>c. cl_default c = None \<or> cl_type c = JSONB) (td_columns td)
     \<and> (case is_conflict stmt of None \<Rightarrow> True | Some oc \<Rightarrow> conflict_fits td oc)"

lemma find_columnD: "find_column td k = Some c \<Longrightarrow> c \<in> set (td_columns td) \<and> cl_name c = k"
  by (auto simp: find_column_def find_Some_iff)

lemma convert_fits:
  assumes "pg_types pg" and "convert pg ty v = Inr x"
  shows "x = Null \<or> cell_fits ty x"
  using assms by (cases ty) (auto simp: pg_types_def opt_cell_def res_simps split: option.splits)

lemma checked_fits:
  assumes "pg_types pg" and "bind_res (convert pg (cl_type c) v) (check_null c) = Inr x"
  shows "column_fits c x"
  using assms convert_fits [OF assms(1), of "cl_type c" v]
  by (auto simp: check_null_def column_fits_def res_simps split: if_splits)

lemma supplied_cell_typed:
  assumes "pg_types pg" and "supplied_cell pg td params cp = Inr kx"
  shows "fst kx = fst cp \<and> cell_typed td kx"
  using assms checked_fits [OF assms(1)]
  by (fastforce simp: supplied_cell_def cell_typed_def list_ex_iff res_simps dest: find_columnD
      split: option.splits)

lemma default_cell_typed:
  assumes "default_cell n c = Inr kx" and "c \<in> set (td_columns td)" and "1 \<le> n"
    and "cl_default c = None \<or> cl_type c = JSONB"
  shows "fst kx = cl_name c \<and> cell_typed td kx"
  using assms
  by (fastforce simp: default_cell_def cell_typed_def list_ex_iff column_fits_def check_null_def res_simps
      split: if_splits option.splits)

lemma map_res_rel:
  assumes "map_res f xs = Inr ys" and "\<And>x y. x \<in> set xs \<Longrightarrow> f x = Inr y \<Longrightarrow> P x y"
  shows "list_all2 P xs ys"
  using assms by (induction xs arbitrary: ys) (auto simp: res_simps)

lemma rel_keys:
  assumes "list_all2 (\<lambda>x y. fst y = g x \<and> P y) xs ys"
  shows "map fst ys = map g xs \<and> list_all P ys"
  using assms by (induction rule: list_all2_induct) auto

lemma cell_typed_name: "cell_typed td kx \<Longrightarrow> fst kx \<in> set (names_of td)"
  by (auto simp: cell_typed_def list_ex_iff names_of_def intro: rev_image_eqI)

lemma new_row_typed:
  assumes pg: "pg_types pg" and td: "stmt_fits td stmt" and n: "1 \<le> n"
    and given: "map_res (supplied_cell pg td params) (zip (is_columns stmt) (is_values stmt)) = Inr given"
    and others: "map_res (default_cell n) (other_columns td stmt) = Inr others"
    and stmt: "length (is_columns stmt) = length (is_values stmt)" "distinct (is_columns stmt)"
  shows "row_typed td (given @ others)"
proof -
  have g: "map fst given = is_columns stmt" "list_all (cell_typed td) given"
    using rel_keys [OF map_res_rel [OF given supplied_cell_typed [OF pg]]] stmt(1)
    by (simp_all add: map_fst_zip)
  have "list_all2 (\<lambda>c kx. fst kx = cl_name c \<and> cell_typed td kx) (other_columns td stmt) others"
    by (rule map_res_rel [OF others default_cell_typed])
      (use td n in \<open>auto simp: other_columns_def stmt_fits_def list_all_iff\<close>)
  then have o': "map fst others = map cl_name (other_columns td stmt)" "list_all (cell_typed td) others"
    using rel_keys by blast+
  have keys: "map fst (given @ others) = is_columns stmt @ map cl_name (other_columns td stmt)"
    using g(1) o'(1) by simp
  have "fst kx \<in> set (names_of td)" if "kx \<in> set given" for kx
    using g(2) that by (simp add: list_all_iff cell_typed_name)
  then have "set (map fst given) \<subseteq> set (names_of td)" by auto
  then have "set (is_columns stmt) \<subseteq> set (names_of td)" by (simp only: g(1))
  then have "set (map fst (given @ others)) = set (names_of td)"
    unfolding keys by (auto simp: other_columns_def names_of_def)
  moreover have "distinct (map cl_name (other_columns td stmt))"
    using td by (simp add: stmt_fits_def names_of_def other_columns_def distinct_map_filter)
  then have "wf_dict (given @ others)"
    unfolding wf_dict_def keys using stmt(2) by (auto simp: other_columns_def)
  ultimately show ?thesis using g(2) o'(2) by (simp add: row_typed_def)
qed

lemma set_columns_keys: "map fst (set_columns assigns ex old) = map fst old"
  by (auto simp: set_columns_def)

lemma typed_cell:
  assumes "row_typed td row" and "k \<in> set (names_of td)"
  shows "cell_typed td (k, cell_of row k)"
proof -
  from assms obtain x where "(k, x) \<in> set row" by (force simp: row_typed_def)
  moreover from this have "cell_of row k = x"
    using assms(1) by (simp add: cell_of_def row_typed_def wf_dict_def)
  ultimately show ?thesis using assms(1) by (auto simp: row_typed_def list_all_iff)
qed

lemma set_columns_typed:
  assumes "row_typed td old" and "row_typed td row" and "list_all (\<lambda>(k, e). k = e \<and> k \<noteq> p) assigns"
  shows "row_typed td (set_columns assigns row old)"
proof -
  have "cell_typed td (k, case map_of assigns k of None \<Rightarrow> c | Some e \<Rightarrow> cell_of row e)"
    if "(k, c) \<in> set old" for k c
  proof (cases "map_of assigns k")
    case None
    with that assms(1) show ?thesis by (auto simp: row_typed_def list_all_iff)
  next
    case (Some e)
    then have "e = k" using assms(3) by (auto simp: list_all_iff dest: map_of_SomeD)
    moreover have "k \<in> set (names_of td)" using assms(1) that by (force simp: row_typed_def)
    ultimately show ?thesis using Some typed_cell [OF assms(2)] by simp
  qed
  then have "list_all (cell_typed td) (set_columns assigns row old)"
    by (auto simp: set_columns_def list_all_iff)
  with assms(1) show ?thesis
    by (simp add: row_typed_def wf_dict_def set_columns_keys del: set_map)
qed

lemma cell_of_set_columns:
  "map_of assigns k = None \<Longrightarrow> cell_of (set_columns assigns row old) k = cell_of old k"
  unfolding cell_of_def set_columns_def by (induction old) auto

lemma conflict_update_typed:
  assumes "row_typed td old" and "row_typed td row" and "conflict_fits td oc"
  shows "row_typed td (conflict_update oc row old)
    \<and> cell_of (conflict_update oc row old) (td_primary_key td) = cell_of old (td_primary_key td)"
proof -
  have "map_of (oc_set oc) (td_primary_key td) = None"
    using assms(3) by (auto simp: conflict_fits_def list_all_iff map_of_eq_None_iff)
  then show ?thesis
    using assms set_columns_typed [OF assms(1,2)]
    by (simp add: conflict_update_def cell_of_set_columns conflict_fits_def)
qed

lemma insert_into_typed:
  assumes pg: "pg_types pg" and td: "stmt_fits td stmt" and data: "table_typed td data"
    and run: "insert_into pg stmt params td data = Inr data'"
  shows "table_typed td data'"
proof -
  let ?pk = "td_primary_key td"
  from run have stmt: "length (is_columns stmt) = length (is_values stmt)" "distinct (is_columns stmt)"
    by (simp_all add: insert_into_def split: if_splits)
  with run obtain given others rows where
    given: "map_res (supplied_cell pg td params) (zip (is_columns stmt) (is_values stmt)) = Inr given"
    and others: "map_res (default_cell (ta_next_id data)) (other_columns td stmt) = Inr others"
    and place: "place_row td (is_conflict stmt) (given @ others) (ta_rows data) = Inr rows"
    and data': "ta_rows data' = rows" "ta_next_id data \<le> ta_next_id data'"
    by (auto simp: insert_into_def res_simps)
  let ?row = "given @ others"
  from data have old: "list_all (row_typed td) (ta_rows data)"
    "distinct (map (\<lambda>row. cell_of row ?pk) (ta_rows data))" "1 \<le> ta_next_id data"
    by (simp_all add: table_typed_def)
  note row = new_row_typed [OF pg td old(3) given others stmt]
  show ?thesis
  proof (cases "list_ex (\<lambda>old. cell_of old ?pk = cell_of ?row ?pk) (ta_rows data)")
    case False
    then have "rows = ta_rows data @ [?row]"
      using place by (auto simp: place_row_def Let_def split: option.splits if_splits)
    with False show ?thesis
      using old row data' by (auto simp: table_typed_def list_ex_iff)
  next
    case True
    then obtain oc where oc: "is_conflict stmt = Some oc" "rows = map (conflict_update oc ?row) (ta_rows data)"
      using place by (auto simp: place_row_def Let_def split: option.splits if_splits)
    then have "conflict_fits td oc" using td by (simp add: stmt_fits_def)
    note upd = conflict_update_typed [OF _ row this]
    have "list_all (row_typed td) rows"
      using old(1) upd by (auto simp: oc(2) list_all_iff)
    moreover have "map (\<lambda>row. cell_of row ?pk) rows = map (\<lambda>row. cell_of row ?pk) (ta_rows data)"
      using old(1) upd by (auto simp: oc(2) list_all_iff)
    ultimately show ?thesis using old data' by (simp add: table_typed_def)
  qed
qed

lemma repository_stmts_fit:
  "stmt_fits position_events_table insert_position_event_stmt"
  "stmt_fits current_positions_table upsert_current_position_stmt"
  by (simp_all add: stmt_fits_def names_of_def position_events_table_def current_positions_table_def
      required_column_def nullable_column_def warnings_column_def conflict_fits_def
      upsert_current_position_stmt_def)

section \<open>The tables of the program\<close>

lemma skip_typed: "table_typed td data \<Longrightarrow> table_typed td (data\<lparr>ta_next_id := ta_next_id data + int gap\<rparr>)"
  by (simp add: table_typed_def)

definition tables_typed :: "table_data \<Rightarrow> table_data \<Rightarrow> bool" where
  "tables_typed d1 d2 \<longleftrightarrow> table_typed position_events_table d1 \<and> table_typed current_positions_table d2"

lemma sql_persist_typed:
  assumes "none_taken base" and "pg_types pg" and "tables_typed d1 d2"
    and "sql_persist_envelope pg envelope (migrated base d1 d2) = Inr db"
  shows "\<exists>d1' d2'. db = migrated base d1' d2' \<and> tables_typed d1' d2'"
proof -
  from assms(4) obtain params d1' d2' where
    d1': "insert_into pg insert_position_event_stmt params position_events_table d1 = Inr d1'"
    and d2': "insert_into pg upsert_current_position_stmt params current_positions_table d2 = Inr d2'"
    and db: "db = migrated base d1' d2'"
    by (auto simp: sql_persist_migrated [OF assms(1)] res_simps)
  have "tables_typed d1' d2'"
    using assms(3) insert_into_typed [OF assms(2) repository_stmts_fit(1) _ d1']
      insert_into_typed [OF assms(2) repository_stmts_fit(2) _ d2']
    by (simp add: tables_typed_def)
  with db show ?thesis by blast
qed

lemma sql_write_typed:
  assumes "none_taken base" and "pg_types pg" and "tables_typed d1 d2"
  shows "\<exists>d1' d2'. fst (sql_write pg gap fault envelope (migrated base d1 d2)) = migrated base d1' d2'
    \<and> tables_typed d1' d2'"
proof -
  have skipped: "\<exists>d1' d2'. skip_ids position_events_name gap (migrated base d1 d2) = migrated base d1' d2'
      \<and> tables_typed d1' d2'"
    using assms(3) skip_typed [of position_events_table d1 gap] unfolding skip_migrated [OF assms(1)] tables_typed_def
    by blast
  show ?thesis
    using skipped sql_persist_typed [OF assms, of envelope]
    by (cases fault; cases "sql_persist_envelope pg envelope (migrated base d1 d2)") (simp_all add: sql_write_def)
qed

lemma sql_writes_typed:
  assumes "none_taken base" and "pg_types pg"
  shows "\<exists>d1 d2. sql_writes pg ws (migrated base empty_table empty_table) = migrated base d1 d2
    \<and> tables_typed d1 d2"
proof (induction ws rule: rev_induct)
  case Nil
  show ?case
    by (intro exI [of _ empty_table]) (simp add: sql_writes_def tables_typed_def table_typed_def empty_table_def)
next
  case (snoc w ws)
  then show ?case
    using sql_write_typed [OF assms] by (auto simp: sql_writes_def split: prod.split)
qed

text \<open>
  C23. The stored rows are well typed. From the migration on, whatever is written: every row of both
  tables has exactly the columns of its table, every cell is of the type and in the range of its
  column, no NOT NULL column is NULL, no two events share an identifier and no two current positions
  a tag.
\<close>

theorem stored_rows_typed:
  assumes "none_taken base" and "pg_types pg"
  shows "\<exists>db d1 d2. run_step migration_apply base = (db, Inr ())
    \<and> sql_writes pg ws db = migrated base d1 d2
    \<and> table_typed position_events_table d1 \<and> table_typed current_positions_table d2"
  using sql_writes_typed [OF assms, of ws] apply_migrated [OF assms(1)]
  by (auto simp: run_step_def tables_typed_def)

lemma sample_pg_types: "pg_types sample_pg"
proof -
  have "opt_text v = Inr (Some s) \<Longrightarrow> storable_text s" for v s
    by (cases v) (auto split: if_splits)
  moreover have "opt_int w v = Inr (Some i) \<Longrightarrow> - (2^w) \<le> i \<and> i < 2^w" for w v i
    by (cases v) (auto split: if_splits)
  ultimately show ?thesis by (fastforce simp: pg_types_def sample_pg_def)
qed

lemma stored_rows_typed_witness:
  "\<exists>db d1 d2. run_step migration_apply sample_base = (db, Inr ())
    \<and> sql_writes sample_pg [(0, None, sample_envelope), (0, None, sample_envelope)] db = migrated sample_base d1 d2
    \<and> table_typed position_events_table d1 \<and> table_typed current_positions_table d2"
  by (rule stored_rows_typed [OF sample_base_free(1) sample_pg_types])

end
