(* ===== verification/Sql_Queries.thy ===== *)
theory Sql_Queries
  imports Sql_Tables_Properties
begin

text \<open>
  The reading statements of \<open>backend/repository/sql\<close> as they are written, with the clauses that
  \<open>positions.py\<close> adds to them, on the tables of cells. SQL leaves open how it orders rows that ORDER BY
  does not tell apart, so a SELECT has many valid answers (\<open>select_answer\<close>); those of the repository
  are among them.
\<close>

section \<open>SELECT\<close>

datatype condition = ColumnEq pystr pystr | ColumnGe pystr pystr | ColumnLe pystr pystr

record select_stmt =
  se_columns :: "pystr list"
  se_table :: pystr
  se_where :: "condition list"
  se_order :: "pystr \<times> bool"
  se_limit :: "(pystr \<times> pystr) option"

record count_stmt =
  cs_table :: pystr
  cs_where :: "condition list"

text \<open>A parameter of a comparison: a text is bound as TEXT, an integer at the width that it needs.\<close>

definition bind_param :: "pg \<Rightarrow> json dict \<Rightarrow> pystr \<Rightarrow> cell res" where
  "bind_param pg params name =
     (case dict_get params name of
        Some (JStr s) \<Rightarrow> convert pg TEXT (JStr s)
      | Some (JInt i) \<Rightarrow> Inr (IntCell i)
      | _ \<Rightarrow> Inl DatabaseError)"

fun bind_condition :: "pg \<Rightarrow> json dict \<Rightarrow> condition \<Rightarrow> (cell dict \<Rightarrow> bool) res" where
  "bind_condition pg params (ColumnEq c p) =
     bind_res (bind_param pg params p) (\<lambda>x. Inr (\<lambda>row. x \<noteq> Null \<and> cell_of row c = x))"
| "bind_condition pg params (ColumnGe c p) =
     bind_res (bind_param pg params p) (\<lambda>x. Inr (\<lambda>row. cell_ge (cell_of row c) x))"
| "bind_condition pg params (ColumnLe c p) =
     bind_res (bind_param pg params p) (\<lambda>x. Inr (\<lambda>row. cell_ge x (cell_of row c)))"

definition where_rows :: "pg \<Rightarrow> json dict \<Rightarrow> condition list \<Rightarrow> cell dict list \<Rightarrow> cell dict list res" where
  "where_rows pg params conds rows =
     bind_res (map_res (bind_condition pg params) conds) (\<lambda>tests.
       Inr (filter (\<lambda>row. list_all (\<lambda>t. t row) tests) rows))"

text \<open>The order of a column: that of integers, or of texts by the collation.\<close>

definition cell_before :: "pg \<Rightarrow> cell \<Rightarrow> cell \<Rightarrow> bool" where
  "cell_before pg a b =
     (case (a, b) of
        (IntCell i, IntCell j) \<Rightarrow> i \<le> j
      | (TextCell s, TextCell t) \<Rightarrow> pg_collate pg s \<le> pg_collate pg t
      | _ \<Rightarrow> False)"

definition ordered_by :: "pg \<Rightarrow> pystr \<times> bool \<Rightarrow> cell dict list \<Rightarrow> bool" where
  "ordered_by pg order rows \<longleftrightarrow>
     sorted_wrt (\<lambda>a b. if snd order then cell_before pg (cell_of b (fst order)) (cell_of a (fst order))
        else cell_before pg (cell_of a (fst order)) (cell_of b (fst order))) rows"

text \<open>LIMIT and OFFSET are of type BIGINT.\<close>

definition bigint_param :: "pg \<Rightarrow> json dict \<Rightarrow> pystr \<Rightarrow> nat res" where
  "bigint_param pg params name =
     (case dict_get params name of
        None \<Rightarrow> Inl DatabaseError
      | Some v \<Rightarrow> bind_res (not_null (pg_bigint pg v)) (\<lambda>i. if i < 0 then Inl DatabaseError else Inr (nat i)))"

definition page_of :: "pg \<Rightarrow> json dict \<Rightarrow> (pystr \<times> pystr) option \<Rightarrow> 'r list \<Rightarrow> 'r list res" where
  "page_of pg params bounds rows =
     (case bounds of
        None \<Rightarrow> Inr rows
      | Some (l, off) \<Rightarrow>
          bind_res (bigint_param pg params l) (\<lambda>n.
          bind_res (bigint_param pg params off) (\<lambda>k. Inr (take n (drop k rows)))))"

fun cell_json :: "cell \<Rightarrow> json" where
  "cell_json Null = JNull"
| "cell_json (TextCell s) = JStr s"
| "cell_json (BoolCell b) = JBool b"
| "cell_json (IntCell i) = JInt i"
| "cell_json (DoubleCell f) = JFloat f"
| "cell_json (JsonCell j) = j"

definition select_answer :: "pg \<Rightarrow> select_stmt \<Rightarrow> json dict \<Rightarrow> sql_db \<Rightarrow> json list list \<Rightarrow> bool" where
  "select_answer pg stmt params db out \<longleftrightarrow>
     (\<exists>td data found ordered page.
        dict_get db (se_table stmt) = Some (TableRel td data)
        \<and> list_all (\<lambda>c. find_column td c \<noteq> None) (se_columns stmt)
        \<and> where_rows pg params (se_where stmt) (ta_rows data) = Inr found
        \<and> mset ordered = mset found \<and> ordered_by pg (se_order stmt) ordered
        \<and> page_of pg params (se_limit stmt) ordered = Inr page
        \<and> out = map (\<lambda>row. map (\<lambda>c. cell_json (cell_of row c)) (se_columns stmt)) page)"

definition select_count :: "pg \<Rightarrow> count_stmt \<Rightarrow> json dict \<Rightarrow> sql_db \<Rightarrow> nat res" where
  "select_count pg stmt params db =
     (case dict_get db (cs_table stmt) of
        Some (TableRel td data) \<Rightarrow>
          bind_res (where_rows pg params (cs_where stmt) (ta_rows data)) (\<lambda>rows. Inr (length rows))
      | _ \<Rightarrow> Inl DatabaseError)"

section \<open>The statements of the repository\<close>

definition select_all_current_positions_stmt :: select_stmt where
  "select_all_current_positions_stmt =
     \<lparr>se_columns = current_pos_columns, se_table = current_positions_name, se_where = [],
      se_order = (lit ''tag_id'', False), se_limit = None\<rparr>"

text \<open>The conditions that \<open>_build_time_filters\<close> adds, and their parameters.\<close>

fun time_condition :: "time_clause \<Rightarrow> condition" where
  "time_condition (TsFrom f) = ColumnGe (lit ''ts_utc_ms'') (lit ''from_ts'')"
| "time_condition (TsTo t) = ColumnLe (lit ''ts_utc_ms'') (lit ''to_ts'')"

fun time_param :: "time_clause \<Rightarrow> pystr \<times> json" where
  "time_param (TsFrom f) = (lit ''from_ts'', JInt f)"
| "time_param (TsTo t) = (lit ''to_ts'', JInt t)"

definition select_position_history_stmt :: "time_clause list \<Rightarrow> select_stmt" where
  "select_position_history_stmt clauses =
     \<lparr>se_columns = current_pos_columns, se_table = position_events_name,
      se_where = ColumnEq (lit ''tag_id'') (lit ''tag_id'') # map time_condition clauses,
      se_order = (lit ''ts_utc_ms'', True), se_limit = Some (lit ''limit'', lit ''offset'')\<rparr>"

definition count_position_history_stmt :: "time_clause list \<Rightarrow> count_stmt" where
  "count_position_history_stmt clauses =
     \<lparr>cs_table = position_events_name,
      cs_where = ColumnEq (lit ''tag_id'') (lit ''tag_id'') # map time_condition clauses\<rparr>"

definition history_params :: "pystr \<Rightarrow> time_clause list \<Rightarrow> int \<Rightarrow> int \<Rightarrow> json dict" where
  "history_params tag clauses limit offset =
     [(lit ''tag_id'', JStr tag), (lit ''limit'', JInt limit), (lit ''offset'', JInt offset)]
     @ map time_param clauses"

definition count_params :: "pystr \<Rightarrow> time_clause list \<Rightarrow> json dict" where
  "count_params tag clauses = (lit ''tag_id'', JStr tag) # map time_param clauses"

section \<open>Facts\<close>

text \<open>Another order of the images comes from another order of the elements.\<close>

lemma mset_map_reorder: "mset ys = mset (map f zs) \<Longrightarrow> \<exists>zs'. mset zs' = mset zs \<and> map f zs' = ys"
proof (induction ys arbitrary: zs)
  case (Cons y ys)
  then have "y \<in> set (map f zs)" by (metis list.set_intros(1) mset_eq_setD)
  then obtain z where z: "z \<in> set zs" "f z = y" by auto
  then have "mset zs = add_mset z (mset (remove1 z zs))" by simp
  with Cons.prems z(2) have "mset ys = mset (map f (remove1 z zs))"
    by (simp del: mset_remove1)
  from Cons.IH [OF this] obtain zs' where "mset zs' = mset (remove1 z zs)" "map f zs' = ys" by blast
  with z show ?case by (intro exI [of _ "z # zs'"]) simp
qed simp

lemma json_cells [simp]:
  "cell_json (opt_cell TextCell o') = json_opt JStr o'" "cell_json (opt_cell IntCell i) = json_opt JInt i"
  "cell_json (opt_cell DoubleCell f) = json_opt JFloat f"
  by (simp_all add: opt_cell_def split: option.split)

lemma selected_cells:
  "map (\<lambda>c. cell_json (cell_of (row_cells r) c)) current_pos_columns = select_row r"
  "map (\<lambda>c. cell_json (cell_of (event_cells i r) c)) current_pos_columns = select_row r"
  by (simp_all add: current_pos_columns_def select_row_def cell_of_def event_cells_def row_cells_def)

lemma event_cell_of [simp]:
  "cell_of (event_cells i r) (lit ''tag_id'') = TextCell (pr_tag_id r)"
  "cell_of (event_cells i r) (lit ''ts_utc_ms'') = IntCell (pr_ts_utc_ms r)"
  by (simp_all add: event_cells_def row_cells_def cell_of_def)

lemma columns_found:
  "list_all (\<lambda>c. find_column position_events_table c \<noteq> None) current_pos_columns"
  "list_all (\<lambda>c. find_column current_positions_table c \<noteq> None) current_pos_columns"
  by (simp_all add: current_pos_columns_def find_column_def position_events_table_def
      current_positions_table_def required_column_def nullable_column_def warnings_column_def)

text \<open>The WHERE part, on the rows of the events.\<close>

definition params_fit :: "pg \<Rightarrow> json dict \<Rightarrow> pystr \<Rightarrow> time_clause list \<Rightarrow> bool" where
  "params_fit pg params tag clauses \<longleftrightarrow>
     bind_param pg params (lit ''tag_id'') = Inr (TextCell tag)
     \<and> list_all (\<lambda>c. bind_param pg params (fst (time_param c)) = Inr (case c of TsFrom f \<Rightarrow> IntCell f | TsTo t \<Rightarrow> IntCell t))
         clauses"

lemma time_conditions_hold:
  assumes "list_all (\<lambda>c. bind_param pg params (fst (time_param c)) =
      Inr (case c of TsFrom f \<Rightarrow> IntCell f | TsTo t \<Rightarrow> IntCell t)) clauses"
  shows "\<exists>tests. map_res (bind_condition pg params) (map time_condition clauses) = Inr tests
    \<and> (\<forall>i r. list_all (\<lambda>t. t (event_cells i r)) tests = list_all (clause_holds r) clauses)"
  using assms
proof (induction clauses)
  case (Cons c clauses)
  then obtain tests where "map_res (bind_condition pg params) (map time_condition clauses) = Inr tests"
    "\<forall>i r. list_all (\<lambda>t. t (event_cells i r)) tests = list_all (clause_holds r) clauses" by auto
  with Cons.prems show ?case by (cases c) auto
qed simp

lemma where_events:
  assumes "params_fit pg params tag clauses" and "length ids = length rs"
  shows "where_rows pg params (ColumnEq (lit ''tag_id'') (lit ''tag_id'') # map time_condition clauses)
      (map2 event_cells ids rs) =
    Inr (map (\<lambda>(i, r). event_cells i r) (filter (\<lambda>ir. where_tag tag clauses (snd ir)) (zip ids rs)))"
proof -
  from assms(1) obtain tests where
    tests: "map_res (bind_condition pg params) (map time_condition clauses) = Inr tests"
    "\<forall>i r. list_all (\<lambda>t. t (event_cells i r)) tests = list_all (clause_holds r) clauses"
    using time_conditions_hold [of pg params clauses] by (auto simp: params_fit_def)
  then show ?thesis
    using assms(1)
    by (auto simp: where_rows_def params_fit_def filter_map comp_def case_prod_beta where_tag_def intro!: filter_cong)
qed

lemma history_params_fit:
  assumes "pg_contract pg" and "storable_text tag" and "clauses = build_time_filters from_ts to_ts"
  shows "params_fit pg (history_params tag clauses limit offset) tag clauses"
    and "params_fit pg (count_params tag clauses) tag clauses"
  using assms
  by (auto simp: params_fit_def bind_param_def history_params_def count_params_def build_time_filters_def
      pg_contract_def opt_cell_def split: option.splits)

lemma page_params:
  assumes "pg_contract pg" and "0 \<le> limit" "limit < 2^63" "0 \<le> offset" "offset < 2^63"
  shows "page_of pg (history_params tag clauses limit offset) (Some (lit ''limit'', lit ''offset'')) rows =
    Inr (take (nat limit) (drop (nat offset) rows))"
proof -
  have "pg_bigint pg (JInt limit) = Inr (Some limit)" "pg_bigint pg (JInt offset) = Inr (Some offset)"
    using assms by (simp_all add: pg_contract_def)
  then show ?thesis
    using assms(2,4) by (simp add: page_of_def bigint_param_def history_params_def not_null_def)
qed

lemma get_migrated:
  assumes "none_taken base"
  shows "dict_get (migrated base d1 d2) position_events_name = Some (TableRel position_events_table d1)"
    and "dict_get (migrated base d1 d2) current_positions_name = Some (TableRel current_positions_table d2)"
  using none_takenD [OF assms] by (simp_all add: migrated_def get_beyond del: map_of_append)

lemma select_answerI:
  assumes "dict_get db (se_table stmt) = Some (TableRel td data)"
    and "list_all (\<lambda>c. find_column td c \<noteq> None) (se_columns stmt)"
    and "where_rows pg params (se_where stmt) (ta_rows data) = Inr found"
    and "mset ordered = mset found" and "ordered_by pg (se_order stmt) ordered"
    and "page_of pg params (se_limit stmt) ordered = Inr page"
    and "out = map (\<lambda>row. map (\<lambda>c. cell_json (cell_of row c)) (se_columns stmt)) page"
  shows "select_answer pg stmt params db out"
  unfolding select_answer_def using assms by blast

text \<open>The answers of the model are answers of the statements.\<close>

lemma history_answer:
  assumes none: "none_taken base" and pg: "pg_contract pg" and st: "events_stored d1 (db_events db)"
    and tag: "storable_text tag" and clauses: "clauses = build_time_filters from_ts to_ts"
    and bounds: "0 \<le> limit" "limit < 2^63" "0 \<le> offset" "offset < 2^63"
  shows "select_answer pg (select_position_history_stmt clauses) (history_params tag clauses limit offset)
      (migrated base d1 d2) (map select_row (take (nat limit) (drop (nat offset) (select_history pg db tag clauses))))"
proof -
  let ?rs = "db_events db" and ?h = "select_history pg db tag clauses"
  from st obtain ids where ids: "length ids = length ?rs" "ta_rows d1 = map2 event_cells ids ?rs"
    unfolding events_stored_def by blast
  let ?zs = "filter (\<lambda>ir. where_tag tag clauses (snd ir)) (zip ids ?rs)"
  let ?cells = "\<lambda>(i, r). event_cells i r"
  have "mset ?h = mset (filter (where_tag tag clauses) ?rs)"
    by (rule mset_select_history [OF pg])
  moreover have "map snd ?zs = filter (where_tag tag clauses) ?rs"
    using ids(1) filter_map [of "where_tag tag clauses" snd "zip ids ?rs"] by (simp add: comp_def)
  ultimately obtain zs where zs: "mset zs = mset ?zs" "map snd zs = ?h"
    using mset_map_reorder [of ?h snd ?zs] by auto
  have "sorted_wrt (\<lambda>r s. pr_ts_utc_ms r \<ge> pr_ts_utc_ms s) (map snd zs)"
    unfolding zs(2) select_history_def by (rule sort_key_desc)
  then have order: "ordered_by pg (lit ''ts_utc_ms'', True) (map ?cells zs)"
    by (simp add: ordered_by_def cell_before_def sorted_wrt_map case_prod_beta)
  note page = page_params [OF pg bounds, of tag clauses "map ?cells zs"]
  have out: "map (\<lambda>row. map (\<lambda>c. cell_json (cell_of row c)) current_pos_columns)
      (take (nat limit) (drop (nat offset) (map ?cells zs))) =
    map select_row (take (nat limit) (drop (nat offset) ?h))"
    by (simp add: selected_cells(2) case_prod_beta comp_def take_map drop_map flip: zs(2))
  show ?thesis
    by (rule select_answerI [of _ _ position_events_table d1 _ _ "map ?cells ?zs" "map ?cells zs"])
      (use get_migrated(1) [OF none] columns_found(1) order zs(1) page
        where_events [OF history_params_fit(1) [OF pg tag clauses] ids(1)]
        in \<open>simp_all add: select_position_history_stmt_def ids(2) flip: out\<close>)
qed

lemma count_answer:
  assumes none: "none_taken base" and pg: "pg_contract pg" and st: "events_stored d1 (db_events db)"
    and tag: "storable_text tag" and clauses: "clauses = build_time_filters from_ts to_ts"
  shows "select_count pg (count_position_history_stmt clauses) (count_params tag clauses) (migrated base d1 d2) =
    Inr (count_position_history db tag from_ts to_ts)"
proof -
  from st obtain ids where ids: "length ids = length (db_events db)" "ta_rows d1 = map2 event_cells ids (db_events db)"
    unfolding events_stored_def by blast
  have "length (filter (\<lambda>ir. where_tag tag clauses (snd ir)) (zip ids (db_events db))) =
      length (filter (where_tag tag clauses) (map snd (zip ids (db_events db))))"
    by (simp add: filter_map comp_def)
  then show ?thesis
    using get_migrated(1) [OF none, of d1 d2] ids(1)
      where_events [OF history_params_fit(2) [OF pg tag clauses] ids(1)]
    by (simp add: select_count_def count_position_history_stmt_def ids(2) count_position_history_def clauses)
qed

lemma snapshot_answer:
  assumes none: "none_taken base" and pg: "pg_contract pg" and st: "current_stored d2 (db_current db)"
  shows "select_answer pg select_all_current_positions_stmt [] (migrated base d1 d2)
    (map select_row (sort_key (\<lambda>r. pg_collate pg (pr_tag_id r)) (pg_scan pg (map snd (db_current db)))))"
proof -
  let ?rs = "sort_key (\<lambda>r. pg_collate pg (pr_tag_id r)) (pg_scan pg (map snd (db_current db)))"
  have rows: "ta_rows d2 = map row_cells (map snd (db_current db))"
    using st by (simp add: current_stored_def)
  have "mset ?rs = mset (map snd (db_current db))" using pg by (simp add: pg_contract_def)
  then have perm: "mset (map row_cells ?rs) = mset (ta_rows d2)" unfolding rows by (simp only: mset_map)
  have "sorted_wrt (\<lambda>r s. pg_collate pg (pr_tag_id r) \<le> pg_collate pg (pr_tag_id s)) ?rs"
    using sorted_sort_key [of "\<lambda>r. pg_collate pg (pr_tag_id r)"] by (simp add: sorted_map)
  then have order: "ordered_by pg (lit ''tag_id'', False) (map row_cells ?rs)"
    by (simp add: ordered_by_def cell_before_def sorted_wrt_map)
  show ?thesis
    by (rule select_answerI [of _ _ current_positions_table d2 _ _ "ta_rows d2" "map row_cells ?rs" "map row_cells ?rs"])
      (use get_migrated(2) [OF none] columns_found(2) order perm
        in \<open>simp_all add: select_all_current_positions_stmt_def where_rows_def page_of_def comp_def selected_cells(1)\<close>)
qed

text \<open>An offset beyond BIGINT, which the endpoint lets through, has no answer.\<close>

theorem oversized_offset_refused:
  assumes "pg_contract pg" and "2^63 \<le> offset"
  shows "\<not> select_answer pg (select_position_history_stmt clauses) (history_params tag clauses limit offset) db out"
proof -
  have "pg_bigint pg (JInt offset) = Inl DatabaseError" using assms by (simp add: pg_contract_def)
  then have "page_of pg (history_params tag clauses limit offset) (Some (lit ''limit'', lit ''offset'')) rows \<noteq> Inr page"
    for rows page :: "cell dict list"
    by (simp add: page_of_def bigint_param_def history_params_def not_null_def res_simps)
  then show ?thesis by (simp add: select_answer_def select_position_history_stmt_def)
qed

section \<open>Properties\<close>

text \<open>
  C24. What the repository is modelled to read is what the statements answer. After any writes from the
  migration on, the snapshot and a page of the history are valid answers of their SELECT statements,
  with the time clauses that were asked for, and the total is the answer of the COUNT, as long as the
  tag can be stored and the offset is a BIGINT; PostgreSQL refuses others.
\<close>

theorem sql_answers_queries:
  assumes "none_taken base" and "ids_needed ws < 2^63" and "pg_contract pg"
    and "storable_text tag" and "offset < 2^63"
    and m: "m = write_all pg (map snd ws) empty_db" and clauses: "clauses = build_time_filters from_ts to_ts"
    and asked: "position_history pg m m tag from_ts to_ts limit offset = Some (items, found)"
  shows "\<exists>db. run_step migration_apply base = (db, Inr ())
    \<and> (\<exists>out. select_answer pg select_all_current_positions_stmt [] (sql_writes pg ws db) out
        \<and> get_all_current_positions pg m = map (zip current_pos_columns) out)
    \<and> (\<exists>out. select_answer pg (select_position_history_stmt clauses) (history_params tag clauses limit offset)
          (sql_writes pg ws db) out
        \<and> items = map (zip current_pos_columns) out)
    \<and> select_count pg (count_position_history_stmt clauses) (count_params tag clauses) (sql_writes pg ws db)
        = Inr found"
proof -
  from sql_writes_refine_writes [OF assms(1,2), of pg] obtain d1 d2 where
    run: "sql_writes pg ws (migrated base empty_table empty_table) = migrated base d1 d2"
    and st: "events_stored d1 (db_events m)" "current_stored d2 (db_current m)"
    unfolding m tables_store_def by blast
  from asked have limit: "0 \<le> limit" "limit < 2^63" "0 \<le> offset"
    and items: "items = get_position_history pg m tag from_ts to_ts (nat limit) (nat offset)"
    and found: "found = count_position_history m tag from_ts to_ts"
    by (auto simp: position_history_def split: if_splits)
  let ?rs = "sort_key (\<lambda>r. pg_collate pg (pr_tag_id r)) (pg_scan pg (map snd (db_current m)))"
  let ?page = "take (nat limit) (drop (nat offset) (select_history pg m tag clauses))"
  have rows: "map row_dict rs = map (zip current_pos_columns) (map select_row rs)" for rs
    by (simp add: row_dict_def)
  have "items = map (zip current_pos_columns) (map select_row ?page)"
    unfolding items get_position_history_def clauses [symmetric] by (rule rows)
  moreover have "get_all_current_positions pg m = map (zip current_pos_columns) (map select_row ?rs)"
    unfolding get_all_current_positions_def by (rule rows)
  moreover note snapshot_answer [OF assms(1,3) st(2), of d1]
    history_answer [OF assms(1,3) st(1) assms(4) clauses limit assms(5), of d2]
    count_answer [OF assms(1,3) st(1) assms(4) clauses, of d2]
  ultimately show ?thesis
    using run by (intro exI [of _ "migrated base empty_table empty_table"])
      (auto simp: run_step_def apply_migrated [OF assms(1)] found)
qed

lemma sql_answers_queries_witness:
  "\<exists>db out. run_step migration_apply sample_base = (db, Inr ())
    \<and> select_answer sample_pg (select_position_history_stmt [TsFrom 0])
        (history_params (lit ''T1'') [TsFrom 0] 10 0) (sql_writes sample_pg [(0, None, sample_envelope)] db) out
    \<and> map (zip current_pos_columns) out = [row_dict sample_position]"
proof -
  let ?ws = "[(0::nat, None, sample_envelope)]"
  let ?m = "write_all sample_pg (map snd ?ws) empty_db"
  have m: "?m = store_row sample_position empty_db"
    by (simp add: write_all_def write_to_db_def persist_envelope_row sample_row)
  have ids: "ids_needed ?ws < 2^63" by (simp add: ids_needed_def)
  have tag: "storable_text (lit ''T1'')" by code_simp
  have clauses: "[TsFrom 0] = build_time_filters (Some 0) None" by (simp add: build_time_filters_def)
  have asked: "position_history sample_pg ?m ?m (lit ''T1'') (Some 0) None 10 0 = Some ([row_dict sample_position], 1)"
    unfolding m by code_simp
  have offset: "(0::int) < 2^63" by simp
  from sql_answers_queries [OF sample_base_free(1) ids sample_pg_contract tag offset refl clauses asked]
  show ?thesis
    unfolding eq_commute [of "[row_dict sample_position]"]
    by (elim exE conjE) (intro exI conjI; assumption)
qed

end
