(* ===== verification/Udp_Client.thy ===== *)
theory Udp_Client
  imports Udp_Server_Properties "HOL-Library.Sublist"
begin

text \<open>
  \<open>core/udp/client.py\<close> and \<open>stream_generator/main.py\<close>: the generator validates the lines of a file,
  injects a trace context into copies of the objects, and the client sends them in batches with a
  pause after each. The socket is an argument: the exception of the \<open>n\<close>-th \<open>sendto\<close>, if it raises.
\<close>

section \<open>The client\<close>

datatype client_event = Sent bytes | Slept int

text \<open>\<open>itertools.batched\<close> for a positive size.\<close>

function batched :: "nat \<Rightarrow> 'a list \<Rightarrow> 'a list list" where
  "batched n xs = (if n = 0 \<or> xs = [] then [] else take n xs # batched n (drop n xs))"
  by pat_completeness auto
termination by (relation "measure (\<lambda>(n, xs). length xs)") auto

declare batched.simps [simp del]

definition client_payload :: "json \<Rightarrow> bytes res" where
  "client_payload obj = bind_res (json_dumps obj) encode_utf8"

fun send_batch :: "(nat \<Rightarrow> py_exc option) \<Rightarrow> nat \<Rightarrow> json list \<Rightarrow> client_event list \<times> unit res" where
  "send_batch sock n [] = ([], Inr ())"
| "send_batch sock n (obj # objs) =
     (case client_payload obj of
        Inl e \<Rightarrow> ([], Inl e)
      | Inr payload \<Rightarrow>
          (case sock n of
             Some e \<Rightarrow> ([], Inl e)
           | None \<Rightarrow> (let (evs, r) = send_batch sock (Suc n) objs in (Sent payload # evs, r))))"

text \<open>\<open>sleep\<close> raises a \<open>ValueError\<close> for a negative time.\<close>

fun send_batches :: "(nat \<Rightarrow> py_exc option) \<Rightarrow> int \<Rightarrow> nat \<Rightarrow> json list list \<Rightarrow> client_event list \<times> unit res" where
  "send_batches sock t n [] = ([], Inr ())"
| "send_batches sock t n (batch # batches) =
     (let (evs, r) = send_batch sock n batch
      in (case r of
            Inl e \<Rightarrow> (evs, Inl e)
          | Inr _ \<Rightarrow>
              if t < 0 then (evs, Inl ValueError)
              else (let (evs', r') = send_batches sock t (n + length batch) batches
                    in (evs @ Slept t # evs', r'))))"

definition client_send ::
  "(nat \<Rightarrow> py_exc option) \<Rightarrow> json list \<Rightarrow> int \<Rightarrow> int \<Rightarrow> client_event list \<times> unit res" where
  "client_send sock objects batch_size time_between_batches =
     (if batch_size < 1 then ([], Inl ValueError)
      else send_batches sock time_between_batches 0 (batched (nat batch_size) objects))"

section \<open>The generator\<close>

text \<open>Only a dict takes the assignments of the propagator; the copy is shallow, the original stays.\<close>

definition inject_value :: "'ctx otel \<Rightarrow> 'ctx option \<Rightarrow> nat \<Rightarrow> json \<Rightarrow> json res" where
  "inject_value ot ctx span_no obj =
     (case obj of
        JObj d \<Rightarrow> Inr (JObj (inject_into_dict ot ctx span_no d))
      | _ \<Rightarrow> if ot_inject ot ctx span_no = [] then Inr obj else Inl TypeError)"

definition inject_trace_context :: "'ctx otel \<Rightarrow> 'ctx option \<Rightarrow> nat \<Rightarrow> json list \<Rightarrow> json list res" where
  "inject_trace_context ot ctx span_no objects = map_res (inject_value ot ctx span_no) objects"

record 'ctx generator =
  ge_interp :: interp
  ge_schema :: schema
  ge_origin :: pystr
  ge_otel :: "'ctx otel"
  ge_context :: "'ctx option"
  ge_span :: nat
  ge_socket :: "nat \<Rightarrow> py_exc option"

text \<open>\<open>main\<close>, on the lines of the source file.\<close>

definition generate :: "'ctx generator \<Rightarrow> pystr list \<Rightarrow> int \<Rightarrow> int \<Rightarrow> client_event list \<times> unit res" where
  "generate ge lines batch_size time_between_batches =
     (case bind_res (get_validated_objects_from_file (ge_interp ge) (ge_schema ge) (ge_origin ge) lines)
        (\<lambda>(objects, errors).
           inject_trace_context (ge_otel ge) (ge_context ge) (ge_span ge) (map vo_data objects)) of
        Inl e \<Rightarrow> ([], Inl e)
      | Inr traced_objects \<Rightarrow>
          client_send (ge_socket ge) traced_objects batch_size time_between_batches)"

section \<open>Facts\<close>

definition sent :: "client_event list \<Rightarrow> bytes list" where
  "sent evs = List.map_filter (\<lambda>ev. case ev of Sent p \<Rightarrow> Some p | Slept _ \<Rightarrow> None) evs"

definition slept :: "client_event list \<Rightarrow> int list" where
  "slept evs = List.map_filter (\<lambda>ev. case ev of Sent _ \<Rightarrow> None | Slept t \<Rightarrow> Some t) evs"

lemma sent_simps [simp]:
  "sent [] = []" "sent (Sent p # evs) = p # sent evs" "sent (Slept t # evs) = sent evs"
  "sent (evs @ evs') = sent evs @ sent evs'"
  by (simp_all add: sent_def List.map_filter_def)

lemma slept_simps [simp]:
  "slept [] = []" "slept (Sent p # evs) = slept evs" "slept (Slept t # evs) = t # slept evs"
  "slept (evs @ evs') = slept evs @ slept evs'"
  by (simp_all add: slept_def List.map_filter_def)

lemma concat_batched: "0 < n \<Longrightarrow> concat (batched n xs) = xs"
proof (induction n xs rule: batched.induct)
  case (1 n xs)
  then show ?case by (subst batched.simps) auto
qed

lemma batched_sizes: "b \<in> set (batched n xs) \<Longrightarrow> 0 < length b \<and> length b \<le> n"
proof (induction n xs rule: batched.induct)
  case (1 n xs)
  from 1(2) show ?case
    by (subst (asm) batched.simps) (use 1(1) in \<open>auto split: if_splits\<close>)
qed

lemma length_batched: "0 < n \<Longrightarrow> length (batched n xs) = (length xs + n - 1) div n"
proof (induction n xs rule: batched.induct)
  case (1 n xs)
  show ?case
  proof (cases "xs = []")
    case True
    then show ?thesis using 1(2) by (simp add: batched.simps)
  next
    case False
    then have len: "0 < length xs" by simp
    have "length (batched n xs) = Suc ((length (drop n xs) + n - 1) div n)"
      using 1 False by (subst batched.simps) simp
    also have "(length (drop n xs) + n - 1) div n = (length xs - 1) div n"
    proof (cases "length xs \<le> n")
      case True
      then have "(n - 1) div n = 0" "(length xs - 1) div n = 0" using len 1(2) by (intro div_less; linarith)+
      then show ?thesis using True by simp
    next
      case False
      then have "length (drop n xs) + n - 1 = length xs - 1" by simp
      then show ?thesis by simp
    qed
    also have "Suc ((length xs - 1) div n) = ((length xs - 1) + n) div n" using 1(2) by simp
    also have "(length xs - 1) + n = length xs + n - 1" using len by linarith
    finally show ?thesis .
  qed
qed

lemma map_res_append:
  "map_res f (xs @ ys) = bind_res (map_res f xs) (\<lambda>as. bind_res (map_res f ys) (\<lambda>bs. Inr (as @ bs)))"
proof (induction xs)
  case Nil
  show ?case by (cases "map_res f ys") simp_all
next
  case (Cons x xs)
  then show ?case by (cases "map_res f ys") (simp_all add: bind_res_assoc)
qed

lemma send_batch_sent:
  "send_batch sock n objs = (evs, r) \<Longrightarrow> map_res client_payload objs = Inr ps \<Longrightarrow>
     prefix (sent evs) ps \<and> slept evs = [] \<and> (r = Inr () \<longrightarrow> sent evs = ps)
     \<and> ((\<forall>k. sock k = None) \<longrightarrow> r = Inr ())"
proof (induction sock n objs arbitrary: evs ps rule: send_batch.induct)
  case (2 sock n obj objs)
  from 2(3) obtain p ps' where p: "client_payload obj = Inr p" "map_res client_payload objs = Inr ps'"
    "ps = p # ps'" by (auto simp: res_simps)
  show ?case
  proof (cases "sock n")
    case None
    with 2(2) p obtain evs' where "send_batch sock (Suc n) objs = (evs', r)" "evs = Sent p # evs'"
      by (auto split: prod.splits)
    with 2(1) [OF p(1) None _ p(2)] p(3) show ?thesis by auto
  next
    case (Some e)
    with 2(2) p show ?thesis by auto
  qed
qed auto

lemma send_batches_sent:
  "send_batches sock t n bs = (evs, r) \<Longrightarrow> map_res client_payload (concat bs) = Inr ps \<Longrightarrow>
     prefix (sent evs) ps \<and> (r = Inr () \<longrightarrow> sent evs = ps \<and> slept evs = replicate (length bs) t)
     \<and> ((\<forall>k. sock k = None) \<and> 0 \<le> t \<longrightarrow> r = Inr ())"
proof (induction sock t n bs arbitrary: evs ps rule: send_batches.induct)
  case (2 sock t n b bs)
  from 2(3) obtain ps1 ps2 where p: "map_res client_payload b = Inr ps1"
    "map_res client_payload (concat bs) = Inr ps2" "ps = ps1 @ ps2"
    by (auto simp: map_res_append res_simps)
  obtain evs1 r1 where b: "send_batch sock n b = (evs1, r1)" by (cases "send_batch sock n b")
  note s1 = send_batch_sent [OF b p(1)]
  show ?case
  proof (cases "r1 = Inr () \<and> 0 \<le> t")
    case True
    with 2(2) b obtain evs2 where e: "send_batches sock t (n + length b) bs = (evs2, r)"
      "evs = evs1 @ Slept t # evs2"
      by (auto split: prod.splits)
    have "prefix (sent evs2) ps2 \<and> (r = Inr () \<longrightarrow> sent evs2 = ps2 \<and> slept evs2 = replicate (length bs) t)
     \<and> ((\<forall>k. sock k = None) \<and> 0 \<le> t \<longrightarrow> r = Inr ())"
      using 2(1) [OF b [symmetric] refl _ _ e(1) p(2)] True by simp
    then show ?thesis using s1 True e p(3) by auto
  next
    case False
    with 2(2) b have "evs = evs1" "r \<noteq> Inr ()"
      by (auto split: sum.splits if_splits)
    then show ?thesis using s1 False p(3) by (auto simp: prefix_def)
  qed
qed auto

section \<open>Properties\<close>



lemma inject_objects:
  "map_res (inject_value ot ctx n) (map JObj ds) = Inr (map (\<lambda>d. JObj (inject_into_dict ot ctx n d)) ds)"
  by (induction ds) (simp_all add: inject_value_def)

lemma map_res_nth: "map_res f xs = Inr ys \<Longrightarrow> i < length xs \<Longrightarrow> f (xs ! i) = Inr (ys ! i)"
proof (induction xs arbitrary: ys i)
  case (Cons x xs)
  then show ?case by (cases i) (auto simp: res_simps)
qed simp

lemma wf_inject:
  assumes "wf_json (JObj d)" and "\<forall>kv\<in>set (ot_inject ot ctx n). valid_str (fst kv) \<and> valid_str (snd kv)"
  shows "wf_json (JObj (inject_into_dict ot ctx n d))"
proof -
  have step: "wf_json (JObj (dict_setter d kv))"
    if "wf_json (JObj d)" "valid_str (fst kv)" "wf_json (snd kv)" for d kv
  proof -
    have "set (dict_setter d kv) \<subseteq> insert kv (set d)"
      unfolding dict_setter_def by (induction d) auto
    then show ?thesis using that wf_dict_set [of d "fst kv" "snd kv"]
      by (auto simp: list_all_iff dict_setter_def)
  qed
  have all: "wf_json (JObj (foldl dict_setter d kvs))"
    if "\<forall>kv\<in>set kvs. valid_str (fst kv) \<and> wf_json (snd kv)" "wf_json (JObj d)" for kvs
    using that
  proof (induction kvs arbitrary: d)
    case (Cons kv kvs)
    have "wf_json (JObj (dict_setter d kv))"
      by (rule step [OF Cons.prems(2)]) (use Cons.prems(1) in auto)
    from Cons.IH [OF _ this] Cons.prems(1) show ?case by simp
  qed simp
  have "\<forall>kv\<in>set (map (\<lambda>(k, v). (k, JStr v)) (ot_inject ot ctx n)). valid_str (fst kv) \<and> wf_json (snd kv)"
    using assms(2) by auto
  from all [OF this assms(1)] show ?thesis by (simp add: inject_into_dict_def)
qed

text \<open>A call that returns has encoded and sent everything.\<close>

lemma send_batch_returns:
  "send_batch sock n objs = (evs, Inr ()) \<Longrightarrow> map_res client_payload objs = Inr (sent evs)"
proof (induction sock n objs arbitrary: evs rule: send_batch.induct)
  case (2 sock n obj objs)
  from 2(2) obtain p where p: "client_payload obj = Inr p" by (auto split: sum.splits)
  with 2(2) have n: "sock n = None" by (auto split: option.splits)
  obtain evs' r where rest: "send_batch sock (Suc n) objs = (evs', r)"
    by (cases "send_batch sock (Suc n) objs")
  with 2(2) p n have "r = Inr ()" "evs = Sent p # evs'" by auto
  with 2(1) [OF p n, of evs'] rest p show ?case by simp
qed simp

lemma send_batches_returns:
  "send_batches sock t n bs = (evs, Inr ()) \<Longrightarrow> map_res client_payload (concat bs) = Inr (sent evs)"
proof (induction sock t n bs arbitrary: evs rule: send_batches.induct)
  case (2 sock t n b bs)
  obtain evs1 r1 where b: "send_batch sock n b = (evs1, r1)" by (cases "send_batch sock n b")
  obtain evs2 r2 where bs: "send_batches sock t (n + length b) bs = (evs2, r2)"
    by (cases "send_batches sock t (n + length b) bs")
  from 2(2) b bs have "r1 = Inr ()" "\<not> t < 0" "r2 = Inr ()" "evs = evs1 @ Slept t # evs2"
    by (auto split: sum.splits if_splits)
  with 2(1) [OF b [symmetric] refl _ _, of "()" evs2] send_batch_returns [of sock n b evs1] b bs
  show ?case by (simp add: map_res_append)
qed simp

lemma client_send_returns:
  "client_send sock objs bsize t = (evs, Inr ()) \<Longrightarrow> map_res client_payload objs = Inr (sent evs)"
  using send_batches_returns [of sock t 0 "batched (nat bsize) objs" evs]
  by (auto simp: client_send_def concat_batched split: if_splits)

lemma map_res_total: "(\<exists>ys. map_res f xs = Inr ys) \<longleftrightarrow> (\<forall>x\<in>set xs. \<exists>y. f x = Inr y)"
  by (induction xs) (auto simp: res_simps)

text \<open>Whether a dict has a text depends on its items only.\<close>

lemma json_dumps_items:
  assumes "json_dumps (JObj d) = Inr t" and "set d' \<subseteq> set d"
  shows "\<exists>t'. json_dumps (JObj d') = Inr t'"
proof -
  let ?f = "\<lambda>kv. bind_res (json_text False [44] [58] (snd kv)) (\<lambda>t. Inr (string_text False (fst kv) @ [58] @ t))"
  have "\<exists>ts. map_res ?f d = Inr ts" using assms(1) by (auto simp: json_dumps_def res_simps)
  then have "\<exists>ts. map_res ?f d' = Inr ts" using assms(2) unfolding map_res_total by blast
  then obtain ts where "map_res ?f d' = Inr ts" by blast
  then show ?thesis by (simp add: json_dumps_def)
qed

lemma inject_keeps_items:
  assumes "injects_trace_keys ot" and "list_all (\<lambda>k. dict_get d k = None) trace_keys"
  shows "set d \<subseteq> set (inject_into_dict ot ctx n d)"
proof
  fix kv assume kv: "kv \<in> set d"
  then have "fst kv \<notin> set trace_keys"
    using assms(2) by (auto simp: list_all_iff map_of_eq_None_iff)
  then have other: "\<forall>kv'\<in>set (map (\<lambda>(k, v). (k, JStr v)) (ot_inject ot ctx n)). fst kv' \<noteq> fst kv"
    using assms(1) by (fastforce simp: injects_trace_keys_def)
  have set: "kv \<in> set (dict_setter d kv')" if "kv \<in> set d" "fst kv' \<noteq> fst kv" for d kv'
    using that unfolding dict_setter_def by (induction d) auto
  have "kv \<in> set (foldl dict_setter d kvs)" if "\<forall>kv'\<in>set kvs. fst kv' \<noteq> fst kv" "kv \<in> set d" for kvs
    using that
  proof (induction kvs arbitrary: d)
    case (Cons k kvs)
    then have "kv \<in> set (dict_setter d k)" by (intro set) auto
    with Cons show ?case by simp
  qed simp
  then show "kv \<in> set (inject_into_dict ot ctx n d)"
    using other kv by (simp add: inject_into_dict_def)
qed

lemma validated_lines_data:
  assumes "validated_lines it schema origin n lines = Inr (objs, errs)" and "list_all valid_str lines"
    and "o' \<in> set objs"
  shows "schema (vo_data o') = [] \<and> wf_json (vo_data o')"
proof -
  have "objs = map (\<lambda>v. \<lparr>vo_origin = origin, vo_data = v\<rparr>) (List.map_filter (line_object schema) lines)"
    using validated_lines_objects [OF assms(1)] by blast
  then obtain line where line: "line \<in> set lines" "line_object schema line = Some (vo_data o')"
    using assms(3) by (auto simp: List.map_filter_def)
  then have j: "json_loads (strip line) = Inr (vo_data o')" and s: "schema (vo_data o') = []"
    by (auto simp: line_object_def split: sum.splits if_splits)
  have "valid_str (strip line)" using assms(2) line(1) by (simp add: list_all_iff valid_strip)
  with j s show ?thesis using json_loads_wf by blast
qed

text \<open>
  C39. What the generator sends, the server accepts as the object of the file: each datagram decodes
  to a text from which the server strips exactly the injected trace fields, and the validation of
  what remains, against the schema the generator used, yields the object itself.
\<close>

theorem generated_datagrams_accepted:
  assumes run: "generate ge lines batch_size t = (evs, Inr ())"
    and source: "get_validated_objects_from_file (ge_interp ge) (ge_schema ge) (ge_origin ge) lines = Inr (objs, errs)"
    and objects: "map vo_data objs = map JObj ds" "list_all valid_str lines"
      "list_all (\<lambda>d. list_all (\<lambda>k. dict_get d k = None) trace_keys) ds"
    and otel: "injects_trace_keys (ge_otel ge)"
      "\<forall>kv\<in>set (ot_inject (ge_otel ge) (ge_context ge) (ge_span ge)). valid_str (fst kv) \<and> valid_str (snd kv)"
    and server: "sv_validator sv = Some (ge_schema ge, origin)"
    and i: "i < length ds"
  shows "length (sent evs) = length ds \<and> (\<exists>s. decode_utf8 (sent evs ! i) = Inr s
    \<and> bind_res (strip_trace_from_string s) (validate_payload sv) = Inr (JObj (ds ! i), origin))"
proof -
  let ?inject = "\<lambda>d. inject_into_dict (ge_otel ge) (ge_context ge) (ge_span ge) d"
  have send: "client_send (ge_socket ge) (map (\<lambda>d. JObj (?inject d)) ds) batch_size t = (evs, Inr ())"
    using run source objects(1) inject_objects [of "ge_otel ge" "ge_context ge" "ge_span ge" ds]
    by (simp add: generate_def inject_trace_context_def)
  note ps = client_send_returns [OF send]
  have len: "length (sent evs) = length ds" using map_res_Inr_length [OF ps] by simp
  have "client_payload (JObj (?inject (ds ! i))) = Inr (sent evs ! i)"
    using map_res_nth [OF ps, of i] i by simp
  then obtain s where s: "json_dumps (JObj (?inject (ds ! i))) = Inr s" "encode_utf8 s = Inr (sent evs ! i)"
    by (auto simp: client_payload_def res_simps)
  have "vo_data (objs ! i) = JObj (ds ! i)" "objs ! i \<in> set objs"
    using objects(1) i by (metis length_map nth_map, metis length_map nth_mem)
  then have d: "ge_schema ge (JObj (ds ! i)) = []" "wf_json (JObj (ds ! i))"
    using validated_lines_data [OF _ objects(2)] source
    by (metis get_validated_objects_from_file_def)+
  have keys: "list_all (\<lambda>k. dict_get (ds ! i) k = None) trace_keys"
    using objects(3) i by (simp add: list_all_length)
  have wf: "wf_json (JObj (?inject (ds ! i)))" by (rule wf_inject [OF d(2) otel(2)])
  note strip = strip_injected_text [OF otel(1) wf s(1) keys]
  obtain out where out: "json_dumps (JObj (ds ! i)) = Inr out"
    using json_dumps_items [OF s(1) inject_keeps_items [OF otel(1) keys]] by blast
  have "validate_payload sv out = Inr (JObj (ds ! i), origin)"
    using json_loads_dumps [OF d(2) out] d(1) server by (simp add: validate_payload_Inr)
  moreover have "decode_utf8 (sent evs ! i) = Inr s"
    by (rule decode_encode_utf8 [OF json_dumps_valid [OF wf s(1)] s(2)])
  ultimately show ?thesis using len strip out by (intro conjI exI [of _ s]) simp_all
qed

definition sample_generator :: "unit generator" where
  "sample_generator =
     \<lparr>ge_interp = ascii_interp, ge_schema = (\<lambda>v. []), ge_origin = lit ''sim'', ge_otel = sample_otel,
      ge_context = None, ge_span = 1, ge_socket = (\<lambda>k. None)\<rparr>"

definition sample_line :: pystr where
  "sample_line = map (\<lambda>c. if c = 96 then 34 else c) (lit ''{`devid`:`A1`}'')"

lemma generated_datagrams_accepted_witness:
  "\<exists>s. decode_utf8 (sent (fst (generate sample_generator [sample_line] 10 1)) ! 0) = Inr s
    \<and> bind_res (strip_trace_from_string s) (validate_payload sample_server) =
        Inr (JObj [(lit ''devid'', JStr (lit ''A1''))], lit ''sim'')"
proof -
  let ?d = "[(lit ''devid'', JStr (lit ''A1''))]"
  have "snd (generate sample_generator [sample_line] 10 1) = Inr ()" by code_simp
  then have run: "generate sample_generator [sample_line] 10 1 =
      (fst (generate sample_generator [sample_line] 10 1), Inr ())" by (metis prod.collapse)
  have source: "get_validated_objects_from_file (ge_interp sample_generator) (ge_schema sample_generator)
      (ge_origin sample_generator) [sample_line] =
      Inr ([\<lparr>vo_origin = lit ''sim'', vo_data = JObj ?d\<rparr>], [])" by code_simp
  have valid: "list_all valid_str [sample_line]" by code_simp
  have otel: "injects_trace_keys (ge_otel sample_generator)"
    "\<forall>kv\<in>set (ot_inject (ge_otel sample_generator) (ge_context sample_generator) (ge_span sample_generator)).
       valid_str (fst kv) \<and> valid_str (snd kv)"
    by (simp_all add: sample_generator_def sample_otel_def injects_trace_keys_def trace_keys_def
        traceparent_def)
  have keys: "list_all (\<lambda>d. list_all (\<lambda>k. dict_get d k = None) trace_keys) [?d]"
    by (simp add: trace_keys_def traceparent_def tracestate_def)
  have server: "sv_validator sample_server = Some (ge_schema sample_generator, lit ''sim'')"
    by (simp add: sample_server_def sample_generator_def)
  from generated_datagrams_accepted [OF run source _ valid keys otel server, of 0] show ?thesis by simp
qed

end
