(* ===== verification/Lifecycle.thy ===== *)
theory Lifecycle
  imports Config Udp_Server
begin

text \<open>
  How the processes start, stay alive, report and stop: the consumer task of the API process with its
  reconnection loop and the lifespan around it (\<open>backend/app.py\<close>), the standalone consumer
  (\<open>backend/consumer.py\<close>), the HTTP metrics middleware, the health endpoint and the connection of the
  publisher (\<open>core/broker/rabbitmq.py\<close>). What the broker and the stop event do in an attempt to connect is the
  argument \<open>env\<close>. The calls on the libraries are values, in the order in which the code makes them.
\<close>

section \<open>The consumer task\<close>

datatype service_call =
    Connect pystr
  | ConnectRefused pystr
  | OpenChannel
  | SetQos int
  | DeclareExchange pystr pystr
  | DeclareQueue pystr
  | BindQueue pystr pystr pystr
  | Consume pystr
  | Delay int
  | CloseChannel
  | CloseConnection
  | CreatePool pystr nat nat int
  | ClosePool

text \<open>
  An attempt is refused, or raises after some of the calls on the connection, or serves.
  \<open>at_stopped\<close>: the stop event is set when the loop is entered; \<open>at_stop_seen\<close>: it is set while the
  attempt waits, for messages or for the delay after a failure.
\<close>

datatype attempt_end = Refused | FailsAfter nat | Serves

record attempt =
  at_stopped :: bool
  at_end :: attempt_end
  at_stop_seen :: bool

definition consumer_retry_delay :: int where
  "consumer_retry_delay = 5"

definition setup_calls :: "rabbitmq_config \<Rightarrow> service_call list" where
  "setup_calls cfg =
     [OpenChannel, SetQos 10,
      DeclareExchange (rc_exchange cfg) (rc_exchange_type cfg),
      DeclareQueue (rc_queue cfg),
      BindQueue (rc_queue cfg) (rc_exchange cfg) (rc_routing_key cfg),
      Consume (rc_queue cfg)]"

text \<open>The calls of one round of the loop; the connection is closed after the delay.\<close>

definition attempt_calls :: "rabbitmq_config \<Rightarrow> attempt_end \<Rightarrow> service_call list" where
  "attempt_calls cfg e =
     (case e of
        Refused \<Rightarrow> [ConnectRefused (rc_url cfg), Delay consumer_retry_delay]
      | FailsAfter k \<Rightarrow>
          Connect (rc_url cfg) # take k (setup_calls cfg) @ [Delay consumer_retry_delay, CloseConnection]
      | Serves \<Rightarrow> Connect (rc_url cfg) # setup_calls cfg @ [CloseConnection])"

text \<open>The loop may run for ever: \<open>None\<close> is not returning.\<close>

partial_function (option) run_consumer ::
  "rabbitmq_config \<Rightarrow> (nat \<Rightarrow> attempt) \<Rightarrow> nat \<Rightarrow> service_call list option" where
  "run_consumer cfg env n =
     (if at_stopped (env n) then Some []
      else if at_stop_seen (env n) then Some (attempt_calls cfg (at_end (env n)))
      else if at_end (env n) = Serves then None
      else Option.bind (run_consumer cfg env (Suc n))
             (\<lambda>calls. Some (attempt_calls cfg (at_end (env n)) @ calls)))"

text \<open>\<open>create_pool\<close>; the timeout is in seconds.\<close>

definition create_pool :: "backend_config \<Rightarrow> service_call" where
  "create_pool cfg = CreatePool (bk_dsn cfg) 4 20 10"

text \<open>
  \<open>_lifespan\<close>: after tracing is set up the pool lives around the consumer task, whose stop event the
  shutdown sets.
\<close>

definition lifespan ::
  "pystr dict \<Rightarrow> backend_config \<Rightarrow> (nat \<Rightarrow> attempt) \<Rightarrow> (tracing_call list \<times> service_call list) option" where
  "lifespan environ cfg env =
     Option.bind (run_consumer (bk_rabbitmq cfg) env 0)
       (\<lambda>calls. Some (snd (init_tracing (lit ''backend'') (get_otlp_endpoint environ)),
                       create_pool cfg # calls @ [ClosePool]))"

text \<open>
  The standalone consumer: one attempt, no retry. The flag says that it shuts down in the normal way;
  an exception leaves the pool open.
\<close>

definition consumer_main :: "backend_config \<Rightarrow> attempt_end \<Rightarrow> service_call list \<times> bool" where
  "consumer_main cfg e =
     (let mq = bk_rabbitmq cfg
      in case e of
        Refused \<Rightarrow> ([create_pool cfg, ConnectRefused (rc_url mq)], False)
      | FailsAfter k \<Rightarrow>
          (create_pool cfg # Connect (rc_url mq) # take k (setup_calls mq) @ [CloseConnection], False)
      | Serves \<Rightarrow>
          (create_pool cfg # Connect (rc_url mq) # setup_calls mq @ [CloseConnection, ClosePool], True))"

text \<open>\<open>RabbitMQPublisher._connect\<close> and \<open>close\<close>, which does nothing when the event loop has stopped.\<close>

definition publisher_connect :: "rabbitmq_config \<Rightarrow> service_call list" where
  "publisher_connect cfg =
     [Connect (rc_url cfg), OpenChannel, DeclareExchange (rc_exchange cfg) (rc_exchange_type cfg)]"

definition publisher_close :: "bool \<Rightarrow> service_call list" where
  "publisher_close loop_running = (if loop_running then [CloseChannel, CloseConnection] else [])"

section \<open>Health and HTTP metrics\<close>

text \<open>\<open>probe_database\<close>: the row that \<open>SELECT 1\<close> fetched, or an exception of the pool.\<close>

definition probe_database :: "json list option res \<Rightarrow> bool res" where
  "probe_database fetched = bind_res fetched (\<lambda>row. Inr (row = Some [JInt 1]))"

definition build_health_response :: "json list option res \<Rightarrow> int \<times> json" where
  "build_health_response fetched =
     (let database_ok = (case probe_database fetched of Inl e \<Rightarrow> False | Inr ok \<Rightarrow> ok)
      in if database_ok
         then (200, JObj [(lit ''status'', JStr (lit ''ok'')), (lit ''database'', JStr (lit ''ok''))])
         else (503, JObj [(lit ''status'', JStr (lit ''degraded'')),
                          (lit ''database'', JStr (lit ''unavailable''))]))"

record http_metrics =
  hm_requests :: "((pystr \<times> pystr \<times> int) \<times> nat) list"
  hm_latencies :: "((pystr \<times> pystr) \<times> nat) list"

definition bump :: "'k \<Rightarrow> ('k \<times> nat) list \<Rightarrow> ('k \<times> nat) list" where
  "bump k m = AList.update k (Suc (case map_of m k of None \<Rightarrow> 0 | Some n \<Rightarrow> n)) m"

text \<open>The middleware around a handler that answers a status or raises.\<close>

definition prometheus_middleware ::
  "pystr \<Rightarrow> pystr \<Rightarrow> int res \<Rightarrow> http_metrics \<Rightarrow> int res \<times> http_metrics" where
  "prometheus_middleware meth path response hm =
     (if path = lit ''/metrics'' then (response, hm)
      else (case response of
              Inl e \<Rightarrow> (Inl e, hm)
            | Inr status \<Rightarrow>
                (Inr status,
                 hm\<lparr>hm_latencies := bump (meth, path) (hm_latencies hm),
                    hm_requests := bump (meth, path, status) (hm_requests hm)\<rparr>)))"

section \<open>Facts\<close>

definition finishes :: "attempt \<Rightarrow> bool" where
  "finishes a \<longleftrightarrow> at_stopped a \<or> at_stop_seen a"

lemma run_consumer_Some:
  assumes "run_consumer cfg env m = Some calls"
  shows "(\<exists>n\<ge>m. finishes (env n) \<and> (\<forall>i. m \<le> i \<longrightarrow> i < n \<longrightarrow> at_end (env i) \<noteq> Serves))
     \<and> (\<exists>ends. calls = concat (map (attempt_calls cfg) ends))"
  using assms
proof (induction rule: run_consumer.raw_induct [rotated, consumes 1, case_names 1])
  case (1 rc cfg env m calls)
  show ?case
  proof (cases "finishes (env m)")
    case True
    then have "calls = concat (map (attempt_calls cfg) (if at_stopped (env m) then [] else [at_end (env m)]))"
      using 1(2) by (auto simp: finishes_def split: if_splits)
    then have "\<exists>ends. calls = concat (map (attempt_calls cfg) ends)" by (rule exI)
    moreover have "\<exists>n\<ge>m. finishes (env n) \<and> (\<forall>i. m \<le> i \<longrightarrow> i < n \<longrightarrow> at_end (env i) \<noteq> Serves)"
      by (rule exI [of _ m]) (use True in auto)
    ultimately show ?thesis by blast
  next
    case False
    with 1(2) have s: "at_end (env m) \<noteq> Serves" by (auto simp: finishes_def split: if_splits)
    with 1(2) False obtain rest where rest: "rc cfg env (Suc m) = Some rest"
      "calls = attempt_calls cfg (at_end (env m)) @ rest"
      by (auto simp: finishes_def Option.bind_eq_Some_conv)
    from 1(1) [OF rest(1)] obtain n ends where n: "n \<ge> Suc m" "finishes (env n)"
      "\<forall>i. Suc m \<le> i \<longrightarrow> i < n \<longrightarrow> at_end (env i) \<noteq> Serves"
      and ends: "rest = concat (map (attempt_calls cfg) ends)" by blast
    have "\<forall>i. m \<le> i \<longrightarrow> i < n \<longrightarrow> at_end (env i) \<noteq> Serves"
      using n(3) s by (metis Suc_leI le_neq_implies_less)
    moreover have "calls = concat (map (attempt_calls cfg) (at_end (env m) # ends))"
      using ends rest(2) by simp
    ultimately show ?thesis using n(1,2) Suc_leD by blast
  qed
qed

lemma run_consumer_reaches:
  "finishes (env (m + k)) \<Longrightarrow> (\<forall>i<k. at_end (env (m + i)) \<noteq> Serves) \<Longrightarrow> \<exists>calls. run_consumer cfg env m = Some calls"
proof (induction k arbitrary: m)
  case 0
  then show ?case by (subst run_consumer.simps) (auto simp: finishes_def)
next
  case (Suc k)
  have "\<forall>i<k. at_end (env (Suc m + i)) \<noteq> Serves"
  proof (intro allI impI)
    fix i assume "i < k"
    with Suc.prems(2) have "at_end (env (m + Suc i)) \<noteq> Serves" by blast
    then show "at_end (env (Suc m + i)) \<noteq> Serves" by simp
  qed
  with Suc.IH [of "Suc m"] Suc.prems(1) obtain calls where "run_consumer cfg env (Suc m) = Some calls" by auto
  moreover have "at_end (env m) \<noteq> Serves" using Suc.prems(2) by (metis add.right_neutral zero_less_Suc)
  ultimately show ?case by (subst run_consumer.simps) auto
qed

lemma setup_calls_other: "CloseConnection \<notin> set (setup_calls cfg)" "Connect u \<notin> set (setup_calls cfg)"
  by (simp_all add: setup_calls_def)

lemma attempt_balanced:
  "count_list (attempt_calls cfg e) (Connect (rc_url cfg)) = count_list (attempt_calls cfg e) CloseConnection"
proof -
  have "CloseConnection \<notin> set (take k (setup_calls cfg))" "Connect u \<notin> set (take k (setup_calls cfg))" for k u
    using setup_calls_other by (auto dest: in_set_takeD)
  then show ?thesis using setup_calls_other
    by (cases e) (simp_all add: attempt_calls_def)
qed

section \<open>Property\<close>


end
