(* ===== verification/Publisher.thy ===== *)
theory Publisher
  imports Lifecycle
begin

text \<open>
  \<open>RabbitMQPublisher\<close> of \<open>core/broker/rabbitmq.py\<close> as an object with a life: its event loop runs in
  a thread of its own, every call submits a coroutine to the loop and waits for its result, and
  \<open>close\<close> stops the loop. A coroutine that is submitted to a loop that has stopped never runs, so the
  call that waits for it never returns. What the broker does in a call is an argument of the call.
\<close>

section \<open>The object\<close>

record publisher =
  pb_config :: rabbitmq_config
  pb_loop_running :: bool
  pb_exchange :: exchange
  pb_calls :: "service_call list"

text \<open>A call returns, raises, or waits for ever.\<close>

datatype 'a outcome = Returned 'a | Raises py_exc | Hangs

text \<open>
  \<open>__init__\<close>: the thread is started, then the connection made. \<open>failure\<close> is the number of calls that
  succeed before one raises; then there is no object, and the thread of the loop stays behind.
\<close>

definition publisher_init ::
  "rabbitmq_config \<Rightarrow> (nat \<times> py_exc) option \<Rightarrow> exchange \<Rightarrow> publisher res \<times> service_call list" where
  "publisher_init cfg failure ex =
     (case failure of
        Some (k, e) \<Rightarrow> (Inl e, take k (publisher_connect cfg))
      | None \<Rightarrow>
          (Inr \<lparr>pb_config = cfg, pb_loop_running = True, pb_exchange = ex, pb_calls = publisher_connect cfg\<rparr>,
           publisher_connect cfg))"

definition publisher_publish ::
  "py_exc option \<Rightarrow> pystr option \<Rightarrow> bytes \<Rightarrow> pystr dict option \<Rightarrow> publisher \<Rightarrow> unit outcome \<times> publisher" where
  "publisher_publish failure topic message headers pb =
     (if \<not> pb_loop_running pb then (Hangs, pb)
      else (case publish (pb_config pb) failure topic message headers (pb_exchange pb) of
              Inl e \<Rightarrow> (Raises e, pb)
            | Inr ex \<Rightarrow> (Returned (), pb\<lparr>pb_exchange := ex\<rparr>)))"

text \<open>
  \<open>close\<close>: an exception or the timeout while the channel and the connection close leaves the loop
  running; a second call finds the loop stopped and does nothing.
\<close>

definition publisher_shutdown :: "(nat \<times> py_exc) option \<Rightarrow> publisher \<Rightarrow> unit outcome \<times> publisher" where
  "publisher_shutdown failure pb =
     (if \<not> pb_loop_running pb then (Returned (), pb)
      else (case failure of
              Some (k, e) \<Rightarrow> (Raises e, pb\<lparr>pb_calls := pb_calls pb @ take k (publisher_close True)\<rparr>)
            | None \<Rightarrow>
                (Returned (), pb\<lparr>pb_loop_running := False, pb_calls := pb_calls pb @ publisher_close True\<rparr>)))"

section \<open>Sequences of calls\<close>

datatype publisher_op =
    Publish "py_exc option" "pystr option" bytes "pystr dict option"
  | Shutdown "(nat \<times> py_exc) option"

fun publisher_call :: "publisher_op \<Rightarrow> publisher \<Rightarrow> unit outcome \<times> publisher" where
  "publisher_call (Publish failure topic message headers) pb = publisher_publish failure topic message headers pb"
| "publisher_call (Shutdown failure) pb = publisher_shutdown failure pb"

text \<open>The caller makes one call after another; one that hangs is its last.\<close>

fun publisher_run :: "publisher_op list \<Rightarrow> publisher \<Rightarrow> unit outcome list \<times> publisher" where
  "publisher_run [] pb = ([], pb)"
| "publisher_run (op # ops) pb =
     (case publisher_call op pb of
        (Hangs, pb') \<Rightarrow> ([Hangs], pb')
      | (r, pb') \<Rightarrow> let (rs, pb'') = publisher_run ops pb' in (r # rs, pb''))"

fun is_publish :: "publisher_op \<Rightarrow> bool" where
  "is_publish (Publish failure topic message headers) = True"
| "is_publish (Shutdown failure) = False"

text \<open>The message of a call that the broker accepts.\<close>

fun accepted_of :: "rabbitmq_config \<Rightarrow> publisher_op \<Rightarrow> (pystr \<times> amqp_message) option" where
  "accepted_of cfg (Publish None topic message headers) = Some (routing_key_of cfg topic, amqp_of message headers)"
| "accepted_of cfg _ = None"

lemma stopped_run:
  assumes "\<not> pb_loop_running pb"
  shows "snd (publisher_run ops pb) = pb \<and> (Hangs \<in> set (fst (publisher_run ops pb)) \<longleftrightarrow> list_ex is_publish ops)"
proof (induction ops)
  case (Cons op ops)
  then show ?case
    using assms by (cases op) (auto simp: publisher_publish_def publisher_shutdown_def split: prod.split)
qed simp

lemma running_publish:
  assumes "pb_loop_running pb" and "publisher_call (Publish failure topic message headers) pb = (r, pb')"
  shows "r \<noteq> Hangs" "pb_loop_running pb'" "pb_config pb' = pb_config pb"
    and "ex_accepted (pb_exchange pb') = ex_accepted (pb_exchange pb) @
      (case accepted_of (pb_config pb) (Publish failure topic message headers) of None \<Rightarrow> [] | Some x \<Rightarrow> [x])"
  using assms by (cases failure; auto simp: publisher_publish_def publish_def)+

lemma running_shutdown:
  assumes "pb_loop_running pb" and "publisher_call (Shutdown failure) pb = (r, pb')"
  shows "r \<noteq> Hangs" "pb_loop_running pb' \<longleftrightarrow> failure \<noteq> None" "pb_config pb' = pb_config pb"
    "pb_exchange pb' = pb_exchange pb"
  using assms by (cases failure; auto simp: publisher_shutdown_def)+


definition sample_publisher :: publisher where
  "sample_publisher =
     \<lparr>pb_config = \<lparr>rc_url = [], rc_exchange = lit ''rtls'', rc_exchange_type = lit ''topic'',
        rc_queue = lit ''q'', rc_routing_key = lit ''rk''\<rparr>, pb_loop_running = True,
      pb_exchange = \<lparr>ex_accepted = [], ex_messages_total = 0\<rparr>, pb_calls = []\<rparr>"


end
