(* ===== verification/Receiver.thy ===== *)
theory Receiver
  imports Publisher
begin

text \<open>
  The UDP receiver as a process (\<open>udp_receiver/main.py\<close>): it starts the metrics server, connects the
  publisher, reads the schema, binds the socket, serves, and closes what it has opened. Every step
  leaves its action, and it returns, raises, is interrupted or is stuck; what the outside answers is
  the record \<open>receiver_world\<close>. The constructors and \<open>close\<close> of \<open>UdpServer\<close> and \<open>Validator\<close> are here
  with it, and the server calls the publisher as the object that it is.
\<close>

section \<open>Steps of a process\<close>

datatype receiver_action =
    MetricsServer pystr int
  | Trace tracing_call
  | Broker service_call
  | ReadSchema pypath
  | OpenSocket
  | BindSocket json json
  | LoopEnds exchange
  | CloseSocket

datatype 'a process_end = Ends 'a | Fails py_exc | Interrupted | Stuck

type_synonym 'a process = "receiver_action list \<times> 'a process_end"

definition of_res :: "'a res \<Rightarrow> 'a process_end" where
  "of_res r = (case r of Inl e \<Rightarrow> Fails e | Inr a \<Rightarrow> Ends a)"

definition then_process :: "'a process \<Rightarrow> ('a \<Rightarrow> 'b process) \<Rightarrow> 'b process" where
  "then_process m f =
     (case snd m of
        Ends a \<Rightarrow> (fst m @ fst (f a), snd (f a))
      | Fails e \<Rightarrow> (fst m, Fails e)
      | Interrupted \<Rightarrow> (fst m, Interrupted)
      | Stuck \<Rightarrow> (fst m, Stuck))"

text \<open>\<open>try: ... finally: ...\<close>: the block runs however the body ends, and its exception replaces that of the body.\<close>

definition finally_process :: "'a process \<Rightarrow> unit process \<Rightarrow> 'a process" where
  "finally_process m block =
     (case snd m of
        Stuck \<Rightarrow> (fst m, Stuck)
      | r \<Rightarrow> (fst m @ fst block,
              case snd block of Ends u \<Rightarrow> r | Fails e \<Rightarrow> Fails e | Interrupted \<Rightarrow> Interrupted | Stuck \<Rightarrow> Stuck))"

definition of_outcome :: "'a outcome \<Rightarrow> 'a process_end" where
  "of_outcome r = (case r of Returned a \<Rightarrow> Ends a | Raises e \<Rightarrow> Fails e | Hangs \<Rightarrow> Stuck)"

section \<open>The metrics server\<close>

definition metrics_enabled :: "interp \<Rightarrow> pystr dict \<Rightarrow> bool" where
  "metrics_enabled it env \<longleftrightarrow>
     py_lower it (getenv env ''PROMETHEUS_METRICS_ENABLED'' (lit ''true''))
       \<notin> set [lit ''0'', lit ''false'', lit ''no'', lit ''off'']"

text \<open>An empty argument falls back to the environment of the process; \<open>listen\<close> is the socket.\<close>

definition start_metrics_server ::
  "interp \<Rightarrow> (pystr \<Rightarrow> int \<Rightarrow> unit res) \<Rightarrow> pystr dict \<Rightarrow> pystr dict option \<Rightarrow> (pystr \<times> int) option res" where
  "start_metrics_server it listen environ env =
     (let resolved = (case env of None \<Rightarrow> environ | Some e \<Rightarrow> if e = [] then environ else e)
      in if \<not> metrics_enabled it resolved then Inr None
         else let host = getenv resolved ''PROMETHEUS_METRICS_HOST'' (lit ''0.0.0.0'')
              in bind_res (py_int (getenv resolved ''PROMETHEUS_METRICS_PORT'' (lit ''9100''))) (\<lambda>port.
                 bind_res (listen host port) (\<lambda>_. Inr (Some (host, port)))))"

section \<open>The server and the publisher as objects\<close>

text \<open>
  \<open>Validator.__init__\<close>: the schema file is opened, decoded and read; \<open>jsonschema\<close> gives the errors of a
  value for a schema document.
\<close>

definition validator_init ::
  "(pypath \<Rightarrow> bytes res) \<Rightarrow> (json \<Rightarrow> schema) \<Rightarrow> pypath \<Rightarrow> pystr \<Rightarrow> (schema \<times> pystr) res" where
  "validator_init files jsonschema schema_path origin =
     bind_res (files schema_path) (\<lambda>data.
     bind_res (decode_utf8 data) (\<lambda>text.
     bind_res (json_loads text) (\<lambda>schema. Inr (jsonschema schema, origin))))"

definition publish_message ::
  "'ctx server \<Rightarrow> py_exc option \<Rightarrow> bytes \<Rightarrow> pystr dict \<Rightarrow> publisher \<Rightarrow> unit outcome \<times> publisher" where
  "publish_message sv failure message headers pb =
     publisher_publish failure (sv_topic sv) message (Some headers) pb"

text \<open>One round of \<open>serve_forever\<close> with the publisher of the server: a call that hangs ends it.\<close>

definition object_datagram ::
  "'ctx server \<Rightarrow> datagram \<Rightarrow> publisher \<times> (bytes \<times> py_exc) list \<Rightarrow> unit outcome \<times> publisher \<times> (bytes \<times> py_exc) list"
where
  "object_datagram sv dg st =
     (let (pb, errors) = st;
          failed = (\<lambda>exc. if sv_on_decode_error sv then errors @ [(dg_data dg, exc)] else errors)
      in case prepare_message sv dg of
           Inl exc \<Rightarrow> (Returned (), pb, failed exc)
         | Inr (message, headers) \<Rightarrow>
             (case publish_message sv (dg_broker_error dg) message headers pb of
                (Returned u, pb') \<Rightarrow> (Returned (), pb', errors)
              | (Raises exc, pb') \<Rightarrow> (Returned (), pb', failed exc)
              | (Hangs, pb') \<Rightarrow> (Hangs, pb', errors)))"

fun object_serve ::
  "'ctx server \<Rightarrow> datagram list \<Rightarrow> publisher \<times> (bytes \<times> py_exc) list \<Rightarrow> unit outcome \<times> publisher \<times> (bytes \<times> py_exc) list"
where
  "object_serve sv [] st = (Returned (), st)"
| "object_serve sv (dg # dgs) st =
     (case object_datagram sv dg st of
        (Hangs, st') \<Rightarrow> (Hangs, st')
      | (_, st') \<Rightarrow> object_serve sv dgs st')"

section \<open>The process\<close>

text \<open>The loop ends with an \<open>OSError\<close> of the socket, or the process is interrupted while it waits.\<close>

datatype loop_end = SocketFails | Interrupt

record 'ctx receiver_world =
  rw_surroundings :: surroundings
  rw_listen :: "pystr \<Rightarrow> int \<Rightarrow> unit res"
  rw_connect :: "(nat \<times> py_exc) option"
  rw_open :: "pypath \<Rightarrow> bytes res"
  rw_jsonschema :: "json \<Rightarrow> schema"
  rw_bind :: "json \<Rightarrow> json \<Rightarrow> unit res"
  rw_datagrams :: "datagram list"
  rw_loop_end :: loop_end
  rw_socket_close :: "unit res"
  rw_disconnect :: "(nat \<times> py_exc) option"
  rw_interp :: interp
  rw_otel :: "'ctx otel"

definition empty_exchange :: exchange where
  "empty_exchange = \<lparr>ex_accepted = [], ex_messages_total = 0\<rparr>"

text \<open>The server that \<open>start_udp\<close> makes of a configuration and the validator.\<close>

definition server_of_config ::
  "interp \<Rightarrow> 'ctx otel \<Rightarrow> app_config \<Rightarrow> schema \<times> pystr \<Rightarrow> 'ctx server" where
  "server_of_config it ot c validator =
     \<lparr>sv_topic = Some (uc_topic (ac_udp_server c)),
      sv_validator = Some validator,
      sv_parser = True,
      sv_json_normalizer = Some (vc_origin (ac_validation c)),
      sv_envelope_version = bc_envelope_version (ac_broker c),
      sv_envelope_registry = default_registry,
      sv_event_type = lit ''position'',
      sv_on_decode_error = False,
      sv_broker = ac_rabbitmq c,
      sv_interp = it,
      sv_otel = ot\<rparr>"

text \<open>\<open>UdpServer.__init__\<close> opens and binds the socket, \<open>close\<close> closes it.\<close>

definition udp_server_init :: "'ctx receiver_world \<Rightarrow> app_config \<Rightarrow> schema \<times> pystr \<Rightarrow> 'ctx server process" where
  "udp_server_init w c validator =
     (let ip = uc_ip (ac_udp_server c); port = uc_port (ac_udp_server c)
      in case rw_bind w ip port of
           Inl e \<Rightarrow> ([OpenSocket], Fails e)
         | Inr u \<Rightarrow> ([OpenSocket, BindSocket ip port], Ends (server_of_config (rw_interp w) (rw_otel w) c validator)))"

definition udp_server_close :: "'ctx receiver_world \<Rightarrow> unit process" where
  "udp_server_close w =
     (case rw_socket_close w of Inl e \<Rightarrow> ([], Fails e) | Inr u \<Rightarrow> ([CloseSocket], Ends ()))"

definition serve_forever :: "'ctx receiver_world \<Rightarrow> 'ctx server \<Rightarrow> publisher \<Rightarrow> unit process \<times> publisher" where
  "serve_forever w sv pb =
     (let (r, pb', errors) = object_serve sv (rw_datagrams w) (pb, [])
      in (([LoopEnds (pb_exchange pb')],
           case r of Hangs \<Rightarrow> Stuck
           | _ \<Rightarrow> (case rw_loop_end w of SocketFails \<Rightarrow> Ends () | Interrupt \<Rightarrow> Interrupted)), pb'))"

definition publisher_close_process :: "'ctx receiver_world \<Rightarrow> publisher \<Rightarrow> unit process" where
  "publisher_close_process w pb =
     (let (r, pb') = publisher_shutdown (rw_disconnect w) pb
      in (map Broker (drop (length (pb_calls pb)) (pb_calls pb')), of_outcome r))"

text \<open>The \<open>try\<close> statement of \<open>start_udp\<close>.\<close>

definition serve_and_close :: "'ctx receiver_world \<Rightarrow> 'ctx server \<Rightarrow> publisher \<Rightarrow> unit process" where
  "serve_and_close w sv pb =
     (let (body, pb') = serve_forever w sv pb
      in finally_process body
           (then_process (udp_server_close w) (\<lambda>_. publisher_close_process w pb')))"

definition start_udp :: "'ctx receiver_world \<Rightarrow> app_config option \<Rightarrow> unit process" where
  "start_udp w cache =
     then_process ([], of_res (fst (get_config (rw_surroundings w) cache))) (\<lambda>config.
     then_process
       (let address = start_metrics_server (rw_interp w) (rw_listen w) (su_env (rw_surroundings w)) None
        in (case address of Inr (Some (host, port)) \<Rightarrow> [MetricsServer host port] | _ \<Rightarrow> [], of_res address)) (\<lambda>_.
     then_process
       (map Trace (snd (init_tracing (lit ''udp-receiver'') (get_otlp_endpoint (su_env (rw_surroundings w))))),
        Ends ()) (\<lambda>_.
     then_process
       (let (r, calls) = publisher_init (ac_rabbitmq config) (rw_connect w) empty_exchange
        in (map Broker calls, of_res r)) (\<lambda>publisher.
     then_process
       ([ReadSchema (vc_schema_path (ac_validation config))],
        of_res (validator_init (rw_open w) (rw_jsonschema w) (vc_schema_path (ac_validation config))
          (vc_origin (ac_validation config)))) (\<lambda>validator.
     then_process (udp_server_init w config validator) (\<lambda>server.
       serve_and_close w server publisher))))))"

section \<open>Facts\<close>

lemma then_process_simps [simp]:
  "then_process (as, Ends a) f = (as @ fst (f a), snd (f a))"
  "then_process (as, Fails e) f = (as, Fails e)"
  "then_process (as, Interrupted) f = (as, Interrupted)"
  "then_process (as, Stuck) f = (as, Stuck)"
  by (simp_all add: then_process_def)

lemma of_res_simps [simp]: "of_res (Inl e) = Fails e" "of_res (Inr a) = Ends a"
  by (simp_all add: of_res_def)

text \<open>The server with the publisher as an object, as long as its loop runs, is the server of the exchange.\<close>

lemma object_datagram_running:
  assumes "pb_loop_running pb" and "pb_config pb = sv_broker sv"
  shows "object_datagram sv dg (pb, errors) =
    (let st = handle_datagram sv dg \<lparr>ss_exchange = pb_exchange pb, ss_errors = errors\<rparr>
     in (Returned (), pb\<lparr>pb_exchange := ss_exchange st\<rparr>, ss_errors st))"
  using assms
  by (auto simp: object_datagram_def publish_message_def handle_datagram_def handle_processing_error_def publisher_publish_def
      res_simps split: sum.split prod.split)

lemma object_serve_running:
  assumes "pb_loop_running pb" and "pb_config pb = sv_broker sv"
  shows "object_serve sv dgs (pb, errors) =
    (let st = serve sv (map Datagram dgs) \<lparr>ss_exchange = pb_exchange pb, ss_errors = errors\<rparr>
     in (Returned (), pb\<lparr>pb_exchange := ss_exchange st\<rparr>, ss_errors st))"
  using assms
proof (induction dgs arbitrary: pb errors)
  case (Cons dg dgs)
  let ?st = "handle_datagram sv dg \<lparr>ss_exchange = pb_exchange pb, ss_errors = errors\<rparr>"
  have st: "\<lparr>ss_exchange = ss_exchange ?st, ss_errors = ss_errors ?st\<rparr> = ?st" by simp
  show ?case
    using Cons.prems Cons.IH [of "pb\<lparr>pb_exchange := ss_exchange ?st\<rparr>" "ss_errors ?st"]
    by (simp add: object_datagram_running Let_def st)
qed (simp add: Let_def)

text \<open>What closing does, and how the process ends then.\<close>

definition closing :: "'ctx receiver_world \<Rightarrow> unit process" where
  "closing w =
     (case rw_socket_close w of
        Inl e \<Rightarrow> ([], Fails e)
      | Inr u \<Rightarrow>
          (case rw_disconnect w of
             Some (k, e) \<Rightarrow> (CloseSocket # take k [Broker CloseChannel, Broker CloseConnection], Fails e)
           | None \<Rightarrow>
               ([CloseSocket, Broker CloseChannel, Broker CloseConnection],
                case rw_loop_end w of SocketFails \<Rightarrow> Ends () | Interrupt \<Rightarrow> Interrupted)))"

lemma serve_and_close_running:
  assumes "pb_loop_running pb" and "pb_config pb = sv_broker sv"
  shows "serve_and_close w sv pb =
    (LoopEnds (ss_exchange (serve sv (map Datagram (rw_datagrams w))
        \<lparr>ss_exchange = pb_exchange pb, ss_errors = []\<rparr>)) # fst (closing w), snd (closing w))"
  using assms
  by (auto simp: serve_and_close_def serve_forever_def object_serve_running Let_def finally_process_def
      udp_server_close_def publisher_close_process_def publisher_shutdown_def publisher_close_def
      closing_def of_outcome_def take_map [symmetric] split: sum.split option.split loop_end.split prod.split)

fun closes :: "receiver_action \<Rightarrow> bool" where
  "closes CloseSocket = True"
| "closes (Broker CloseChannel) = True"
| "closes (Broker CloseConnection) = True"
| "closes _ = False"

fun ends_loop :: "receiver_action \<Rightarrow> bool" where
  "ends_loop (LoopEnds ex) = True"
| "ends_loop _ = False"

definition quiet_actions :: "receiver_action list \<Rightarrow> bool" where
  "quiet_actions acts \<longleftrightarrow> list_all (\<lambda>a. \<not> closes a \<and> \<not> ends_loop a) acts"

lemma quiet_simps [simp]:
  "quiet_actions []" "quiet_actions (as @ bs) \<longleftrightarrow> quiet_actions as \<and> quiet_actions bs"
  "quiet_actions (a # as) \<longleftrightarrow> \<not> closes a \<and> \<not> ends_loop a \<and> quiet_actions as"
  by (auto simp: quiet_actions_def)

lemma quiet_trace [simp]: "quiet_actions (map Trace calls)"
  by (simp add: quiet_actions_def list_all_iff)

lemma quiet_connect: "quiet_actions (map Broker (take k (publisher_connect cfg)))"
  by (auto simp: quiet_actions_def list_all_iff publisher_connect_def dest!: in_set_takeD)

text \<open>
  How the process can go: it fails while it starts, having closed nothing, or it has served and closes.
\<close>

definition fails_to_start :: "unit process \<Rightarrow> bool" where
  "fails_to_start p \<longleftrightarrow> quiet_actions (fst p) \<and> (\<exists>e. snd p = Fails e)"

definition serves_and_closes :: "'ctx receiver_world \<Rightarrow> app_config \<Rightarrow> schema \<times> pystr \<Rightarrow> unit process \<Rightarrow> bool" where
  "serves_and_closes w config validator p \<longleftrightarrow>
     (\<exists>opened. quiet_actions opened
       \<and> OpenSocket \<in> set opened \<and> Broker (Connect (rc_url (ac_rabbitmq config))) \<in> set opened
       \<and> p = (opened @ LoopEnds (ss_exchange
             (serve (server_of_config (rw_interp w) (rw_otel w) config validator) (map Datagram (rw_datagrams w))
                \<lparr>ss_exchange = empty_exchange, ss_errors = []\<rparr>)) # fst (closing w),
           snd (closing w)))"

definition validator_of :: "'ctx receiver_world \<Rightarrow> app_config \<Rightarrow> (schema \<times> pystr) res" where
  "validator_of w config =
     validator_init (rw_open w) (rw_jsonschema w) (vc_schema_path (ac_validation config))
       (vc_origin (ac_validation config))"

text \<open>The steps up to the schema file, and what follows.\<close>

definition start_actions :: "'ctx receiver_world \<Rightarrow> app_config \<Rightarrow> (pystr \<times> int) option \<Rightarrow> receiver_action list" where
  "start_actions w config address =
     (case address of None \<Rightarrow> [] | Some (host, port) \<Rightarrow> [MetricsServer host port])
     @ map Trace (snd (init_tracing (lit ''udp-receiver'') (get_otlp_endpoint (su_env (rw_surroundings w)))))
     @ map Broker (publisher_connect (ac_rabbitmq config))
     @ [ReadSchema (vc_schema_path (ac_validation config))]"

lemma start_actions_quiet: "quiet_actions (start_actions w config address)"
  using quiet_connect [of "length (publisher_connect (ac_rabbitmq config))" "ac_rabbitmq config"]
  by (simp add: start_actions_def split: option.split)

lemma start_udp_connected:
  assumes "fst (get_config (rw_surroundings w) cache) = Inr config"
    and "start_metrics_server (rw_interp w) (rw_listen w) (su_env (rw_surroundings w)) None = Inr address"
    and "rw_connect w = None"
  shows "start_udp w cache =
    (case validator_of w config of
       Inl e \<Rightarrow> (start_actions w config address, Fails e)
     | Inr validator \<Rightarrow>
         (case rw_bind w (uc_ip (ac_udp_server config)) (uc_port (ac_udp_server config)) of
            Inl e \<Rightarrow> (start_actions w config address @ [OpenSocket], Fails e)
          | Inr u \<Rightarrow>
              (start_actions w config address
                 @ [OpenSocket, BindSocket (uc_ip (ac_udp_server config)) (uc_port (ac_udp_server config))]
                 @ LoopEnds (ss_exchange
                     (serve (server_of_config (rw_interp w) (rw_otel w) config validator)
                        (map Datagram (rw_datagrams w)) \<lparr>ss_exchange = empty_exchange, ss_errors = []\<rparr>))
                 # fst (closing w),
               snd (closing w))))"
  using assms
  by (simp add: start_udp_def publisher_init_def validator_of_def start_actions_def udp_server_init_def
      serve_and_close_running server_of_config_def Let_def split: sum.split option.split)

lemma start_udp_unconnected:
  assumes "\<not> ((\<exists>config. fst (get_config (rw_surroundings w) cache) = Inr config)
    \<and> (\<exists>address. start_metrics_server (rw_interp w) (rw_listen w) (su_env (rw_surroundings w)) None = Inr address)
    \<and> rw_connect w = None)"
  shows "fails_to_start (start_udp w cache)"
proof (cases "fst (get_config (rw_surroundings w) cache)")
  case config: (Inr config)
  show ?thesis
  proof (cases "start_metrics_server (rw_interp w) (rw_listen w) (su_env (rw_surroundings w)) None")
    case (Inr address)
    with assms config obtain k e where "rw_connect w = Some (k, e)" by auto
    with config Inr show ?thesis
      by (simp add: fails_to_start_def start_udp_def publisher_init_def quiet_connect split: option.split)
  qed (use config in \<open>simp add: fails_to_start_def start_udp_def\<close>)
qed (simp add: fails_to_start_def start_udp_def)

section \<open>Properties\<close>


text \<open>A schema that cannot be read leaves the broker connection open.\<close>

theorem unreadable_schema_leaves_connection:
  assumes "fst (get_config (rw_surroundings w) cache) = Inr config"
    and "start_metrics_server (rw_interp w) (rw_listen w) (su_env (rw_surroundings w)) None = Inr address"
    and "rw_connect w = None" and "rw_open w (vc_schema_path (ac_validation config)) = Inl e"
  shows "snd (start_udp w cache) = Fails e
    \<and> Broker (Connect (rc_url (ac_rabbitmq config))) \<in> set (fst (start_udp w cache))
    \<and> \<not> list_ex closes (fst (start_udp w cache))"
proof -
  have "start_udp w cache = (start_actions w config address, Fails e)"
    using assms(4) by (simp add: start_udp_connected [OF assms(1-3)] validator_of_def validator_init_def)
  then show ?thesis
    using start_actions_quiet [of w config address]
    by (auto simp: start_actions_def publisher_connect_def quiet_actions_def list_ex_iff list_all_iff)
qed

end
