(* ===== verification/Generator.thy ===== *)
theory Generator
  imports Udp_Client Receiver
begin

text \<open>
  The life of the UDP client (\<open>core/udp/client.py\<close>) and the command \<open>main\<close> of the stream generator around
  it (\<open>stream_generator/main.py\<close>): the client is used in a \<open>with\<close> statement, so its socket is closed
  however the sending ends.
\<close>

section \<open>The client as a context manager\<close>

record udp_client =
  uk_ip :: pystr
  uk_port :: int
  uk_open :: bool

datatype client_action = Created pystr int | Did client_event | Closed

definition client_init :: "pystr \<Rightarrow> int \<Rightarrow> udp_client" where
  "client_init ip port = \<lparr>uk_ip = ip, uk_port = port, uk_open = True\<rparr>"

definition client_close :: "udp_client \<Rightarrow> udp_client" where
  "client_close c = c\<lparr>uk_open := False\<rparr>"

definition client_enter :: "udp_client \<Rightarrow> udp_client" where
  "client_enter c = c"

text \<open>\<open>__exit__\<close> returns nothing: an exception of the block goes on.\<close>

definition client_exit :: "'a res \<Rightarrow> udp_client \<Rightarrow> 'a res \<times> udp_client" where
  "client_exit r c = (r, client_close c)"

text \<open>The socket of the object: a closed one raises at its first \<open>sendto\<close>.\<close>

definition client_socket :: "(nat \<Rightarrow> py_exc option) \<Rightarrow> udp_client \<Rightarrow> nat \<Rightarrow> py_exc option" where
  "client_socket sock c n = (if uk_open c then sock n else Some OSError)"

definition with_client ::
  "pystr \<Rightarrow> int \<Rightarrow> (udp_client \<Rightarrow> client_event list \<times> unit res) \<Rightarrow> client_action list \<times> unit res \<times> udp_client"
where
  "with_client ip port body =
     (let c = client_enter (client_init ip port);
          (evs, r) = body c;
          (r', c') = client_exit r c
      in (Created ip port # map Did evs @ (if uk_open c' then [] else [Closed]), r', c'))"

section \<open>The command\<close>

record 'ctx generator_world =
  gw_surroundings :: surroundings
  gw_open :: "pypath \<Rightarrow> bytes res"
  gw_jsonschema :: "json \<Rightarrow> schema"
  gw_source :: "pystr list res"
  gw_socket :: "nat \<Rightarrow> py_exc option"
  gw_interp :: interp
  gw_otel :: "'ctx otel"
  gw_context :: "'ctx option"
  gw_span :: nat

text \<open>\<open>main\<close>; the source is the list of the lines of the file.\<close>

definition generator_main ::
  "'ctx generator_world \<Rightarrow> app_config option \<Rightarrow> pystr \<Rightarrow> int \<Rightarrow> int \<Rightarrow> int \<Rightarrow> client_action list \<times> unit res"
where
  "generator_main w cache ip port batch_size time_between_batches =
     (case bind_res (fst (get_config (gw_surroundings w) cache)) (\<lambda>config.
        bind_res (validator_init (gw_open w) (gw_jsonschema w) (vc_schema_path (ac_validation config))
          (vc_origin (ac_validation config))) (\<lambda>(schema, origin).
        bind_res (gw_source w) (\<lambda>lines.
        get_validated_objects_from_file (gw_interp w) schema origin lines))) of
        Inl e \<Rightarrow> ([], Inl e)
      | Inr (objects, errors) \<Rightarrow>
          (let raw_objects = map vo_data objects;
               (acts, r, c) = with_client ip port (\<lambda>udp_client.
                 case inject_trace_context (gw_otel w) (gw_context w) (gw_span w) raw_objects of
                   Inl e \<Rightarrow> ([], Inl e)
                 | Inr traced_objects \<Rightarrow>
                     client_send (client_socket (gw_socket w) udp_client) traced_objects batch_size
                       time_between_batches)
           in (acts, r)))"

section \<open>Facts\<close>

lemma with_client_closes:
  "with_client ip port body =
    (let (evs, r) = body (client_init ip port)
     in (Created ip port # map Did evs @ [Closed], r, client_close (client_init ip port)))"
  by (simp add: with_client_def client_enter_def client_exit_def client_close_def Let_def split: prod.split)

lemma open_socket [simp]: "client_socket sock (client_init ip port) = sock"
  by (simp add: client_socket_def client_init_def fun_eq_iff)

text \<open>
  The command does what the generator is modelled to do, between a socket that is created and closed,
  or it fails before it creates one.
\<close>

theorem generator_main_run:
  assumes "fst (get_config (gw_surroundings w) cache) = Inr config"
    and "validator_init (gw_open w) (gw_jsonschema w) (vc_schema_path (ac_validation config))
          (vc_origin (ac_validation config)) = Inr (schema, origin)"
    and "gw_source w = Inr lines"
    and "get_validated_objects_from_file (gw_interp w) schema origin lines = Inr (objects, errors)"
    and "generate \<lparr>ge_interp = gw_interp w, ge_schema = schema, ge_origin = origin, ge_otel = gw_otel w,
        ge_context = gw_context w, ge_span = gw_span w, ge_socket = gw_socket w\<rparr> lines bsize t = (evs, r)"
  shows "generator_main w cache ip port bsize t = (Created ip port # map Did evs @ [Closed], r)"
  using assms
  by (auto simp: generator_main_def generate_def with_client_closes Let_def
      split: sum.splits prod.splits)

end
