(* ===== verification/Config_Properties.thy ===== *)
theory Config_Properties
  imports Config Py_Number_Facts
begin

text \<open>
  Properties of the configuration: where each setting of the backend comes from, and the stability
  of the cached configuration.
\<close>

section \<open>Where settings come from\<close>

text \<open>The value of a checked string setting: the file, else the default.\<close>

definition file_setting :: "json dict \<Rightarrow> string list \<Rightarrow> string \<Rightarrow> pystr" where
  "file_setting raw path dflt =
     (case walk (JObj raw) (map lit path) of Some (JStr s) \<Rightarrow> s | _ \<Rightarrow> lit dflt)"

lemma get_str_Inr:
  "get_str (JObj raw) path dflt = Inr s \<Longrightarrow> s = file_setting raw path dflt"
  by (auto simp: get_str_def get_or_use_default_def file_setting_def
      split: option.splits if_splits json.splits)

lemma get_int_Inr:
  "get_int (JObj raw) path dflt = Inr p \<Longrightarrow>
     (case walk (JObj raw) (map lit path) of
        None \<Rightarrow> p = IntVal dflt
      | Some v \<Rightarrow> v = json_of_pyint p)"
  by (auto simp: get_int_def get_or_use_default_def split: option.splits if_splits json.splits)

lemma load_raw_config_Inr: "load_raw_config files p = Inr raw \<Longrightarrow> files p = Inr (JObj raw)"
  by (cases "files p") (auto simp: load_raw_config_def split: json.splits)

lemma build_config_Inr:
  assumes "build_config proot env raw = Inr c"
  shows "api_host (cb_api (ac_backend c)) = file_setting raw [''backend'', ''api'', ''host''] ''127.0.0.1''"
    and "(case walk (JObj raw) (map lit [''backend'', ''api'', ''port'']) of
        None \<Rightarrow> api_port (cb_api (ac_backend c)) = IntVal 8000
      | Some v \<Rightarrow> v = json_of_pyint (api_port (cb_api (ac_backend c))))"
    and "dc_dsn (ac_database c) = file_setting raw [''database'', ''dsn''] default_dsn"
    and "rc_url (ac_rabbitmq c) =
      getenv env ''RABBITMQ_URL'' (file_setting raw [''rabbitmq'', ''url''] default_rabbitmq_url)"
    and "rc_queue (ac_rabbitmq c) = file_setting raw [''rabbitmq'', ''queue''] ''rtls.events''"
proof -
  have api: "build_backend_config raw = Inr (ac_backend c)" and dsn: "build_database_config raw = Inr (ac_database c)"
    and mq: "build_rabbitmq_config env raw = Inr (ac_rabbitmq c)"
    using assms by (auto simp: build_config_def res_simps)
  from api obtain host port where api: "get_str (JObj raw) [''backend'', ''api'', ''host''] ''127.0.0.1'' = Inr host"
    "get_int (JObj raw) [''backend'', ''api'', ''port''] 8000 = Inr port"
    "cb_api (ac_backend c) = \<lparr>api_host = host, api_port = port\<rparr>"
    by (auto simp: build_backend_config_def res_simps dest!: sym [where t = "ac_backend c"])
  show "api_host (cb_api (ac_backend c)) = file_setting raw [''backend'', ''api'', ''host''] ''127.0.0.1''"
    using get_str_Inr [OF api(1)] api(3) by simp
  show "(case walk (JObj raw) (map lit [''backend'', ''api'', ''port'']) of
        None \<Rightarrow> api_port (cb_api (ac_backend c)) = IntVal 8000
      | Some v \<Rightarrow> v = json_of_pyint (api_port (cb_api (ac_backend c))))"
    using get_int_Inr [OF api(2)] api(3) by (simp only: api_config.simps)
  show "dc_dsn (ac_database c) = file_setting raw [''database'', ''dsn''] default_dsn"
    using dsn by (auto simp: build_database_config_def res_simps dest!: get_str_Inr sym [where t = "ac_database c"])
  show "rc_url (ac_rabbitmq c) =
      getenv env ''RABBITMQ_URL'' (file_setting raw [''rabbitmq'', ''url''] default_rabbitmq_url)"
    and "rc_queue (ac_rabbitmq c) = file_setting raw [''rabbitmq'', ''queue''] ''rtls.events''"
    using mq by (auto simp: build_rabbitmq_config_def res_simps dest!: get_str_Inr sym [where t = "ac_rabbitmq c"])
qed

text \<open>
  Each setting of the backend comes from the environment, else from the file, else from the
  default, and the file that was read is a mapping. The port is the integer that \<open>API_PORT\<close> denotes,
  else the integer of the file, else 8000; a \<open>bool\<close> in the file never becomes a port.
\<close>

theorem backend_settings:
  assumes "load_backend_config su path None = (Inr b, cache)"
  shows "\<exists>raw.
    su_files su (case path of None \<Rightarrow> default_config_path (su_root su) | Some p \<Rightarrow> p) = Inr (JObj raw)
    \<and> bk_host b = getenv (su_env su) ''API_HOST''
        (file_setting raw [''backend'', ''api'', ''host''] ''127.0.0.1'')
    \<and> (case dict_get (su_env su) (lit ''API_PORT'') of
         Some text \<Rightarrow> py_int text = Inr (bk_port b)
       | None \<Rightarrow>
           (case walk (JObj raw) (map lit [''backend'', ''api'', ''port'']) of
              Some v \<Rightarrow> v = JInt (bk_port b) | None \<Rightarrow> bk_port b = 8000))
    \<and> bk_dsn b = getenv (su_env su) ''DATABASE_DSN'' (file_setting raw [''database'', ''dsn''] default_dsn)
    \<and> rc_url (bk_rabbitmq b) = getenv (su_env su) ''RABBITMQ_URL''
        (file_setting raw [''rabbitmq'', ''url''] default_rabbitmq_url)
    \<and> rc_queue (bk_rabbitmq b) = file_setting raw [''rabbitmq'', ''queue''] ''rtls.events''"
proof -
  let ?path = "case path of None \<Rightarrow> default_config_path (su_root su) | Some p \<Rightarrow> p"
  obtain c cache' where load: "load_config su path (path \<noteq> None) None = (Inr c, cache')"
    using assms by (cases "load_config su path (path \<noteq> None) None")
      (auto simp: load_backend_config_def res_simps)
  then have "bind_res (load_raw_config (su_files su) ?path) (build_config (su_root su) (su_env su)) = Inr c"
    by (cases "bind_res (load_raw_config (su_files su) ?path) (build_config (su_root su) (su_env su))")
      (auto simp: load_config_def Let_def split: bool.splits)
  then obtain raw where raw: "su_files su ?path = Inr (JObj raw)"
    and c: "build_config (su_root su) (su_env su) raw = Inr c"
    using load_raw_config_Inr by (auto simp: res_simps)
  obtain port where port: "port_text (api_port (cb_api (ac_backend c))) = Inr port"
    "py_int (getenv (su_env su) ''API_PORT'' port) = Inr (bk_port b)"
    and b: "bk_host b = getenv (su_env su) ''API_HOST'' (api_host (cb_api (ac_backend c)))"
      "bk_dsn b = getenv (su_env su) ''DATABASE_DSN'' (dc_dsn (ac_database c))"
      "bk_rabbitmq b = (ac_rabbitmq c)\<lparr>rc_url := getenv (su_env su) ''RABBITMQ_URL'' (rc_url (ac_rabbitmq c))\<rparr>"
    using assms load by (auto simp: load_backend_config_def res_simps)
  have not_bool: "api_port (cb_api (ac_backend c)) = IntVal (bk_port b)"
    if "dict_get (su_env su) (lit ''API_PORT'') = None"
  proof (cases "api_port (cb_api (ac_backend c))")
    case (IntVal i)
    with port that py_int_str show ?thesis by (fastforce simp: getenv_def)
  next
    case (BoolVal t)
    have "py_int (lit ''True'') = Inl ValueError" "py_int (lit ''False'') = Inl ValueError" by code_simp+
    with port that BoolVal show ?thesis by (auto simp: getenv_def split: if_splits)
  qed
  have "case dict_get (su_env su) (lit ''API_PORT'') of
       Some text \<Rightarrow> py_int text = Inr (bk_port b)
     | None \<Rightarrow>
         (case walk (JObj raw) (map lit [''backend'', ''api'', ''port'']) of
            Some v \<Rightarrow> v = JInt (bk_port b) | None \<Rightarrow> bk_port b = 8000)"
    using port(2) not_bool build_config_Inr(2) [OF c]
    by (cases "dict_get (su_env su) (lit ''API_PORT'')") (auto simp: getenv_def split: option.splits)
  then show ?thesis
    using raw b build_config_Inr(1,3-5) [OF c]
    by (intro exI [of _ raw]) (simp add: getenv_def split: option.splits)
qed

definition sample_settings :: "json dict" where
  "sample_settings =
     [(lit ''validation'', JObj [(lit ''schema_path'', JStr (lit ''config/schema.json''))]),
      (lit ''logging'', JObj [(lit ''level'', JStr (lit ''INFO'')), (lit ''format'', JStr (lit ''f''))]),
      (lit ''udp_server'', JObj [(lit ''ip'', JStr (lit ''0.0.0.0'')), (lit ''port'', JInt 9999)]),
      (lit ''backend'', JObj [(lit ''api'', JObj [(lit ''port'', JInt 8080)])])]"

definition sample_surroundings :: surroundings where
  "sample_surroundings =
     \<lparr>su_files = (\<lambda>p. if p = PyPath (lit ''/'') [lit ''app'', lit ''config'', lit ''settings.yaml'']
                     then Inr (JObj sample_settings) else Inl FileNotFoundError),
      su_env = [(lit ''DATABASE_DSN'', lit ''db'')], su_root = py_path (lit ''/app'')\<rparr>"

lemma sample_backend_config:
  "fst (load_backend_config sample_surroundings None None) =
     Inr \<lparr>bk_host = lit ''127.0.0.1'', bk_port = 8080, bk_dsn = lit ''db'',
          bk_rabbitmq = \<lparr>rc_url = lit default_rabbitmq_url, rc_exchange = lit ''rtls'',
            rc_exchange_type = lit ''topic'', rc_queue = lit ''rtls.events'',
            rc_routing_key = lit ''rtls.events''\<rparr>\<rparr>"
  by code_simp

lemma backend_settings_witness:
  "\<exists>raw. su_files sample_surroundings (default_config_path (su_root sample_surroundings)) = Inr (JObj raw)
    \<and> walk (JObj raw) (map lit [''backend'', ''api'', ''port'']) = Some (JInt 8080)"
proof -
  obtain b cache where b: "load_backend_config sample_surroundings None None = (Inr b, cache)" "bk_port b = 8080"
    using sample_backend_config by (cases "load_backend_config sample_surroundings None None") auto
  have files: "su_files sample_surroundings (default_config_path (su_root sample_surroundings))
      = Inr (JObj sample_settings)" by code_simp
  have "dict_get (su_env sample_surroundings) (lit ''API_PORT'') = None"
    by (simp add: sample_surroundings_def)
  with backend_settings [OF b(1)] files b(2) show ?thesis
    by (auto simp: sample_settings_def)
qed

section \<open>The cache\<close>

datatype config_op = Load "pypath option" | Reload "pypath option" | Get | Clear

fun config_step :: "surroundings \<times> config_op \<Rightarrow> app_config option \<Rightarrow> app_config res option \<times> app_config option" where
  "config_step (su, Load p) cache = (let (r, c) = load_config su p False cache in (Some r, c))"
| "config_step (su, Reload p) cache = (let (r, c) = load_config su p True cache in (Some r, c))"
| "config_step (su, Get) cache = (let (r, c) = get_config su cache in (Some r, c))"
| "config_step (su, Clear) cache = (None, clear_config_cache cache)"

fun config_run :: "(surroundings \<times> config_op) list \<Rightarrow> app_config option \<Rightarrow> app_config res option list \<times> app_config option" where
  "config_run [] cache = ([], cache)"
| "config_run (op # ops) cache =
     (let (r, c) = config_step op cache; (rs, c') = config_run ops c in (r # rs, c'))"

lemma load_config_cache:
  "load_config su p force cache = (r, cache') \<Longrightarrow>
     cache' = (case r of Inl e \<Rightarrow> cache | Inr c \<Rightarrow> Some c)"
  by (auto simp: load_config_def Let_def split: option.splits bool.splits sum.splits)

text \<open>
  C31. The configuration is stable: once it has been loaded, every later \<open>load_config\<close> and
  \<open>get_config\<close> returns the same object, whatever has become of the files and the environment, and a
  forced reload that fails leaves it in place. Only a reload that succeeds or a cleared cache changes
  it.
\<close>

theorem config_stable:
  assumes "config_run ops (Some c) = (results, cache)"
    and "\<forall>(su, op) \<in> set ops. op \<noteq> Clear
      \<and> (\<forall>p. op = Reload p \<longrightarrow> (\<exists>e. fst (load_config su p True None) = Inl e))"
  shows "cache = Some c
    \<and> (\<forall>i < length ops. (\<forall>p. snd (ops ! i) \<noteq> Reload p) \<longrightarrow> results ! i = Some (Inr c))"
  using assms
proof (induction ops arbitrary: results)
  case (Cons x ops)
  obtain su op where x: "x = (su, op)" by (cases x)
  obtain r c1 where step: "config_step (su, op) (Some c) = (r, c1)" by (cases "config_step (su, op) (Some c)")
  obtain rs where run: "config_run ops c1 = (rs, cache)" and res: "results = r # rs"
    using Cons.prems(1) x step by (auto split: prod.splits)
  have "c1 = Some c \<and> ((\<forall>p. op \<noteq> Reload p) \<longrightarrow> r = Some (Inr c))"
  proof (cases op)
    case (Reload p)
    then obtain e where "fst (load_config su p True None) = Inl e" using Cons.prems(2) x by auto
    then have "fst (load_config su p True (Some c)) = Inl e"
      by (auto simp: load_config_def Let_def split: sum.splits)
    then have "snd (load_config su p True (Some c)) = Some c"
      using load_config_cache [of su p True "Some c"] by (cases "load_config su p True (Some c)") auto
    then show ?thesis using step Reload by (auto split: prod.splits)
  qed (use step Cons.prems(2) x in \<open>auto simp: load_config_def get_config_def\<close>)
  moreover from this Cons.IH [of rs] run Cons.prems(2)
  have "cache = Some c
      \<and> (\<forall>i < length ops. (\<forall>p. snd (ops ! i) \<noteq> Reload p) \<longrightarrow> rs ! i = Some (Inr c))" by simp
  ultimately show ?case using res x by (auto simp: nth_Cons split: nat.splits)
qed simp

lemma config_stable_witness:
  "\<exists>c. fst (load_config sample_surroundings None False None) = Inr c
    \<and> snd (config_run [(sample_surroundings\<lparr>su_files := \<lambda>p. Inl FileNotFoundError\<rparr>, Reload None),
        (sample_surroundings\<lparr>su_env := []\<rparr>, Get)] (Some c)) = Some c"
proof -
  have "case fst (load_config sample_surroundings None False None) of Inl e \<Rightarrow> False | Inr c \<Rightarrow> True"
    by code_simp
  then obtain c where c: "fst (load_config sample_surroundings None False None) = Inr c"
    by (auto split: sum.splits)
  let ?ops = "[(sample_surroundings\<lparr>su_files := \<lambda>p. Inl FileNotFoundError\<rparr>, Reload None),
        (sample_surroundings\<lparr>su_env := []\<rparr>, Get)]"
  have "\<forall>(su, op) \<in> set ?ops. op \<noteq> Clear
      \<and> (\<forall>p. op = Reload p \<longrightarrow> (\<exists>e. fst (load_config su p True None) = Inl e))"
    by (simp add: load_config_def load_raw_config_def)
  from config_stable [OF prod.collapse [symmetric] this, of c] c show ?thesis by blast
qed

end
