(* ===== verification/Observability.thy ===== *)
theory Observability
  imports Lifecycle
begin

text \<open>
  What the processes report about themselves: the set-up of the root logger
  (\<open>core/logging_config.py\<close>), the lines that come out of a log record, and \<open>init\<close> of the stream
  generator. The identifiers of the current span come from OpenTelemetry; the JSON formatter is that
  of python-json-logger. Both are arguments.
\<close>

section \<open>Identifiers\<close>

text \<open>\<open>format(n, "032x")\<close> and \<open>format(n, "016x")\<close>: a minus sign counts for the width.\<close>

function hex_digits :: "int \<Rightarrow> pystr" where
  "hex_digits n = (if n < 16 then [hex_digit n] else hex_digits (n div 16) @ [hex_digit (n mod 16)])"
  by auto
termination by (relation "measure nat") auto

declare hex_digits.simps [simp del]

definition format_hex :: "nat \<Rightarrow> int \<Rightarrow> pystr" where
  "format_hex width n =
     (let s = hex_digits \<bar>n\<bar>
      in if n < 0 then 45 # replicate (width - 1 - length s) 48 @ s
         else replicate (width - length s) 48 @ s)"

record span_context =
  sc_trace_id :: int
  sc_span_id :: int

record log_record =
  lr_level :: int
  lr_name :: pystr
  lr_message :: pystr
  lr_asctime :: pystr
  lr_trace_id :: "pystr option"
  lr_span_id :: "pystr option"

text \<open>\<open>_TraceInjectFilter.filter\<close>; a span context of \<open>None\<close> counts as no span.\<close>

definition trace_inject_filter :: "span_context option \<Rightarrow> log_record \<Rightarrow> log_record" where
  "trace_inject_filter ctx r =
     (case ctx of
        Some c \<Rightarrow>
          if sc_trace_id c \<noteq> 0
          then r\<lparr>lr_trace_id := Some (format_hex 32 (sc_trace_id c)),
                 lr_span_id := Some (format_hex 16 (sc_span_id c))\<rparr>
          else r\<lparr>lr_trace_id := Some (replicate 32 48), lr_span_id := Some (replicate 16 48)\<rparr>
      | None \<Rightarrow> r\<lparr>lr_trace_id := Some (replicate 32 48), lr_span_id := Some (replicate 16 48)\<rparr>)"

section \<open>The root logger\<close>

datatype log_formatter = TextFormatter | JsonFormatter

record log_handler =
  lh_level :: int
  lh_formatter :: log_formatter
  lh_trace_filter :: bool

record root_logger =
  rl_level :: int
  rl_handlers :: "log_handler list"

text \<open>The root logger of a fresh interpreter.\<close>

definition fresh_root :: root_logger where
  "fresh_root = \<lparr>rl_level = 30, rl_handlers = []\<rparr>"

definition wants_json :: "interp \<Rightarrow> pystr dict \<Rightarrow> bool option \<Rightarrow> bool" where
  "wants_json it env json_format =
     (case json_format of
        Some b \<Rightarrow> b
      | None \<Rightarrow> py_lower it (getenv env ''LOG_FORMAT'' []) = lit ''json'')"

definition setup_logging ::
  "interp \<Rightarrow> pystr dict \<Rightarrow> int \<Rightarrow> bool option \<Rightarrow> root_logger \<Rightarrow> root_logger" where
  "setup_logging it env level json_format logger =
     (let logger = logger\<lparr>rl_level := level\<rparr>
      in if rl_handlers logger \<noteq> [] then logger
         else logger\<lparr>rl_handlers :=
           [\<lparr>lh_level = level,
             lh_formatter = (if wants_json it env json_format then JsonFormatter else TextFormatter),
             lh_trace_filter = True\<rparr>]\<rparr>)"

section \<open>Lines\<close>

definition level_name :: "int \<Rightarrow> pystr" where
  "level_name n =
     (if n = 50 then lit ''CRITICAL'' else if n = 40 then lit ''ERROR'' else if n = 30 then lit ''WARNING''
      else if n = 20 then lit ''INFO'' else if n = 10 then lit ''DEBUG'' else if n = 0 then lit ''NOTSET''
      else lit ''Level '' @ int_repr n)"

text \<open>\<open>%-8s\<close>.\<close>

definition pad_right :: "nat \<Rightarrow> pystr \<Rightarrow> pystr" where
  "pad_right width s = s @ replicate (width - length s) 32"

definition text_line :: "log_record \<Rightarrow> pystr" where
  "text_line r =
     join_with (lit '' | '') [lr_asctime r, pad_right 8 (level_name (lr_level r)), lr_name r, lr_message r]"

definition format_line :: "(log_record \<Rightarrow> pystr) \<Rightarrow> log_formatter \<Rightarrow> log_record \<Rightarrow> pystr" where
  "format_line json_line f r = (case f of TextFormatter \<Rightarrow> text_line r | JsonFormatter \<Rightarrow> json_line r)"

text \<open>
  A record of a logger without a level of its own: the level of the root decides whether it is made;
  then every handler whose level it reaches writes a line. Without handlers the last resort of the
  library writes the message of a warning or worse.
\<close>

definition log_lines ::
  "(log_record \<Rightarrow> pystr) \<Rightarrow> span_context option \<Rightarrow> root_logger \<Rightarrow> log_record \<Rightarrow> pystr list" where
  "log_lines json_line ctx logger r =
     (if lr_level r < rl_level logger then []
      else if rl_handlers logger = [] then (if lr_level r < 30 then [] else [lr_message r])
      else map (\<lambda>h. format_line json_line (lh_formatter h)
                      (if lh_trace_filter h then trace_inject_filter ctx r else r))
             (filter (\<lambda>h. lh_level h \<le> lr_level r) (rl_handlers logger)))"

section \<open>The stream generator\<close>

text \<open>\<open>init\<close> of the stream generator: a configuration that cannot be loaded leaves tracing unset.\<close>

definition generator_init ::
  "interp \<Rightarrow> surroundings \<Rightarrow> app_config option \<Rightarrow> root_logger \<Rightarrow>
   root_logger \<times> app_config option \<times> tracing_call list res" where
  "generator_init it su cache logger =
     (let logger = setup_logging it (su_env su) 20 None logger;
          (loaded, cache) = load_config su None False cache
      in (logger, cache, bind_res loaded (\<lambda>_.
            Inr (snd (init_tracing (lit ''stream-generator'') (get_otlp_endpoint (su_env su)))))))"

section \<open>Hexadecimal text\<close>

lemma length_hex_pad [simp]: "length (hex_pad n c) = n"
  by (induction n arbitrary: c) simp_all

lemma hex_pad_zero: "hex_pad n 0 = replicate n 48"
  by (induction n) (simp_all add: hex_digit_def replicate_append_same)

lemma hex_pad_digits:
  "0 < n \<Longrightarrow> n < 16 ^ k \<Longrightarrow> length (hex_digits n) \<le> k
     \<and> hex_pad k n = replicate (k - length (hex_digits n)) 48 @ hex_digits n"
proof (induction n arbitrary: k rule: hex_digits.induct)
  case (1 n)
  from 1(3) 1(2) obtain j where k: "k = Suc j" by (cases k) auto
  show ?case
  proof (cases "n < 16")
    case True
    then show ?thesis using 1(2) by (simp add: k hex_digits.simps [of n] hex_pad_zero)
  next
    case False
    have "0 < n div 16" "n div 16 < 16 ^ j" using False 1(3) by (auto simp: k)
    from 1(1) [OF False this] show ?thesis using False by (simp add: k hex_digits.simps [of n])
  qed
qed

lemma format_hex_pad: "0 < n \<Longrightarrow> n < 16 ^ k \<Longrightarrow> format_hex k n = hex_pad k n"
  using hex_pad_digits [of n k] by (simp add: format_hex_def Let_def)

lemma hex_digit_facts:
  assumes "0 \<le> d" "d < 16"
  shows "is_hex (hex_digit d)" "hex_value (hex_digit d) = d" "hex_digit d < 127" "48 \<le> hex_digit d"
    "hex_digit d \<noteq> 95" "hex_digit d \<noteq> 120"
proof -
  have "d \<in> {0..<16}" using assms by simp
  then have d: "d \<in> set [0..15]" by auto
  have "list_all (\<lambda>d. is_hex (hex_digit d) \<and> hex_value (hex_digit d) = d \<and> hex_digit d < 127
      \<and> 48 \<le> hex_digit d \<and> hex_digit d \<noteq> 95 \<and> hex_digit d \<noteq> 120) [0..15]" by code_simp
  with d show "is_hex (hex_digit d)" "hex_value (hex_digit d) = d" "hex_digit d < 127" "48 \<le> hex_digit d"
    "hex_digit d \<noteq> 95" "hex_digit d \<noteq> 120" unfolding list_all_iff by blast+
qed

definition hex_text :: "pystr \<Rightarrow> bool" where
  "hex_text s \<longleftrightarrow> list_all (\<lambda>c. is_hex c \<and> 48 \<le> c \<and> c < 127 \<and> c \<noteq> 95 \<and> c \<noteq> 120) s"

lemma hex_text_pad: "0 \<le> n \<Longrightarrow> hex_text (hex_pad k n)"
  by (induction k arbitrary: n) (simp_all add: hex_text_def hex_digit_facts)

lemma hex_pad_value: "0 \<le> n \<Longrightarrow> n < 16 ^ k \<Longrightarrow> digits_value 16 (map hex_value (hex_pad k n)) = n"
proof (induction k arbitrary: n)
  case (Suc k)
  then have "digits_value 16 (map hex_value (hex_pad k (n div 16))) = n div 16" by simp
  then show ?case using Suc.prems by (simp add: digits_value_def hex_digit_facts)
qed (simp add: digits_value_def)

lemma hex_group: "s \<noteq> [] \<Longrightarrow> hex_text s \<Longrightarrow> group_digits is_hex s = Some s"
  by (induction "is_hex" s rule: group_digits.induct) (auto simp: hex_text_def)

lemma hex_text_read:
  assumes "s \<noteq> []" and h: "hex_text s"
  shows "py_int16 s = Inr (digits_value 16 (map hex_value s))"
proof -
  have ascii: "map to_ascii s = s" using h by (induction s) (auto simp: hex_text_def)
  have chars: "48 \<le> c \<and> c < 127" if "c \<in> set s" for c
    using h that by (auto simp: hex_text_def list_all_iff)
  have "48 \<le> hd s \<and> hd s < 127" "48 \<le> last s \<and> last s < 127" using assms(1) by (simp_all add: chars)
  then have ends: "\<not> c_space (hd s)" "\<not> c_space (last s)" "hd s \<noteq> 43" "hd s \<noteq> 45"
    by (simp_all add: c_space_def)
  then have "c_strip s = s" by (simp add: c_strip_id)
  moreover have "split_sign s = (False, s)" using ends assms(1) by (cases s) (auto simp: split_sign_def)
  moreover have "hex_body s = s"
  proof (cases s rule: remdups_adj.cases)
    case (3 c d r)
    then have "d \<noteq> 120" "d < 127" "48 \<le> d" "is_hex d" using h by (auto simp: hex_text_def)
    then have "ascii_lower d \<noteq> 120" by (auto simp: is_hex_def is_digit_def ascii_lower_def split: if_splits)
    with 3 show ?thesis by (simp add: hex_body_def)
  qed (simp_all add: hex_body_def)
  moreover have "group_digits is_hex s = Some s" by (rule hex_group [OF assms])
  ultimately show ?thesis by (simp add: py_int16_def ascii signed_def)
qed

end
