(* ===== verification/Backend_App.thy ===== *)
theory Backend_App
  imports Observability Repository
begin

text \<open>
  The HTTP side of the API process: the application that \<open>create_app\<close> of \<open>backend/app.py\<close> builds and
  \<open>backend/main.py\<close> serves, the dispatch of a request to \<open>backend/api\<close> inside the counting
  middleware, the response types of \<open>backend/api/schemas.py\<close>, and the texts of the queries that
  \<open>backend/repository\<close> puts together from its SQL files. Parsing of query strings and the answers to
  unknown paths are the web framework's; a request carries its parsed parameters here.
\<close>

section \<open>SQL files and query texts\<close>

text \<open>
  \<open>load_sql\<close> with its cache: \<open>None\<close> for a file that does not exist. A call that raises caches nothing.
\<close>

definition load_sql :: "(pystr \<Rightarrow> pystr option) \<Rightarrow> pystr \<Rightarrow> pystr dict \<Rightarrow> pystr res \<times> pystr dict" where
  "load_sql files name cache =
     (case dict_get cache name of
        Some text \<Rightarrow> (Inr text, cache)
      | None \<Rightarrow>
          (case files (name @ lit ''.sql'') of
             None \<Rightarrow> (Inl FileNotFoundError, cache)
           | Some content \<Rightarrow> (Inr (strip content), dict_set name (strip content) cache)))"

definition file_text :: "string list \<Rightarrow> pystr" where
  "file_text lines = concat (map (\<lambda>l. lit l @ [10]) lines)"

definition select_position_history_sql :: pystr where
  "select_position_history_sql = file_text
     [''SELECT tag_id, ts_utc_ms, source_type, status, layer, area,'',
      ''       x, y, z, lng, lat, origin'',
      ''FROM position_events'',
      ''WHERE tag_id = %(tag_id)s'',
      ''ORDER BY ts_utc_ms DESC'',
      ''LIMIT %(limit)s OFFSET %(offset)s'']"

definition count_position_history_sql :: pystr where
  "count_position_history_sql = file_text
     [''SELECT COUNT(*)'', ''FROM position_events'', ''WHERE tag_id = %(tag_id)s'']"

text \<open>\<open>s.replace(old, new)\<close> for an \<open>old\<close> that is not empty.\<close>

function replace_text :: "pystr \<Rightarrow> pystr \<Rightarrow> pystr \<Rightarrow> pystr" where
  "replace_text old new s =
     (if s = [] \<or> old = [] then s
      else if startswith old s then new @ replace_text old new (drop (length old) s)
      else hd s # replace_text old new (tl s))"
  by pat_completeness auto
termination
  by (relation "measure (\<lambda>(old, new, s). length s)") auto

declare replace_text.simps [simp del]

fun clause_text :: "time_clause \<Rightarrow> pystr" where
  "clause_text (TsFrom f) = lit '' AND ts_utc_ms >= %(from_ts)s''"
| "clause_text (TsTo t) = lit '' AND ts_utc_ms <= %(to_ts)s''"

definition history_query :: "pystr \<Rightarrow> time_clause list \<Rightarrow> pystr" where
  "history_query base clauses =
     replace_text (lit ''ORDER BY'') (concat (map clause_text clauses) @ [10] @ lit ''ORDER BY'') base"

definition count_query :: "pystr \<Rightarrow> time_clause list \<Rightarrow> pystr" where
  "count_query base clauses = base @ concat (map clause_text clauses)"

section \<open>Response types\<close>

record position_out =
  po_tag_id :: pystr
  po_ts_utc_ms :: int
  po_source_type :: pystr
  po_origin :: pystr
  po_status :: "pystr option"
  po_layer :: "int option"
  po_area :: "pystr option"
  po_x :: "pyfloat option"
  po_y :: "pyfloat option"
  po_z :: "pyfloat option"
  po_lng :: "pyfloat option"
  po_lat :: "pyfloat option"

text \<open>
  Fields of a row by keyword: a required field must be there, an optional one may be missing or
  \<open>None\<close>. Only values of the declared types are taken, which is all that the columns hold.
\<close>

definition need :: "(json \<Rightarrow> 'a option) \<Rightarrow> json dict \<Rightarrow> string \<Rightarrow> 'a res" where
  "need conv row name =
     (case dict_get row (lit name) of
        None \<Rightarrow> Inl ValueError
      | Some v \<Rightarrow> (case conv v of None \<Rightarrow> Inl ValueError | Some a \<Rightarrow> Inr a))"

definition may :: "(json \<Rightarrow> 'a option) \<Rightarrow> json dict \<Rightarrow> string \<Rightarrow> 'a option res" where
  "may conv row name =
     (case dict_get row (lit name) of
        None \<Rightarrow> Inr None
      | Some v \<Rightarrow> if v = JNull then Inr None
          else (case conv v of None \<Rightarrow> Inl ValueError | Some a \<Rightarrow> Inr (Some a)))"

fun as_str :: "json \<Rightarrow> pystr option" where
  "as_str (JStr s) = Some s"
| "as_str _ = None"

fun as_int :: "json \<Rightarrow> int option" where
  "as_int (JInt i) = Some i"
| "as_int _ = None"

fun as_float :: "json \<Rightarrow> pyfloat option" where
  "as_float (JFloat f) = Some f"
| "as_float _ = None"

definition make_position_out :: "json dict \<Rightarrow> position_out res" where
  "make_position_out row =
     bind_res (need as_str row ''tag_id'') (\<lambda>tag_id.
     bind_res (need as_int row ''ts_utc_ms'') (\<lambda>ts_utc_ms.
     bind_res (need as_str row ''source_type'') (\<lambda>source_type.
     bind_res (need as_str row ''origin'') (\<lambda>origin.
     bind_res (may as_str row ''status'') (\<lambda>status.
     bind_res (may as_int row ''layer'') (\<lambda>layer.
     bind_res (may as_str row ''area'') (\<lambda>area.
     bind_res (may as_float row ''x'') (\<lambda>x.
     bind_res (may as_float row ''y'') (\<lambda>y.
     bind_res (may as_float row ''z'') (\<lambda>z.
     bind_res (may as_float row ''lng'') (\<lambda>lng.
     bind_res (may as_float row ''lat'') (\<lambda>lat. Inr
       \<lparr>po_tag_id = tag_id, po_ts_utc_ms = ts_utc_ms, po_source_type = source_type, po_origin = origin,
        po_status = status, po_layer = layer, po_area = area, po_x = x, po_y = y, po_z = z,
        po_lng = lng, po_lat = lat\<rparr>))))))))))))"

record history_response =
  hr_items :: "position_out list"
  hr_total :: nat

section \<open>The application\<close>

datatype endpoint = HealthCheck | MetricsPage | PositionHistory

record cors_settings =
  cs_origins :: "pystr list"
  cs_credentials :: bool
  cs_methods :: "pystr list"
  cs_headers :: "pystr list"

record app =
  ap_config :: backend_config
  ap_cors :: cors_settings
  ap_routes :: "(pystr \<times> endpoint) list"
  ap_websockets :: "pystr list"

definition api_prefix :: pystr where
  "api_prefix = lit ''/api/v1''"

definition create_app ::
  "surroundings \<Rightarrow> backend_config option \<Rightarrow> app_config option \<Rightarrow> app res \<times> app_config option" where
  "create_app su config cache =
     (let (resolved, cache) =
        (case config of Some c \<Rightarrow> (Inr c, cache) | None \<Rightarrow> load_backend_config su None cache)
      in (bind_res resolved (\<lambda>c. Inr
            \<lparr>ap_config = c,
             ap_cors = \<lparr>cs_origins = [lit ''http://localhost:5173''], cs_credentials = True,
                        cs_methods = [lit ''*''], cs_headers = [lit ''*'']\<rparr>,
             ap_routes = [(lit ''/health'', HealthCheck), (lit ''/metrics'', MetricsPage),
                          (api_prefix @ lit ''/positions/history'', PositionHistory)],
             ap_websockets = [api_prefix @ lit ''/ws/positions'']\<rparr>), cache))"

text \<open>
  \<open>backend/main.py\<close>: the import of the module builds the application, before the logger is set up;
  \<open>main\<close> then loads the configuration again for the address it serves at.
\<close>

definition backend_main ::
  "interp \<Rightarrow> surroundings \<Rightarrow> app_config option \<Rightarrow> root_logger \<Rightarrow>
   (app \<times> pystr \<times> int) res \<times> app_config option \<times> root_logger" where
  "backend_main it su cache logger =
     (let (built, cache) = create_app su None cache
      in (case built of
            Inl e \<Rightarrow> (Inl e, cache, logger)
          | Inr app \<Rightarrow>
              (let logger = setup_logging it (su_env su) 20 None logger;
                   (config, cache) = load_backend_config su None cache
               in (bind_res config (\<lambda>c. Inr (app, bk_host c, bk_port c)), cache, logger))))"

section \<open>Requests\<close>

record request =
  rq_method :: pystr
  rq_path :: pystr
  rq_tag_id :: "pystr option"
  rq_from_ts :: "int option"
  rq_to_ts :: "int option"
  rq_limit :: "int option"
  rq_offset :: "int option"

datatype reply =
    HealthReply json
  | MetricsReply
  | HistoryReply history_response
  | FrameworkReply

text \<open>
  What a request meets: the probe's row, the tables at the first and at the second statement, and
  what the pool raises.
\<close>

record request_world =
  rw_probe :: "json list option res"
  rw_db :: db
  rw_db_later :: db
  rw_pool_error :: "py_exc option"

text \<open>\<open>position_history\<close> with the defaults of its parameters; the framework refuses what is out of range.\<close>

definition answer_history :: "pg \<Rightarrow> request_world \<Rightarrow> request \<Rightarrow> (int \<times> reply) res" where
  "answer_history pg w rq =
     (case rq_tag_id rq of
        None \<Rightarrow> Inr (422, FrameworkReply)
      | Some tag_id \<Rightarrow>
          (case position_history pg (rw_db w) (rw_db_later w) tag_id (rq_from_ts rq) (rq_to_ts rq)
                  (case rq_limit rq of None \<Rightarrow> 100 | Some l \<Rightarrow> l)
                  (case rq_offset rq of None \<Rightarrow> 0 | Some k \<Rightarrow> k) of
             None \<Rightarrow> Inr (422, FrameworkReply)
           | Some (rows, found) \<Rightarrow>
               (case rw_pool_error w of
                  Some e \<Rightarrow> Inl e
                | None \<Rightarrow>
                    bind_res (map_res make_position_out rows) (\<lambda>items.
                      Inr (200, HistoryReply \<lparr>hr_items = items, hr_total = found\<rparr>)))))"

definition answer_request :: "app \<Rightarrow> pg \<Rightarrow> request_world \<Rightarrow> request \<Rightarrow> (int \<times> reply) res" where
  "answer_request app pg w rq =
     (case map_of (ap_routes app) (rq_path rq) of
        None \<Rightarrow> Inr (404, FrameworkReply)
      | Some e \<Rightarrow>
          if rq_method rq \<noteq> lit ''GET'' then Inr (405, FrameworkReply)
          else (case e of
                  HealthCheck \<Rightarrow> (let (status, body) = build_health_response (rw_probe w) in Inr (status, HealthReply body))
                | MetricsPage \<Rightarrow> Inr (200, MetricsReply)
                | PositionHistory \<Rightarrow> answer_history pg w rq))"

definition handle_request ::
  "app \<Rightarrow> pg \<Rightarrow> request_world \<times> request \<Rightarrow> http_metrics \<Rightarrow> (int \<times> reply) res \<times> http_metrics" where
  "handle_request app pg wr hm =
     (let response = answer_request app pg (fst wr) (snd wr)
      in (response,
          snd (prometheus_middleware (rq_method (snd wr)) (rq_path (snd wr))
                 (bind_res response (\<lambda>r. Inr (fst r))) hm)))"

fun handle_requests ::
  "app \<Rightarrow> pg \<Rightarrow> (request_world \<times> request) list \<Rightarrow> http_metrics \<Rightarrow> (int \<times> reply) res list \<times> http_metrics" where
  "handle_requests app pg [] hm = ([], hm)"
| "handle_requests app pg (wr # wrs) hm =
     (let (r, hm') = handle_request app pg wr hm; (rs, hm'') = handle_requests app pg wrs hm' in (r # rs, hm''))"

end
