(* ===== verification/Backend_App_Properties.thy ===== *)
theory Backend_App_Properties
  imports Backend_App Repository_Properties
begin

text \<open>
  Properties of the HTTP side of the API process: the texts of the queries, the types of the
  responses, and the counting of requests.
\<close>

section \<open>Query texts\<close>

lemma load_sql_cached:
  "load_sql files name cache = (Inr text, cache') \<Longrightarrow> load_sql files' name cache' = (Inr text, cache')"
  by (auto simp: load_sql_def split: option.splits if_splits)

lemma load_sql_failed: "load_sql files name cache = (Inl e, cache') \<Longrightarrow> cache' = cache \<and> e = FileNotFoundError"
  by (auto simp: load_sql_def split: option.splits)

lemma history_base:
  "strip select_position_history_sql = join_with [10]
     [lit ''SELECT tag_id, ts_utc_ms, source_type, status, layer, area,'',
      lit ''       x, y, z, lng, lat, origin'', lit ''FROM position_events'',
      lit ''WHERE tag_id = %(tag_id)s'', lit ''ORDER BY ts_utc_ms DESC'',
      lit ''LIMIT %(limit)s OFFSET %(offset)s'']"
  by code_simp

lemma replace_text_skip:
  "\<not> startswith old (c # s) \<Longrightarrow> old \<noteq> [] \<Longrightarrow> replace_text old new (c # s) = c # replace_text old new s"
  by (simp add: replace_text.simps)

lemma replace_text_hit:
  "startswith old s \<Longrightarrow> old \<noteq> [] \<Longrightarrow> replace_text old new s = new @ replace_text old new (drop (length old) s)"
  by (cases s) (simp_all add: replace_text.simps startswith_def)

lemma list_all_upt_Suc: "list_all P [0..<Suc n] \<longleftrightarrow> P 0 \<and> list_all (\<lambda>i. P (Suc i)) [0..<n]"
  by (simp add: upt_conv_Cons map_Suc_upt [symmetric] list.pred_map comp_def del: upt_Suc)

lemma replace_text_none:
  "list_all (\<lambda>i. \<not> startswith old (drop i s)) [0..<length s] \<Longrightarrow> replace_text old new s = s"
proof (induction s)
  case (Cons c s)
  then have "\<not> startswith old (c # s)" and "list_all (\<lambda>i. \<not> startswith old (drop i s)) [0..<length s]"
    by (simp_all add: list_all_upt_Suc del: upt_Suc)
  with Cons.IH show ?case by (cases "old = []") (simp_all add: replace_text_skip replace_text.simps)
qed (simp add: replace_text.simps)

lemma replace_text_prefix:
  "list_all (\<lambda>i. \<not> startswith old (drop i (a @ b))) [0..<length a] \<Longrightarrow> old \<noteq> [] \<Longrightarrow>
     replace_text old new (a @ b) = a @ replace_text old new b"
proof (induction a)
  case (Cons c a)
  from Cons.prems(1) have "\<not> startswith old (c # a @ b)"
    and "list_all (\<lambda>i. \<not> startswith old (drop i (a @ b))) [0..<length a]"
    by (simp_all add: list_all_upt_Suc del: upt_Suc)
  with Cons.IH Cons.prems(2) show ?case by (simp add: replace_text_skip)
qed simp

definition history_head :: pystr where
  "history_head = join_with [10]
     [lit ''SELECT tag_id, ts_utc_ms, source_type, status, layer, area,'',
      lit ''       x, y, z, lng, lat, origin'', lit ''FROM position_events'',
      lit ''WHERE tag_id = %(tag_id)s'', []]"

definition history_rest :: pystr where
  "history_rest = join_with [10]
     [lit ''ORDER BY ts_utc_ms DESC'', lit ''LIMIT %(limit)s OFFSET %(offset)s'']"

text \<open>
  The queries that the repository puts together say what the filters ask for: the history query is
  the one of the file with the clauses of the filters after the condition on the tag and before the
  order, each once, and the count query ends with the same clauses.
\<close>

theorem history_query_text:
  "history_query (strip select_position_history_sql) (build_time_filters from_ts to_ts) =
     history_head @ concat (map clause_text (build_time_filters from_ts to_ts)) @ [10] @ history_rest
   \<and> count_query (strip count_position_history_sql) (build_time_filters from_ts to_ts) =
     strip count_position_history_sql @ concat (map clause_text (build_time_filters from_ts to_ts))
   \<and> map clause_text (build_time_filters from_ts to_ts) =
     (case from_ts of None \<Rightarrow> [] | Some f \<Rightarrow> [lit '' AND ts_utc_ms >= %(from_ts)s''])
     @ (case to_ts of None \<Rightarrow> [] | Some t \<Rightarrow> [lit '' AND ts_utc_ms <= %(to_ts)s''])"
proof -
  let ?old = "lit ''ORDER BY''"
  have base: "strip select_position_history_sql = history_head @ history_rest" by code_simp
  have "list_all (\<lambda>i. \<not> startswith ?old (drop i (history_head @ history_rest))) [0..<length history_head]"
    by code_simp
  then have "replace_text ?old new (history_head @ history_rest) = history_head @ replace_text ?old new history_rest" for new
    by (rule replace_text_prefix) simp
  moreover have "startswith ?old history_rest" by code_simp
  then have "replace_text ?old new history_rest = new @ replace_text ?old new (drop (length ?old) history_rest)" for new
    by (rule replace_text_hit) simp
  moreover have "list_all (\<lambda>i. \<not> startswith ?old (drop i (drop (length ?old) history_rest)))
      [0..<length (drop (length ?old) history_rest)]" by code_simp
  then have "replace_text ?old new (drop (length ?old) history_rest) = drop (length ?old) history_rest" for new
    by (rule replace_text_none)
  moreover have "history_rest = ?old @ drop (length ?old) history_rest" by code_simp
  ultimately show ?thesis
    by (simp add: history_query_def base count_query_def build_time_filters_def split: option.split)
qed

section \<open>Responses\<close>

definition row_out :: "position_row \<Rightarrow> position_out" where
  "row_out r =
     \<lparr>po_tag_id = pr_tag_id r, po_ts_utc_ms = pr_ts_utc_ms r, po_source_type = pr_source_type r,
      po_origin = pr_origin r, po_status = pr_status r, po_layer = pr_layer r, po_area = pr_area r,
      po_x = pr_x r, po_y = pr_y r, po_z = pr_z r, po_lng = pr_lng r, po_lat = pr_lat r\<rparr>"

lemma may_opt:
  "dict_get row (lit name) = Some (json_opt c v) \<Longrightarrow> (\<And>a. c a \<noteq> JNull) \<Longrightarrow> (\<And>a. conv (c a) = Some a) \<Longrightarrow>
    may conv row name = Inr v"
  by (cases v) (simp_all add: may_def)

lemma make_position_out_row: "make_position_out (row_dict r) = Inr (row_out r)"
proof -
  have get: "dict_get (row_dict r) (lit ''tag_id'') = Some (JStr (pr_tag_id r))"
    "dict_get (row_dict r) (lit ''ts_utc_ms'') = Some (JInt (pr_ts_utc_ms r))"
    "dict_get (row_dict r) (lit ''source_type'') = Some (JStr (pr_source_type r))"
    "dict_get (row_dict r) (lit ''origin'') = Some (JStr (pr_origin r))"
    "dict_get (row_dict r) (lit ''status'') = Some (json_opt JStr (pr_status r))"
    "dict_get (row_dict r) (lit ''layer'') = Some (json_opt JInt (pr_layer r))"
    "dict_get (row_dict r) (lit ''area'') = Some (json_opt JStr (pr_area r))"
    "dict_get (row_dict r) (lit ''x'') = Some (json_opt JFloat (pr_x r))"
    "dict_get (row_dict r) (lit ''y'') = Some (json_opt JFloat (pr_y r))"
    "dict_get (row_dict r) (lit ''z'') = Some (json_opt JFloat (pr_z r))"
    "dict_get (row_dict r) (lit ''lng'') = Some (json_opt JFloat (pr_lng r))"
    "dict_get (row_dict r) (lit ''lat'') = Some (json_opt JFloat (pr_lat r))"
    by (simp_all add: row_dict_def current_pos_columns_def select_row_def)
  note opt = get(5-12) [THEN may_opt]
  show ?thesis
    by (simp add: make_position_out_def need_def get(1-4) opt row_out_def)
qed

lemma make_positions_out: "map_res make_position_out (map row_dict rs) = Inr (map row_out rs)"
  by (induction rs) (simp_all add: make_position_out_row)

text \<open>
  The history endpoint is typed: whatever rows the table holds, a request with acceptable
  parameters is answered 200 with the page of positions, every column in its field, and the number of
  all matching rows; without a tag or with parameters out of range the answer is 422, and only an
  exception of the pool gets through.
\<close>

theorem history_endpoint_typed:
  "answer_history pg w rq =
     (case rq_tag_id rq of
        None \<Rightarrow> Inr (422, FrameworkReply)
      | Some tag \<Rightarrow>
          let limit = (case rq_limit rq of None \<Rightarrow> 100 | Some l \<Rightarrow> l);
              offset = (case rq_offset rq of None \<Rightarrow> 0 | Some k \<Rightarrow> k);
              rows = select_history pg (rw_db w) tag (build_time_filters (rq_from_ts rq) (rq_to_ts rq))
          in if \<not> (1 \<le> limit \<and> limit \<le> 1000 \<and> 0 \<le> offset) then Inr (422, FrameworkReply)
             else (case rw_pool_error w of
                     Some e \<Rightarrow> Inl e
                   | None \<Rightarrow> Inr (200, HistoryReply
                       \<lparr>hr_items = map row_out (take (nat limit) (drop (nat offset) rows)),
                        hr_total = count_position_history (rw_db_later w) tag (rq_from_ts rq) (rq_to_ts rq)\<rparr>)))"
  by (simp add: answer_history_def position_history_def get_position_history_def make_positions_out Let_def
      split: option.split)

section \<open>Counting\<close>

definition counted :: "'k \<Rightarrow> ('k \<times> nat) list \<Rightarrow> nat" where
  "counted k m = (case map_of m k of None \<Rightarrow> 0 | Some n \<Rightarrow> n)"

lemma counted_bump: "counted k (bump k' m) = counted k m + (if k = k' then 1 else 0)"
  by (simp add: counted_def bump_def update_conv')

text \<open>A request that the middleware sees through, with the status of its answer.\<close>

definition observed :: "(request_world \<times> request) \<times> (int \<times> reply) res \<Rightarrow> (pystr \<times> pystr \<times> int) option" where
  "observed x =
     (let rq = snd (fst x)
      in if rq_path rq = lit ''/metrics'' then None
         else (case snd x of Inl e \<Rightarrow> None | Inr r \<Rightarrow> Some (rq_method rq, rq_path rq, fst r)))"

lemma handle_request_counts:
  assumes "handle_request app pg wr hm = (r, hm')"
  shows "counted (meth, path, status) (hm_requests hm') = counted (meth, path, status) (hm_requests hm)
      + (if observed (wr, r) = Some (meth, path, status) then 1 else 0)"
    and "counted (meth, path) (hm_latencies hm') = counted (meth, path) (hm_latencies hm)
      + (if \<exists>s. observed (wr, r) = Some (meth, path, s) then 1 else 0)"
  using assms
  by (cases "answer_request app pg (fst wr) (snd wr)";
      auto simp: handle_request_def prometheus_middleware_def observed_def Let_def counted_bump)+

text \<open>
  The HTTP counters are right: over any sequence of requests, the counter of a method, a path and a
  status grows by the number of requests that were answered so, and the latency histogram of a method
  and a path by the number that were answered at all; requests for the metrics page and requests whose
  handler raises are not counted.
\<close>

theorem http_requests_counted:
  assumes "handle_requests app pg wrs hm = (rs, hm')"
  shows "length rs = length wrs
    \<and> counted (meth, path, status) (hm_requests hm') = counted (meth, path, status) (hm_requests hm)
        + length (filter (\<lambda>x. observed x = Some (meth, path, status)) (zip wrs rs))
    \<and> counted (meth, path) (hm_latencies hm') = counted (meth, path) (hm_latencies hm)
        + length (filter (\<lambda>x. \<exists>s. observed x = Some (meth, path, s)) (zip wrs rs))"
  using assms
proof (induction wrs arbitrary: hm rs)
  case (Cons wr wrs)
  obtain r hm1 where one: "handle_request app pg wr hm = (r, hm1)" by (cases "handle_request app pg wr hm")
  obtain rs1 where "handle_requests app pg wrs hm1 = (rs1, hm')" "rs = r # rs1"
    using Cons.prems one by (auto split: prod.splits)
  with Cons.IH [of hm1 rs1] handle_request_counts [OF one, of meth path] show ?case by simp
qed simp

definition sample_requests :: "(request_world \<times> request) list" where
  "sample_requests = map (\<lambda>(m, p). (\<lparr>rw_probe = Inl DatabaseError, rw_db = empty_db, rw_db_later = empty_db, rw_pool_error = None\<rparr>,
       \<lparr>rq_method = lit m, rq_path = lit p, rq_tag_id = None, rq_from_ts = None, rq_to_ts = None,
        rq_limit = None, rq_offset = None\<rparr>))
     [(''GET'', ''/health''), (''GET'', ''/metrics''), (''POST'', ''/health''), (''GET'', ''/health'')]"

definition sample_app :: app where
  "sample_app =
     \<lparr>ap_config = \<lparr>bk_host = lit ''0.0.0.0'', bk_port = 8000, bk_dsn = [],
        bk_rabbitmq = \<lparr>rc_url = [], rc_exchange = lit ''rtls'', rc_exchange_type = lit ''topic'',
          rc_queue = lit ''q'', rc_routing_key = lit ''rk''\<rparr>\<rparr>,
      ap_cors = \<lparr>cs_origins = [], cs_credentials = True, cs_methods = [], cs_headers = []\<rparr>,
      ap_routes = [(lit ''/health'', HealthCheck), (lit ''/metrics'', MetricsPage)], ap_websockets = []\<rparr>"

lemma http_requests_counted_witness:
  "counted (lit ''GET'', lit ''/health'', 503)
     (hm_requests (snd (handle_requests sample_app sample_pg sample_requests \<lparr>hm_requests = [], hm_latencies = []\<rparr>))) = 2"
proof -
  let ?r = "handle_requests sample_app sample_pg sample_requests \<lparr>hm_requests = [], hm_latencies = []\<rparr>"
  have "fst ?r = [Inr (503, HealthReply (snd (build_health_response (Inl DatabaseError)))), Inr (200, MetricsReply),
      Inr (405, FrameworkReply), Inr (503, HealthReply (snd (build_health_response (Inl DatabaseError))))]"
    by (simp add: sample_app_def sample_requests_def handle_request_def answer_request_def Let_def
        build_health_response_def probe_database_def split: prod.split)
  then show ?thesis
    using http_requests_counted [OF prod.collapse [symmetric], of sample_app sample_pg sample_requests
        "\<lparr>hm_requests = [], hm_latencies = []\<rparr>" "lit ''GET''" "lit ''/health''" 503]
    by (simp add: counted_def sample_requests_def observed_def Let_def)
qed

end
