(* ===== verification/Observability_Properties.thy ===== *)
theory Observability_Properties
  imports Observability
begin

text \<open>Properties of the set-up of logging and tracing, and of the lines that are logged.\<close>

section \<open>The set-up of the logger\<close>

lemma setup_logging_again:
  "rl_handlers logger \<noteq> [] \<Longrightarrow> setup_logging it env level json_format logger = logger\<lparr>rl_level := level\<rparr>"
  by (simp add: setup_logging_def)

lemma setup_logging_handlers: "rl_handlers (setup_logging it env level json_format logger) \<noteq> []"
  by (simp add: setup_logging_def Let_def)

lemma setup_logging_repeated:
  "rl_handlers logger \<noteq> [] \<Longrightarrow>
     fold (\<lambda>(env, level, fmt). setup_logging it env level fmt) calls logger
       = (if calls = [] then logger else logger\<lparr>rl_level := fst (snd (last calls))\<rparr>)"
  by (induction calls arbitrary: logger) (auto simp: setup_logging_again)

text \<open>
  However often a process sets up its logging, a record comes out at most once, in the format that
  the first call chose, with the identifiers of the current span; and it comes out when it reaches the
  level of the last call and also that of the first, so a later call cannot make the log more verbose.
\<close>

theorem logging_set_up_once:
  "log_lines json_line ctx
      (fold (\<lambda>(env, level, fmt). setup_logging it env level fmt) ((env, level, fmt) # calls) fresh_root) r =
     (if max level (fst (snd (last ((env, level, fmt) # calls)))) \<le> lr_level r
      then [format_line json_line (if wants_json it env fmt then JsonFormatter else TextFormatter)
              (trace_inject_filter ctx r)]
      else [])"
  by (simp add: setup_logging_repeated setup_logging_handlers)
    (auto simp: setup_logging_def fresh_root_def log_lines_def)

text \<open>A process that never sets up its logging, as the UDP receiver, writes no record below a warning.\<close>

lemma fresh_root_lines: "log_lines json_line ctx fresh_root r = (if lr_level r < 30 then [] else [lr_message r])"
  by (simp add: log_lines_def fresh_root_def)

section \<open>Identifiers of the span\<close>

text \<open>
  The identifiers that a record carries are hexadecimal texts of 32 and 16 digits that read back as
  the trace and the span identifier of the current context.
\<close>

theorem logged_ids_read_back:
  assumes "0 < sc_trace_id c" and "sc_trace_id c < 2 ^ 128" and "0 < sc_span_id c" and "sc_span_id c < 2 ^ 64"
  shows "\<exists>t s. lr_trace_id (trace_inject_filter (Some c) r) = Some t \<and> length t = 32
     \<and> py_int16 t = Inr (sc_trace_id c)
     \<and> lr_span_id (trace_inject_filter (Some c) r) = Some s \<and> length s = 16
     \<and> py_int16 s = Inr (sc_span_id c)"
proof -
  have read: "py_int16 (hex_pad k n) = Inr n" if "0 < n" "n < 16 ^ k" "0 < k" for k n
  proof -
    have "hex_pad k n \<noteq> []" using that(3) by (simp flip: length_0_conv)
    then have "py_int16 (hex_pad k n) = Inr (digits_value 16 (map hex_value (hex_pad k n)))"
      by (rule hex_text_read) (use that in \<open>simp add: hex_text_pad\<close>)
    with that show ?thesis by (simp add: hex_pad_value)
  qed
  have b: "sc_trace_id c < 16 ^ 32" "sc_span_id c < 16 ^ 16" using assms by simp_all
  then have "format_hex 32 (sc_trace_id c) = hex_pad 32 (sc_trace_id c)"
    and "format_hex 16 (sc_span_id c) = hex_pad 16 (sc_span_id c)"
    using assms by (simp_all only: format_hex_pad)
  with assms b show ?thesis by (simp add: trace_inject_filter_def read)
qed

definition sample_context :: span_context where
  "sample_context = \<lparr>sc_trace_id = 2748, sc_span_id = 255\<rparr>"

definition sample_record :: log_record where
  "sample_record =
     \<lparr>lr_level = 20, lr_name = lit ''backend'', lr_message = lit ''started'', lr_asctime = lit ''2024-05-01 10:00:00'',
      lr_trace_id = None, lr_span_id = None\<rparr>"

theorem logged_ids_read_back_witness:
  "\<exists>t s. lr_trace_id (trace_inject_filter (Some sample_context) sample_record) = Some t
     \<and> length t = 32 \<and> py_int16 t = Inr 2748
     \<and> lr_span_id (trace_inject_filter (Some sample_context) sample_record) = Some s
     \<and> length s = 16 \<and> py_int16 s = Inr 255"
  using logged_ids_read_back [of sample_context sample_record] by (simp add: sample_context_def)

section \<open>The tracer provider\<close>

text \<open>The spans of a process go to exactly one exporter: the endpoint of the environment, else the console.\<close>

lemma tracing_exporter:
  "tp_batch_exporters (fst (init_tracing name (get_otlp_endpoint env))) =
     [case dict_get env (lit ''OTEL_EXPORTER_OTLP_ENDPOINT'') of
        None \<Rightarrow> ConsoleSpanExporter
      | Some e \<Rightarrow> if e = [] then ConsoleSpanExporter else OtlpSpanExporter e True]"
  by (simp add: init_tracing_def get_otlp_endpoint_def Let_def split: option.split)

end
